(* ===== verification/Prelude.thy ===== *)
theory Prelude
  imports Main "HOL-Library.Word" "HOL-Library.Monad_Syntax"
begin

text \<open>
  Shared vocabulary of the development: the widths of the C integer types, the
  \<^verbatim>\<open>errno\<close> values the sources return, byte memories (a packet buffer is a function
  from offsets to bytes, so that the unions of \<^verbatim>\<open>packet.h\<close> alias as they do in C),
  network byte order, and C strings.  The target is Linux on a little-endian machine
  (\<^verbatim>\<open>arch/x86/linux.h\<close>), which only matters for the places where the code stores a
  multi-byte value in host order into a packet buffer.
\<close>

unbundle bit_operations_syntax

section \<open>Integer types and errno values\<close>

type_synonym u8 = "8 word"
type_synonym u16 = "16 word"
type_synonym u32 = "32 word"
type_synonym u64 = "64 word"

abbreviation ENOENT :: int where "ENOENT \<equiv> 2"
abbreviation EINTR :: int where "EINTR \<equiv> 4"
abbreviation EAGAIN :: int where "EAGAIN \<equiv> 11"
abbreviation ENOMEM :: int where "ENOMEM \<equiv> 12"
abbreviation EACCES :: int where "EACCES \<equiv> 13"
abbreviation EINVAL :: int where "EINVAL \<equiv> 22"
abbreviation EBADRQC :: int where "EBADRQC \<equiv> 56"
abbreviation EBADMSG :: int where "EBADMSG \<equiv> 74"
abbreviation EOVERFLOW :: int where "EOVERFLOW \<equiv> 75"
abbreviation ESOCKTNOSUPPORT :: int where "ESOCKTNOSUPPORT \<equiv> 94"
abbreviation EOPNOTSUPP :: int where "EOPNOTSUPP \<equiv> 95"
abbreviation ENETDOWN :: int where "ENETDOWN \<equiv> 100"
abbreviation ECONNRESET :: int where "ECONNRESET \<equiv> 104"
abbreviation ETIMEDOUT :: int where "ETIMEDOUT \<equiv> 110"

text \<open>The enumerations of \<^verbatim>\<open>src/teavpn2/common.h\<close>.\<close>

datatype sock_type = SOCK_UDP | SOCK_TCP

datatype event_loop_t = EVTL_NOP | EVTL_EPOLL | EVTL_IO_URING

named_theorems frame \<open>which fields of a state an operation leaves alone\<close>
named_theorems layout \<open>where the fields of a packet lie in its buffer\<close>

lemma nth_upd: "j < length xs \<Longrightarrow> xs[i := v] ! j = (if i = j then v else xs ! j)"
  by auto

section \<open>Byte memories\<close>

type_synonym mem = "nat \<Rightarrow> u8"

definition mem_read :: "mem \<Rightarrow> nat \<Rightarrow> nat \<Rightarrow> u8 list" where
  "mem_read m off n = map m [off..<off + n]"

definition mem_write :: "mem \<Rightarrow> nat \<Rightarrow> u8 list \<Rightarrow> mem" where
  "mem_write m off bs =
     (\<lambda>i. if off \<le> i \<and> i < off + length bs then bs ! (i - off) else m i)"

text \<open>\<^verbatim>\<open>memset(p, 0, n)\<close>.\<close>

definition mem_zero :: "mem \<Rightarrow> nat \<Rightarrow> nat \<Rightarrow> mem" where
  "mem_zero m off n = (\<lambda>i. if off \<le> i \<and> i < off + n then 0 else m i)"

lemma length_mem_read [simp]: "length (mem_read m off n) = n"
  by (simp add: mem_read_def)

lemma nth_mem_read [simp]: "i < n \<Longrightarrow> mem_read m off n ! i = m (off + i)"
  by (simp add: mem_read_def)

lemma mem_write_out [simp]:
  "i < off \<or> off + length bs \<le> i \<Longrightarrow> mem_write m off bs i = m i"
  by (auto simp: mem_write_def)

lemma mem_write_in [simp]:
  "off \<le> i \<Longrightarrow> i < off + length bs \<Longrightarrow> mem_write m off bs i = bs ! (i - off)"
  by (auto simp: mem_write_def)

lemma mem_zero_out [simp]: "i < off \<or> off + n \<le> i \<Longrightarrow> mem_zero m off n i = m i"
  by (auto simp: mem_zero_def)

lemma mem_zero_in [simp]: "off \<le> i \<Longrightarrow> i < off + n \<Longrightarrow> mem_zero m off n i = 0"
  by (auto simp: mem_zero_def)

lemma mem_read_write_same [simp]: "mem_read (mem_write m off bs) off (length bs) = bs"
  by (rule nth_equalityI) simp_all

lemma mem_read_write_exact:
  "n = length bs \<Longrightarrow> mem_read (mem_write m off bs) off n = bs"
  by simp

lemma mem_read_write_disjoint [simp]:
  "off + n \<le> off' \<or> off' + length bs \<le> off \<Longrightarrow>
   mem_read (mem_write m off' bs) off n = mem_read m off n"
  by (rule nth_equalityI) auto

lemma mem_read_zero_same [simp]: "mem_read (mem_zero m off n) off n = replicate n 0"
  by (rule nth_equalityI) simp_all

lemma mem_read_upd_disjoint [simp]:
  "i < off \<or> off + n \<le> i \<Longrightarrow> mem_read (m(i := b)) off n = mem_read m off n"
  by (rule nth_equalityI) auto

section \<open>Byte order\<close>

text \<open>
  \<^verbatim>\<open>htons\<close> followed by a store puts the high byte first; \<^verbatim>\<open>ntohs\<close> after a load reads it
  back.  \<open>put_le16\<close> is a plain 16-bit store on a little-endian machine.
\<close>

definition put_be16 :: "mem \<Rightarrow> nat \<Rightarrow> u16 \<Rightarrow> mem" where
  "put_be16 m off v = m(off := ucast (drop_bit 8 v), off + 1 := ucast v)"

definition get_be16 :: "mem \<Rightarrow> nat \<Rightarrow> u16" where
  "get_be16 m off = push_bit 8 (ucast (m off)) OR ucast (m (off + 1))"

definition put_le16 :: "mem \<Rightarrow> nat \<Rightarrow> u16 \<Rightarrow> mem" where
  "put_le16 m off v = m(off := ucast v, off + 1 := ucast (drop_bit 8 v))"

definition get_be32 :: "mem \<Rightarrow> nat \<Rightarrow> u32" where
  "get_be32 m off =
     push_bit 24 (ucast (m off)) OR push_bit 16 (ucast (m (off + 1)))
     OR push_bit 8 (ucast (m (off + 2))) OR ucast (m (off + 3))"

lemma u16_split: "push_bit 8 (ucast (ucast (drop_bit 8 v) :: u8)) OR ucast (ucast v :: u8) = (v :: u16)"
  by (rule bit_word_eqI) (auto simp: bit_simps)

lemma get_put_be16 [simp]: "get_be16 (put_be16 m off v) off = v"
  by (simp add: get_be16_def put_be16_def u16_split)

lemma put_be16_out [simp]: "i \<noteq> off \<Longrightarrow> i \<noteq> off + 1 \<Longrightarrow> put_be16 m off v i = m i"
  by (simp add: put_be16_def)

lemma get_be16_upd [simp]:
  "i \<noteq> off \<Longrightarrow> i \<noteq> off + 1 \<Longrightarrow> get_be16 (m(i := b)) off = get_be16 m off"
  by (simp add: get_be16_def)

lemma mem_read_put_be16 [simp]:
  "off' + 2 \<le> off \<or> off + n \<le> off' \<Longrightarrow> mem_read (put_be16 m off' v) off n = mem_read m off n"
  by (auto simp: put_be16_def)

section \<open>C strings\<close>

text \<open>
  A C string is a \<^typ>\<open>string\<close> without the terminating NUL.  \<open>strncpy2\<close>
  (\<^verbatim>\<open>common.h\<close>) copies at most \<open>n - 1\<close> characters into an array of \<open>n\<close> bytes and pads
  with NULs: \<open>strncpy2\<close> is the C string the array holds afterwards and \<open>strncpy2_bytes\<close>
  the array itself.
\<close>

definition bytes_of :: "string \<Rightarrow> u8 list" where
  "bytes_of s = map (\<lambda>c. word_of_nat (of_char c)) s"

definition cstr :: "u8 list \<Rightarrow> string" where
  "cstr bs = map (\<lambda>b. char_of (unat b)) (takeWhile (\<lambda>b. b \<noteq> 0) bs)"

definition strncpy2 :: "string \<Rightarrow> nat \<Rightarrow> string" where
  "strncpy2 s n = take (n - 1) s"

definition strncpy2_bytes :: "string \<Rightarrow> nat \<Rightarrow> u8 list" where
  "strncpy2_bytes s n =
     (let c = take n (bytes_of s) in (c @ replicate (n - length c) 0)[n - 1 := 0])"

definition no_nul :: "string \<Rightarrow> bool" where
  "no_nul s \<longleftrightarrow> (CHR 0x00) \<notin> set s"

lemma length_bytes_of [simp]: "length (bytes_of s) = length s"
  by (simp add: bytes_of_def)

lemma length_strncpy2_bytes [simp]: "length (strncpy2_bytes s n) = n"
  by (simp add: strncpy2_bytes_def Let_def)

lemma byte_of_char_zero [simp]: "word_of_nat (of_char c) = (0 :: u8) \<longleftrightarrow> c = CHR 0x00"
proof -
  have "of_char c < (256 :: nat)" by simp
  then have "word_of_nat (of_char c) = (0 :: u8) \<longleftrightarrow> of_char c = (0 :: nat)"
    using nat_dvd_not_less [of "of_char c" 256]
    by (auto simp: word_of_nat_eq_0_iff)
  also have "\<dots> \<longleftrightarrow> of_char c = (of_char (CHR 0x00) :: nat)" by simp
  finally show ?thesis by (simp only: of_char_eq_iff)
qed

lemma char_of_byte_of_char [simp]: "char_of (unat (word_of_nat (of_char c) :: u8)) = c"
  by (simp add: unat_of_nat)

lemma takeWhile_bytes_of:
  "no_nul s \<Longrightarrow> takeWhile (\<lambda>b. b \<noteq> 0) (bytes_of s @ 0 # bs) = bytes_of s"
  by (induction s) (auto simp: bytes_of_def no_nul_def)

lemma cstr_bytes_of: "no_nul s \<Longrightarrow> cstr (bytes_of s @ 0 # bs) = s"
  by (simp add: cstr_def takeWhile_bytes_of) (simp add: bytes_of_def o_def)

lemma no_nul_take [simp]: "no_nul s \<Longrightarrow> no_nul (take n s)"
  by (auto simp: no_nul_def dest: in_set_takeD)

lemma char_of_byte_nonzero: "b \<noteq> (0 :: u8) \<Longrightarrow> char_of (unat b) \<noteq> CHR 0x00"
proof
  assume "b \<noteq> 0" and "char_of (unat b) = CHR 0x00"
  then have "of_char (char_of (unat b)) = (of_char (CHR 0x00) :: nat)" by simp
  then have "unat b mod 256 = 0" by simp
  moreover have "unat b < 256" using unsigned_less [of b] by simp
  ultimately have "unat b = 0" by simp
  with \<open>b \<noteq> 0\<close> show False by (simp add: unsigned_eq_0_iff)
qed

lemma no_nul_cstr [simp]: "no_nul (cstr bs)"
proof -
  have "CHR 0x00 \<noteq> char_of (unat b)" if "b \<in> set (takeWhile (\<lambda>b. b \<noteq> 0) bs)" for b :: u8
    using set_takeWhileD [OF that] char_of_byte_nonzero [of b] by auto
  then show ?thesis by (auto simp only: no_nul_def cstr_def set_map image_iff)
qed

lemma length_cstr_le: "length (cstr bs) \<le> length bs"
  by (simp add: cstr_def length_takeWhile_le)

lemma strncpy2_bytes_split:
  assumes "0 < n"
  shows "\<exists>bs. strncpy2_bytes s n = bytes_of (take (n - 1) s) @ 0 # bs"
proof (cases "length s < n")
  case True
  then obtain k where k: "n - length s = Suc k" by (cases "n - length s") auto
  have "strncpy2_bytes s n = (bytes_of s @ replicate (Suc k) 0)[n - 1 := 0]"
    using True k by (simp add: strncpy2_bytes_def Let_def)
  also have "\<dots> = bytes_of s @ (replicate (Suc k) 0)[n - 1 - length s := 0]"
    using True by (subst list_update_append) auto
  also have "\<dots> = bytes_of s @ replicate (Suc k) 0"
    by (metis list_update_id nth_replicate list_update_beyond length_replicate not_le)
  finally show ?thesis using True by auto
next
  case False
  have "strncpy2_bytes s n = (take n (bytes_of s))[n - 1 := 0]"
    using False by (simp add: strncpy2_bytes_def Let_def)
  also have "take n (bytes_of s) = take (n - 1) (bytes_of s) @ [bytes_of s ! (n - 1)]"
    using False assms take_Suc_conv_app_nth [of "n - 1" "bytes_of s"] by simp
  also have "\<dots>[n - 1 := 0] = take (n - 1) (bytes_of s) @ [0]"
    using False assms by (simp add: list_update_append)
  finally show ?thesis by (simp add: bytes_of_def take_map)
qed

lemma cstr_strncpy2_bytes [simp]:
  assumes "0 < n" and "no_nul s"
  shows "cstr (strncpy2_bytes s n) = strncpy2 s n"
proof -
  obtain bs where "strncpy2_bytes s n = bytes_of (take (n - 1) s) @ 0 # bs"
    using strncpy2_bytes_split [OF assms(1)] by blast
  then show ?thesis using assms(2) by (simp add: cstr_bytes_of strncpy2_def)
qed

lemma length_strncpy2: "0 < n \<Longrightarrow> length (strncpy2 s n) < n"
  by (simp add: strncpy2_def)

lemma strncpy2_fits: "length s < n \<Longrightarrow> strncpy2 s n = s"
  by (simp add: strncpy2_def)

section \<open>Simulations\<close>

text \<open>Every step of the machine is a sequence of steps of its specification, hence every run is.\<close>

locale simulation =
  fixes step :: "'m \<Rightarrow> 'm \<Rightarrow> bool"
    and spec :: "'a \<Rightarrow> 'a \<Rightarrow> bool"
    and rel :: "'m \<Rightarrow> 'a \<Rightarrow> bool"
  assumes simulates: "rel m a \<Longrightarrow> step m m' \<Longrightarrow> \<exists>a'. rel m' a' \<and> spec\<^sup>*\<^sup>* a a'"
begin

lemma run_simulates: "step\<^sup>*\<^sup>* m m' \<Longrightarrow> rel m a \<Longrightarrow> \<exists>a'. rel m' a' \<and> spec\<^sup>*\<^sup>* a a'"
proof (induction rule: rtranclp_induct)
  case (step m1 m2)
  then obtain a1 where "rel m1 a1" "spec\<^sup>*\<^sup>* a a1" by blast
  then show ?case using simulates [OF _ step.hyps(2)] by (meson rtranclp_trans)
qed auto

end

end
