(* ===== verification/Allocator.thy ===== *)
theory Allocator
  imports Prelude
begin

text \<open>
  The 64-byte aligned allocator of \<^verbatim>\<open>src/teavpn2/allocator.c\<close> on top of libc's
  \<^verbatim>\<open>malloc\<close>, \<^verbatim>\<open>calloc\<close>, \<^verbatim>\<open>realloc\<close> and \<^verbatim>\<open>free\<close>.  The heap is a byte store and
  the set of live libc blocks; which address libc picks for a request is not the program's
  choice, so every allocating operation takes libc's answer as an argument (\<^const>\<open>None\<close>
  is a NULL).  Pointers and sizes are 64-bit words, so the sizes the code adds wrap as in C.
\<close>

section \<open>The libc heap\<close>

record heap =
  hmem :: "u64 \<Rightarrow> u8"
  hblocks :: "u64 \<rightharpoonup> nat"

definition libc_malloc :: "u64 option \<Rightarrow> u64 \<Rightarrow> heap \<Rightarrow> u64 option \<times> heap" where
  "libc_malloc ans n h =
     (case ans of None \<Rightarrow> (None, h)
      | Some p \<Rightarrow> (Some p, h\<lparr>hblocks := (hblocks h)(p \<mapsto> unat n)\<rparr>))"

definition libc_calloc :: "u64 option \<Rightarrow> u64 \<Rightarrow> heap \<Rightarrow> u64 option \<times> heap" where
  "libc_calloc ans n h =
     (case ans of None \<Rightarrow> (None, h)
      | Some p \<Rightarrow> (Some p, h\<lparr>hblocks := (hblocks h)(p \<mapsto> unat n),
                           hmem := (\<lambda>a. if a - p < n then 0 else hmem h a)\<rparr>))"

definition libc_realloc :: "u64 \<Rightarrow> u64 option \<Rightarrow> u64 \<Rightarrow> heap \<Rightarrow> u64 option \<times> heap" where
  "libc_realloc p ans n h =
     (case ans of None \<Rightarrow> (None, h)
      | Some q \<Rightarrow>
          (let old = (case hblocks h p of None \<Rightarrow> 0 | Some k \<Rightarrow> k) in
           (Some q, h\<lparr>hblocks := (hblocks h)(p := None, q \<mapsto> unat n),
                      hmem := (\<lambda>a. if unat (a - q) < min old (unat n)
                                    then hmem h (p + (a - q)) else hmem h a)\<rparr>)))"

definition libc_free :: "u64 \<Rightarrow> heap \<Rightarrow> heap" where
  "libc_free p h = h\<lparr>hblocks := (hblocks h)(p := None)\<rparr>"

section \<open>The aligned allocator\<close>

text \<open>
  The three allocating functions end with the same four statements: round up, remember the
  distance to libc's pointer in the byte below the user's pointer.
\<close>

definition al64_extra_size :: u64 where
  "al64_extra_size = 63 + 1"

definition al64_place :: "u64 \<Rightarrow> heap \<Rightarrow> u64 \<times> heap" where
  "al64_place orig h =
     (let aligned = (orig + al64_extra_size) AND NOT 63;
          shift = (ucast (aligned - orig) :: u8)
      in (aligned, h\<lparr>hmem := (hmem h)(aligned - 1 := shift)\<rparr>))"

text \<open>The result of an allocation: the pointer (0 is NULL), \<^verbatim>\<open>errno\<close>, the heap.\<close>

definition al64_calloc :: "u64 option \<Rightarrow> u64 \<Rightarrow> u64 \<Rightarrow> heap \<Rightarrow> u64 \<times> int \<times> heap" where
  "al64_calloc ans nmemb sz h =
     (if 2 ^ 64 \<le> unat nmemb * unat sz then (0, EOVERFLOW, h)
      else case libc_calloc ans (nmemb * sz + al64_extra_size) h of
             (None, h') \<Rightarrow> (0, ENOMEM, h')
           | (Some orig, h') \<Rightarrow>
               (case al64_place orig h' of (aligned, h'') \<Rightarrow> (aligned, 0, h'')))"

definition al64_malloc :: "u64 option \<Rightarrow> u64 \<Rightarrow> heap \<Rightarrow> u64 \<times> int \<times> heap" where
  "al64_malloc ans sz h =
     (case libc_malloc ans (sz + al64_extra_size) h of
        (None, h') \<Rightarrow> (0, ENOMEM, h')
      | (Some orig, h') \<Rightarrow>
          (case al64_place orig h' of (aligned, h'') \<Rightarrow> (aligned, 0, h'')))"

definition al64_orig :: "u64 \<Rightarrow> heap \<Rightarrow> u64" where
  "al64_orig user h = user - ucast (hmem h (user - 1))"

definition al64_free :: "u64 \<Rightarrow> heap \<Rightarrow> heap" where
  "al64_free user h = (if user = 0 then h else libc_free (al64_orig user h) h)"

definition al64_realloc :: "u64 option \<Rightarrow> u64 \<Rightarrow> u64 \<Rightarrow> heap \<Rightarrow> u64 \<times> int \<times> heap" where
  "al64_realloc ans user new_size h =
     (if user = 0 then al64_malloc ans new_size h
      else case libc_realloc (al64_orig user h) ans (new_size + al64_extra_size) h of
             (None, h') \<Rightarrow> (0, ENOMEM, h')
           | (Some tmp, h') \<Rightarrow>
               (case al64_place tmp h' of (aligned, h'') \<Rightarrow> (aligned, 0, h'')))"

section \<open>Alignment arithmetic\<close>

text \<open>
  What libc promises of an address it returns for a request of \<open>n\<close> bytes: it is not NULL and
  the block, with the address one past its end, lies inside the address space.
\<close>

definition libc_block :: "u64 \<Rightarrow> nat \<Rightarrow> bool" where
  "libc_block p n \<longleftrightarrow> p \<noteq> 0 \<and> unat p + n < 2 ^ 64"

lemma and_not_63: "x AND NOT 63 = x - take_bit 6 (x :: u64)"
proof -
  have "(63 :: u64) = mask 6" by (simp add: mask_eq_exp_minus_1)
  then have "x = (x AND NOT 63) + take_bit 6 x"
    by (subst disjunctive_add_eq_or) (auto simp: bit_eq_iff bit_simps)
  then show ?thesis by (simp add: algebra_simps)
qed

lemma unat_and_not_63: "unat (x AND NOT 63 :: u64) = unat x - unat x mod 64"
proof -
  have tb: "unat (take_bit 6 x) = unat x mod 64"
    by (simp add: take_bit_eq_mod unat_mod)
  then have "take_bit 6 x \<le> x"
    by (simp add: word_le_nat_alt)
  then show ?thesis unfolding and_not_63 by (simp add: unat_sub tb)
qed

lemma al64_aligned:
  assumes "libc_block orig n" and "64 \<le> n"
  shows "unat ((orig + al64_extra_size) AND NOT 63) = unat orig + (64 - unat orig mod 64)"
proof -
  from assms have "unat (orig + 64) = unat orig + 64"
    by (simp add: libc_block_def unat_word_ariths)
  then have "unat ((orig + al64_extra_size) AND NOT 63) = unat orig + 64 - unat orig mod 64"
    unfolding unat_and_not_63 by (simp add: al64_extra_size_def)
  moreover have "unat orig mod 64 < 64" by simp
  ultimately show ?thesis by linarith
qed

lemma al64_shift:
  assumes "libc_block orig n" and "64 \<le> n"
    and al: "al = (orig + al64_extra_size) AND NOT 63"
  shows "unat al mod 64 = 0" and "unat orig < unat al" and "unat al \<le> unat orig + 64"
    and "al \<noteq> 0" and "unat (al - orig) = 64 - unat orig mod 64"
    and "al - ucast (ucast (al - orig) :: u8) = orig"
proof -
  have u: "unat al = unat orig + (64 - unat orig mod 64)"
    using al64_aligned [OF assms(1,2)] al by simp
  have m: "unat orig mod 64 < 64" by simp
  show lt: "unat orig < unat al" using u m by linarith
  show "unat al \<le> unat orig + 64" using u by linarith
  show "al \<noteq> 0" using lt by auto
  have "unat al = 64 * (unat orig div 64 + 1)"
    using u by presburger
  then show "unat al mod 64 = 0" by simp
  have "orig \<le> al" using lt by (simp add: word_le_nat_alt)
  then show d: "unat (al - orig) = 64 - unat orig mod 64"
    using u by (simp add: unat_sub)
  have "unat (ucast (ucast (al - orig) :: u8) :: u64) = unat (al - orig)"
    using d by (simp add: unsigned_ucast_eq unsigned_take_bit_eq take_bit_eq_mod unat_mod)
  then have "ucast (ucast (al - orig) :: u8) = al - orig"
    by (simp add: word_unat_eq_iff)
  then show "al - ucast (ucast (al - orig) :: u8) = orig" by simp
qed

section \<open>Contract of the allocator\<close>

text \<open>
  The interface the callers rely on: a pointer that is aligned, usable for the requested
  size inside the libc block it came from, and that \<open>dealloc\<close> maps back to that block.
\<close>

locale aligned_allocator =
  fixes place :: "u64 \<Rightarrow> heap \<Rightarrow> u64 \<times> heap"
    and dealloc :: "u64 \<Rightarrow> heap \<Rightarrow> heap"
  assumes place_aligned: "libc_block p n \<Longrightarrow> 64 \<le> n \<Longrightarrow> unat (fst (place p h)) mod 64 = 0"
    and place_in_block: "libc_block p n \<Longrightarrow> 64 \<le> n \<Longrightarrow>
      unat p < unat (fst (place p h)) \<and> unat (fst (place p h)) + (n - 64) \<le> unat p + n"
    and place_blocks: "hblocks (snd (place p h)) = hblocks h"
    and dealloc_place: "libc_block p n \<Longrightarrow> 64 \<le> n \<Longrightarrow>
      hblocks (dealloc (fst (place p h)) (snd (place p h))) = (hblocks h)(p := None)"
begin

lemma place_not_null: "libc_block p n \<Longrightarrow> 64 \<le> n \<Longrightarrow> fst (place p h) \<noteq> 0"
  using place_in_block [of p n h] by auto

lemma alloc_dealloc:
  assumes "libc_block p n" and "64 \<le> n" and "hblocks h p = None"
    and "hblocks h' = (hblocks h)(p \<mapsto> n)"
  shows "hblocks (dealloc (fst (place p h')) (snd (place p h'))) = hblocks h"
  using assms dealloc_place [of p n h'] by (auto simp: fun_upd_idem)

end

interpretation al64: aligned_allocator al64_place al64_free
proof
  fix p n h assume blk: "libc_block p n" "64 \<le> n"
  note sh = al64_shift [OF blk refl]
  show "unat (fst (al64_place p h)) mod 64 = 0"
    using sh(1) by (simp add: al64_place_def Let_def)
  show "unat p < unat (fst (al64_place p h)) \<and> unat (fst (al64_place p h)) + (n - 64) \<le> unat p + n"
    using sh(2,3) blk(2) by (simp add: al64_place_def Let_def)
  show "hblocks (al64_free (fst (al64_place p h)) (snd (al64_place p h))) = (hblocks h)(p := None)"
    using sh(4,6) by (simp add: al64_place_def al64_free_def al64_orig_def libc_free_def Let_def)
next
  fix p h show "hblocks (snd (al64_place p h)) = hblocks h"
    by (simp add: al64_place_def Let_def)
qed

text \<open>Every byte of the user's area keeps what libc put there: only the byte below is written.\<close>

lemma al64_place_mem: "a \<noteq> fst (al64_place p h) - 1 \<Longrightarrow> hmem (snd (al64_place p h)) a = hmem h a"
  by (simp add: al64_place_def Let_def)


section \<open>Properties\<close>

lemma unat_request:
  "unat sz + 64 < 2 ^ 64 \<Longrightarrow> unat (sz + al64_extra_size) = unat sz + 64"
  by (simp add: al64_extra_size_def unat_word_ariths)

lemma al64_malloc_Some:
  "al64_malloc (Some p) sz h =
     (fst (al64_place p (h\<lparr>hblocks := (hblocks h)(p \<mapsto> unat (sz + al64_extra_size))\<rparr>)), 0,
      snd (al64_place p (h\<lparr>hblocks := (hblocks h)(p \<mapsto> unat (sz + al64_extra_size))\<rparr>)))"
  by (simp add: al64_malloc_def libc_malloc_def split: prod.splits)

text \<open>
  C26: for any request that does not wrap past the address space, \<open>al64_malloc\<close> returns a
  non-NULL 64-byte aligned pointer whose whole requested area lies inside the block libc gave
  it, above the byte that records the shift; and \<open>al64_free\<close> of that pointer gives exactly
  that block back to libc, leaving every other live block alone.
\<close>

theorem al64_malloc_free_roundtrip:
  assumes "libc_block p (unat sz + 64)" and "unat sz + 64 < 2 ^ 64" and "hblocks h p = None"
    and "al64_malloc (Some p) sz h = (user, err, h')"
  shows "user \<noteq> 0 \<and> unat user mod 64 = 0 \<and> err = 0
    \<and> unat p < unat user \<and> unat user + unat sz \<le> unat p + (unat sz + 64)
    \<and> hblocks h' = (hblocks h)(p \<mapsto> unat sz + 64)
    \<and> hblocks (al64_free user h') = hblocks h"
proof -
  define h1 where "h1 = h\<lparr>hblocks := (hblocks h)(p \<mapsto> unat (sz + al64_extra_size))\<rparr>"
  have b1: "hblocks h1 = (hblocks h)(p \<mapsto> unat sz + 64)"
    using unat_request [OF assms(2)] by (simp add: h1_def)
  have r: "user = fst (al64_place p h1)" "h' = snd (al64_place p h1)" "err = 0"
    using assms(4) by (simp_all add: al64_malloc_Some h1_def)
  show ?thesis
    using al64.place_aligned [OF assms(1), of h1] al64.place_in_block [OF assms(1), of h1]
      al64.place_not_null [OF assms(1), of h1] al64.alloc_dealloc [OF assms(1) _ assms(3) b1]
    by (simp add: r b1 al64.place_blocks)
qed

text \<open>Witness of C26: a 100-byte request answered with a block at address 4097.\<close>

theorem al64_malloc_free_roundtrip_witness:
  "fst (al64_malloc (Some 4097) 100 \<lparr>hmem = (\<lambda>_. 0), hblocks = Map.empty\<rparr>) \<noteq> 0"
proof -
  obtain user err h' where
    eq: "al64_malloc (Some 4097) 100 \<lparr>hmem = (\<lambda>_. 0), hblocks = Map.empty\<rparr> = (user, err, h')"
    by (metis prod_cases3)
  have "libc_block 4097 (unat (100 :: u64) + 64)" by (simp add: libc_block_def)
  from al64_malloc_free_roundtrip [OF this _ _ eq] show ?thesis by (simp add: eq)
qed

text \<open>
  \<open>al64_calloc\<close> refuses every request whose element count times element size
  does not fit 64 bits (a NULL, \<^verbatim>\<open>EOVERFLOW\<close>, the heap untouched); every other request
  libc answers, whose size leaves room for the 64 extra bytes, yields an aligned non-NULL
  pointer to \<open>nmemb * size\<close> zero bytes inside the block.
\<close>

theorem al64_calloc_zeroed:
  assumes "unat nmemb * unat sz + 64 < 2 ^ 64" and "libc_block p (unat nmemb * unat sz + 64)"
    and "al64_calloc (Some p) nmemb sz h = (user, err, h')"
  shows "(\<forall>n s. 2 ^ 64 \<le> unat n * unat s \<longrightarrow> al64_calloc (Some p) n s h = (0, EOVERFLOW, h))
    \<and> user \<noteq> 0 \<and> unat user mod 64 = 0 \<and> err = 0
    \<and> (\<forall>i < unat nmemb * unat sz. hmem h' (user + word_of_nat i) = 0)"
proof -
  define n where "n = unat nmemb * unat sz"
  have un: "unat (nmemb * sz + al64_extra_size) = n + 64"
    using assms(1) by (simp add: al64_extra_size_def unat_word_ariths n_def)
  define h1 where "h1 = h\<lparr>hblocks := (hblocks h)(p \<mapsto> n + 64),
      hmem := (\<lambda>a. if a - p < nmemb * sz + al64_extra_size then 0 else hmem h a)\<rparr>"
  have r: "user = fst (al64_place p h1)" "h' = snd (al64_place p h1)" "err = 0"
    using assms(1,3) un
    by (simp_all add: al64_calloc_def libc_calloc_def h1_def n_def [symmetric] split: prod.splits)
  note blk = assms(2)[folded n_def]
  have u: "unat p < unat user" "unat user + n \<le> unat p + (n + 64)" "unat user mod 64 = 0" "user \<noteq> 0"
    using al64.place_in_block [OF blk, of h1] al64.place_aligned [OF blk, of h1]
      al64.place_not_null [OF blk, of h1] r(1) by auto
  have z: "hmem h' (user + word_of_nat i) = 0" if "i < n" for i
  proof -
    have lim: "unat p + (n + 64) < 2 ^ 64" using blk by (simp add: libc_block_def)
    have i64: "unat (word_of_nat i :: u64) = i" using that lim by (simp add: unat_of_nat)
    have ui: "unat (user + word_of_nat i) = unat user + i"
      using that lim u(2) i64 by (simp add: unat_word_ariths)
    have "unat (user + word_of_nat i - p) = unat user + i - unat p"
      using u(1) ui by (simp add: unat_sub word_le_nat_alt)
    then have "user + word_of_nat i - p < nmemb * sz + al64_extra_size"
      using u(2) that u(1) by (simp add: word_less_nat_alt un)
    then have "hmem h1 (user + word_of_nat i) = 0" by (simp add: h1_def)
    moreover have "user + word_of_nat i \<noteq> user - 1"
    proof
      assume "user + word_of_nat i = user - 1"
      then have "unat (word_of_nat i + 1 :: u64) = 0" by (simp add: algebra_simps)
      then show False using i64 that lim by (simp add: unat_word_ariths)
    qed
    ultimately show ?thesis using al64_place_mem [of "user + word_of_nat i" p h1] r by simp
  qed
  show ?thesis using u z r(3) by (auto simp: al64_calloc_def n_def)
qed

text \<open>An instance: three elements of eight bytes.\<close>

theorem al64_calloc_zeroed_witness:
  "hmem (snd (snd (al64_calloc (Some 4096) 3 8 \<lparr>hmem = (\<lambda>_. 7), hblocks = Map.empty\<rparr>)))
     (fst (al64_calloc (Some 4096) 3 8 \<lparr>hmem = (\<lambda>_. 7), hblocks = Map.empty\<rparr>) + word_of_nat 23) = 0"
proof -
  obtain user err h' where
    eq: "al64_calloc (Some 4096) 3 8 \<lparr>hmem = (\<lambda>_. 7), hblocks = Map.empty\<rparr> = (user, err, h')"
    by (metis prod_cases3)
  have "\<forall>i < unat (3 :: u64) * unat (8 :: u64). hmem h' (user + word_of_nat i) = 0"
    using al64_calloc_zeroed [OF _ _ eq] by (simp add: libc_block_def)
  then have "hmem h' (user + word_of_nat 23) = 0" by (rule allE [where x = 23]) simp
  then show ?thesis by (simp add: eq)
qed

end
