(* ===== verification/Packet.thy ===== *)
theory Packet
  imports Prelude
begin

text \<open>
  The wire format of \<^verbatim>\<open>src/teavpn2/packet.h\<close> and the functions that prepare packets in
  \<^verbatim>\<open>server/linux/udp.h\<close> and \<^verbatim>\<open>client/linux/udp.h\<close>.  A packet buffer is the byte memory of
  \<^verbatim>\<open>sc_pkt.__raw\<close>; the offsets of the struct fields below are the ones the source pins with
  \<^verbatim>\<open>OFFSET_ASSERT\<close> and \<^verbatim>\<open>SIZE_ASSERT\<close>.  All unions are overlays of the same bytes, so a
  packet prepared for sending overwrites the packet that was received, as in the code.
\<close>

section \<open>Packet types and sizes\<close>

abbreviation TCLI_PKT_HANDSHAKE :: u8 where "TCLI_PKT_HANDSHAKE \<equiv> 0"
abbreviation TCLI_PKT_AUTH :: u8 where "TCLI_PKT_AUTH \<equiv> 1"
abbreviation TCLI_PKT_TUN_DATA :: u8 where "TCLI_PKT_TUN_DATA \<equiv> 2"
abbreviation TCLI_PKT_REQSYNC :: u8 where "TCLI_PKT_REQSYNC \<equiv> 3"
abbreviation TCLI_PKT_SYNC :: u8 where "TCLI_PKT_SYNC \<equiv> 4"
abbreviation TCLI_PKT_CLOSE :: u8 where "TCLI_PKT_CLOSE \<equiv> 5"

abbreviation TSRV_PKT_HANDSHAKE :: u8 where "TSRV_PKT_HANDSHAKE \<equiv> 0"
abbreviation TSRV_PKT_AUTH_OK :: u8 where "TSRV_PKT_AUTH_OK \<equiv> 1"
abbreviation TSRV_PKT_TUN_DATA :: u8 where "TSRV_PKT_TUN_DATA \<equiv> 2"
abbreviation TSRV_PKT_REQSYNC :: u8 where "TSRV_PKT_REQSYNC \<equiv> 3"
abbreviation TSRV_PKT_SYNC :: u8 where "TSRV_PKT_SYNC \<equiv> 4"
abbreviation TSRV_PKT_CLOSE :: u8 where "TSRV_PKT_CLOSE \<equiv> 5"
abbreviation TSRV_PKT_HANDSHAKE_REJECT :: u8 where "TSRV_PKT_HANDSHAKE_REJECT \<equiv> 6"
abbreviation TSRV_PKT_AUTH_REJECT :: u8 where "TSRV_PKT_AUTH_REJECT \<equiv> 7"

abbreviation TSRV_HREJECT_INVALID :: u8 where "TSRV_HREJECT_INVALID \<equiv> 1"
abbreviation TSRV_HREJECT_VERSION_NOT_SUPPORTED :: u8 where
  "TSRV_HREJECT_VERSION_NOT_SUPPORTED \<equiv> 2"

text \<open>Sizes in bytes: the header, the payload union, the whole packet, the payload structs.\<close>

abbreviation PKT_MIN_LEN :: nat where "PKT_MIN_LEN \<equiv> 4"
abbreviation PKT_RAW_LEN :: nat where "PKT_RAW_LEN \<equiv> 4096"
abbreviation PKT_MAX_LEN :: nat where "PKT_MAX_LEN \<equiv> 4100"
abbreviation SZ_HANDSHAKE :: nat where "SZ_HANDSHAKE \<equiv> 96"
abbreviation SZ_HS_REJECT :: nat where "SZ_HS_REJECT \<equiv> 512"
abbreviation SZ_AUTH :: nat where "SZ_AUTH \<equiv> 512"
abbreviation SZ_IF_INFO :: nat where "SZ_IF_INFO \<equiv> 82"
abbreviation SZ_AUTH_RES :: nat where "SZ_AUTH_RES \<equiv> 84"

text \<open>The version numbers the build passes on the compiler's command line.\<close>

definition VERSION :: u8 where "VERSION = 0"
definition PATCHLEVEL :: u8 where "PATCHLEVEL = 1"
definition SUBLEVEL :: u8 where "SUBLEVEL = 2"
definition EXTRAVERSION :: string where "EXTRAVERSION = ''-rc1''"

section \<open>Structures\<close>

record sc_pkt =
  pkt_len :: nat
  raw :: mem

text \<open>Field accessors; \<open>pkt_dlen\<close> is \<^verbatim>\<open>ntohs(pkt->len)\<close>.\<close>

definition pkt_type :: "mem \<Rightarrow> u8" where "pkt_type m = m 0"
definition pkt_pad_len :: "mem \<Rightarrow> u8" where "pkt_pad_len m = m 1"
definition pkt_dlen :: "mem \<Rightarrow> u16" where "pkt_dlen m = get_be16 m 2"

record teavpn2_version =
  ver :: u8
  patch_lvl :: u8
  sub_lvl :: u8
  extra :: string

definition pkt_handshake_cur :: "mem \<Rightarrow> teavpn2_version" where
  "pkt_handshake_cur m =
     \<lparr>ver = m 4, patch_lvl = m 5, sub_lvl = m 6, extra = cstr (mem_read m 7 28)\<rparr>"

text \<open>
  \<^verbatim>\<open>struct pkt_auth\<close>, after the server has forced the last byte of both arrays to NUL.
\<close>

record pkt_auth =
  auth_username :: string
  auth_password :: string

definition get_pkt_auth :: "mem \<Rightarrow> pkt_auth" where
  "get_pkt_auth m =
     \<lparr>auth_username = cstr (mem_read m 4 255), auth_password = cstr (mem_read m 260 255)\<rparr>"

record if_info =
  dev :: string
  ipv4_pub :: string
  ipv4 :: string
  ipv4_netmask :: string
  ipv4_dgateway :: string
  ipv4_mtu :: u16

definition empty_if_info :: if_info where
  "empty_if_info = \<lparr>dev = [], ipv4_pub = [], ipv4 = [], ipv4_netmask = [], ipv4_dgateway = [],
     ipv4_mtu = 0\<rparr>"

text \<open>
  Storing a \<^verbatim>\<open>struct if_info\<close> at an offset: five 16-byte NUL-padded arrays and the MTU in
  host order.
\<close>

definition put_if_info :: "mem \<Rightarrow> nat \<Rightarrow> if_info \<Rightarrow> mem" where
  "put_if_info m off ifi =
     put_le16
       (mem_write m off
         (strncpy2_bytes (dev ifi) 16 @ strncpy2_bytes (ipv4_pub ifi) 16
          @ strncpy2_bytes (ipv4 ifi) 16 @ strncpy2_bytes (ipv4_netmask ifi) 16
          @ strncpy2_bytes (ipv4_dgateway ifi) 16))
       (off + 80) (ipv4_mtu ifi)"

definition get_if_info :: "mem \<Rightarrow> nat \<Rightarrow> if_info" where
  "get_if_info m off =
     \<lparr>dev = cstr (mem_read m off 16), ipv4_pub = cstr (mem_read m (off + 16) 16),
      ipv4 = cstr (mem_read m (off + 32) 16), ipv4_netmask = cstr (mem_read m (off + 48) 16),
      ipv4_dgateway = cstr (mem_read m (off + 64) 16),
      ipv4_mtu = push_bit 8 (ucast (m (off + 81))) OR ucast (m (off + 80))\<rparr>"

text \<open>The IPv4 header at the start of the tunnelled packet (\<^verbatim>\<open>linux/ip.h\<close>).\<close>

definition iphdr_version :: "mem \<Rightarrow> u8" where
  "iphdr_version m = drop_bit 4 (m 4)"

definition iphdr_daddr :: "mem \<Rightarrow> u32" where
  "iphdr_daddr m = get_be32 m 20"

section \<open>Preparing packets\<close>

definition srv_pprep :: "mem \<Rightarrow> u8 \<Rightarrow> u16 \<Rightarrow> u8 \<Rightarrow> mem \<times> nat" where
  "srv_pprep m type data_len pad_len =
     ((put_be16 (m(0 := type)) 2 data_len)(1 := pad_len), unat data_len + PKT_MIN_LEN)"

definition srv_pprep_handshake_reject :: "mem \<Rightarrow> u8 \<Rightarrow> string option \<Rightarrow> mem \<times> nat" where
  "srv_pprep_handshake_reject m reason msg =
     (let m1 = m(4 := reason);
          m2 = (case msg of None \<Rightarrow> mem_zero m1 5 511
                | Some s \<Rightarrow> mem_write m1 5 (strncpy2_bytes s 511))
      in srv_pprep m2 TSRV_PKT_HANDSHAKE_REJECT (word_of_nat SZ_HS_REJECT) 0)"

definition put_handshake :: "mem \<Rightarrow> mem" where
  "put_handshake m =
     (let m1 = mem_zero m 4 SZ_HANDSHAKE
      in mem_write m1 4 ([VERSION, PATCHLEVEL, SUBLEVEL] @ strncpy2_bytes EXTRAVERSION 29))"

definition srv_pprep_handshake :: "mem \<Rightarrow> mem \<times> nat" where
  "srv_pprep_handshake m =
     srv_pprep (put_handshake m) TSRV_PKT_HANDSHAKE (word_of_nat SZ_HANDSHAKE) 0"

definition srv_pprep_sync :: "mem \<Rightarrow> mem \<times> nat" where
  "srv_pprep_sync m = srv_pprep m TSRV_PKT_SYNC 0 0"

definition srv_pprep_reqsync :: "mem \<Rightarrow> mem \<times> nat" where
  "srv_pprep_reqsync m = srv_pprep m TSRV_PKT_REQSYNC 0 0"

definition cli_pprep :: "mem \<Rightarrow> u8 \<Rightarrow> u16 \<Rightarrow> u8 \<Rightarrow> mem \<times> nat" where
  "cli_pprep m type data_len pad_len =
     ((put_be16 (m(0 := type)) 2 data_len)(1 := pad_len), unat data_len + PKT_MIN_LEN)"

definition cli_pprep_handshake :: "mem \<Rightarrow> mem \<times> nat" where
  "cli_pprep_handshake m =
     cli_pprep (put_handshake m) TCLI_PKT_HANDSHAKE (word_of_nat SZ_HANDSHAKE) 0"

definition cli_pprep_auth :: "mem \<Rightarrow> string \<Rightarrow> string \<Rightarrow> mem \<times> nat" where
  "cli_pprep_auth m user pass =
     cli_pprep (mem_write (mem_write m 4 (strncpy2_bytes user 256)) 260 (strncpy2_bytes pass 256))
       TCLI_PKT_AUTH (word_of_nat SZ_AUTH) 0"

section \<open>Reading back what was prepared\<close>

lemma pprep_out [layout]: "4 \<le> i \<Longrightarrow> fst (srv_pprep m t n p) i = m i"
  by (simp add: srv_pprep_def)

lemma pprep_type [layout]: "pkt_type (fst (srv_pprep m t n p)) = t"
  by (simp add: srv_pprep_def pkt_type_def put_be16_def)

lemma pprep_pad_len [layout]: "pkt_pad_len (fst (srv_pprep m t n p)) = p"
  by (simp add: srv_pprep_def pkt_pad_len_def)

lemma pprep_dlen [layout]: "pkt_dlen (fst (srv_pprep m t n p)) = n"
  by (simp add: srv_pprep_def pkt_dlen_def)

lemma pprep_len [layout]: "snd (srv_pprep m t n p) = unat n + 4"
  by (simp add: srv_pprep_def)

lemma pprep_read [layout]: "4 \<le> off \<Longrightarrow> mem_read (fst (srv_pprep m t n p)) off k = mem_read m off k"
  by (rule nth_equalityI) (simp_all add: pprep_out)

lemma cli_pprep_eq: "cli_pprep = srv_pprep"
  by (rule ext)+ (simp add: cli_pprep_def srv_pprep_def)

lemma get_be16_cong: "m off = m' off \<Longrightarrow> m (Suc off) = m' (Suc off) \<Longrightarrow> get_be16 m off = get_be16 m' off"
  by (simp add: get_be16_def)

lemma mem_read_split: "mem_read m off (a + b) = mem_read m off a @ mem_read m (off + a) b"
  unfolding mem_read_def add.assoc [symmetric] by (subst upt_add_eq_append) simp_all

lemma mem_read_write_inner:
  assumes "k + n \<le> length bs"
  shows "mem_read (mem_write m off bs) (off + k) n = take n (drop k bs)"
  using assms by (intro nth_equalityI) auto

lemma strncpy2_bytes_last: "0 < n \<Longrightarrow> strncpy2_bytes s n ! (n - 1) = 0"
  by (simp add: strncpy2_bytes_def Let_def)

lemma takeWhile_append_stop: "(\<exists>x \<in> set xs. \<not> P x) \<Longrightarrow> takeWhile P (xs @ ys) = takeWhile P xs"
  by (induction xs) auto

lemma takeWhile_butlast: "xs \<noteq> [] \<Longrightarrow> \<not> P (last xs) \<Longrightarrow> takeWhile P (butlast xs) = takeWhile P xs"
  by (induction xs) auto

lemma cstr_butlast_strncpy2:
  "0 < n \<Longrightarrow> no_nul s \<Longrightarrow> cstr (take (n - 1) (strncpy2_bytes s n)) = strncpy2 s n"
proof -
  assume n: "0 < n" and s: "no_nul s"
  have "strncpy2_bytes s n \<noteq> []"
    using n length_strncpy2_bytes [of s n] by (auto simp del: length_strncpy2_bytes)
  moreover have "last (strncpy2_bytes s n) = 0"
    using n strncpy2_bytes_last [OF n, of s] calculation by (simp add: last_conv_nth)
  ultimately have "takeWhile (\<lambda>b. b \<noteq> 0) (take (n - 1) (strncpy2_bytes s n))
      = takeWhile (\<lambda>b. b \<noteq> 0) (strncpy2_bytes s n)"
    using takeWhile_butlast [of "strncpy2_bytes s n" "\<lambda>b. b \<noteq> 0"] by (simp add: butlast_conv_take)
  then show ?thesis using cstr_strncpy2_bytes [OF n s] by (simp add: cstr_def)
qed

lemma put_le16_out [simp]: "i \<noteq> off \<Longrightarrow> i \<noteq> off + 1 \<Longrightarrow> put_le16 m off v i = m i"
  by (simp add: put_le16_def)

lemma mem_read_put_le16 [simp]:
  "off' + 2 \<le> off \<or> off + n \<le> off' \<Longrightarrow> mem_read (put_le16 m off' v) off n = mem_read m off n"
  by (rule nth_equalityI) auto

section \<open>Round trips\<close>

text \<open>The header fields and the payload of a prepared packet.\<close>

lemmas pprep_simps = pprep_type pprep_pad_len pprep_dlen pprep_len pprep_read pprep_out

text \<open>
  Whatever the buffer held before, a client handshake packet is 100 bytes long, carries
  the handshake type and the length 96, and the version the receiver decodes from it is the
  sender's own; the server's handshake packet decodes to the same version.
\<close>

theorem handshake_roundtrip:
  "snd (cli_pprep_handshake m) = PKT_MIN_LEN + SZ_HANDSHAKE
   \<and> pkt_type (fst (cli_pprep_handshake m)) = TCLI_PKT_HANDSHAKE
   \<and> unat (pkt_dlen (fst (cli_pprep_handshake m))) = SZ_HANDSHAKE
   \<and> pkt_handshake_cur (fst (cli_pprep_handshake m))
       = \<lparr>ver = VERSION, patch_lvl = PATCHLEVEL, sub_lvl = SUBLEVEL, extra = EXTRAVERSION\<rparr>
   \<and> pkt_handshake_cur (fst (srv_pprep_handshake m))
       = pkt_handshake_cur (fst (cli_pprep_handshake m))
   \<and> snd (srv_pprep_handshake m) = snd (cli_pprep_handshake m)"
proof -
  define vs where "vs = [VERSION, PATCHLEVEL, SUBLEVEL] @ strncpy2_bytes EXTRAVERSION 29"
  have len: "length vs = 32" by (simp add: vs_def)
  have pm: "put_handshake m = mem_write (mem_zero m 4 96) 4 vs"
    by (simp add: put_handshake_def vs_def)
  have "mem_read (put_handshake m) (4 + 3) 28 = take 28 (drop 3 vs)"
    unfolding pm by (rule mem_read_write_inner) (simp add: len)
  then have ex: "cstr (mem_read (put_handshake m) 7 28) = EXTRAVERSION"
    using cstr_butlast_strncpy2 [of 29 EXTRAVERSION]
    by (simp add: vs_def EXTRAVERSION_def no_nul_def strncpy2_def)
  have b: "put_handshake m 4 = VERSION" "put_handshake m 5 = PATCHLEVEL" "put_handshake m 6 = SUBLEVEL"
    by (simp_all add: pm len) (simp_all add: vs_def)
  show ?thesis
    by (simp add: cli_pprep_handshake_def srv_pprep_handshake_def cli_pprep_eq pprep_simps
        pkt_handshake_cur_def ex b)
qed

text \<open>
  The credentials a client writes into an authentication packet are the ones the server
  reads out of it, cut at 255 characters: the packet is 516 bytes long, of type
  \<^verbatim>\<open>TCLI_PKT_AUTH\<close>, and both strings come back unchanged when they are short enough.
\<close>

theorem auth_packet_roundtrip:
  assumes "no_nul user" and "no_nul pass"
  shows "snd (cli_pprep_auth m user pass) = PKT_MIN_LEN + SZ_AUTH
    \<and> pkt_type (fst (cli_pprep_auth m user pass)) = TCLI_PKT_AUTH
    \<and> get_pkt_auth (fst (cli_pprep_auth m user pass))
        = \<lparr>auth_username = take 255 user, auth_password = take 255 pass\<rparr>"
proof -
  let ?m1 = "mem_write m 4 (strncpy2_bytes user 256)"
  let ?m2 = "mem_write ?m1 260 (strncpy2_bytes pass 256)"
  have "mem_read ?m2 4 255 = take 255 (strncpy2_bytes user 256)"
    using mem_read_write_inner [of 0 255 "strncpy2_bytes user 256" m 4] by simp
  moreover have "mem_read ?m2 260 255 = take 255 (strncpy2_bytes pass 256)"
    using mem_read_write_inner [of 0 255 "strncpy2_bytes pass 256" ?m1 260] by simp
  ultimately show ?thesis
    using assms cstr_butlast_strncpy2 [of 256 user] cstr_butlast_strncpy2 [of 256 pass]
    by (simp add: cli_pprep_auth_def cli_pprep_eq pprep_simps get_pkt_auth_def strncpy2_def)
qed

text \<open>The sample credentials of \<^verbatim>\<open>config/client.ini\<close>.\<close>

theorem auth_packet_roundtrip_witness:
  "get_pkt_auth (fst (cli_pprep_auth (\<lambda>_. 255) ''ammarfaizi2'' ''mypassword123''))
     = \<lparr>auth_username = ''ammarfaizi2'', auth_password = ''mypassword123''\<rparr>"
  using auth_packet_roundtrip [of "''ammarfaizi2''" "''mypassword123''" "\<lambda>_. 255"]
  by (simp add: no_nul_def)

text \<open>An interface description fits its slots when every string leaves room for the NUL.\<close>

definition if_info_fits :: "if_info \<Rightarrow> bool" where
  "if_info_fits ifi \<longleftrightarrow>
     (\<forall>s \<in> {dev ifi, ipv4_pub ifi, ipv4 ifi, ipv4_netmask ifi, ipv4_dgateway ifi}.
        no_nul s \<and> length s < 16)"

text \<open>
  The interface description the server stores in an authentication reply is what the
  client reads from it, field by field, for every description whose strings fit their
  16-byte arrays.
\<close>

theorem if_info_roundtrip:
  assumes "if_info_fits ifi"
  shows "get_if_info (put_if_info m off ifi) off = ifi"
proof -
  let ?f = "\<lambda>s. strncpy2_bytes s 16"
  define bs where "bs = ?f (dev ifi) @ ?f (ipv4_pub ifi) @ ?f (ipv4 ifi) @ ?f (ipv4_netmask ifi)
    @ ?f (ipv4_dgateway ifi)"
  have len: "length bs = 80" by (simp add: bs_def)
  have eq: "put_if_info m off ifi = put_le16 (mem_write m off bs) (off + 80) (ipv4_mtu ifi)"
    by (simp add: put_if_info_def bs_def)
  have rd: "mem_read (put_if_info m off ifi) (off + k) 16 = take 16 (drop k bs)" if "k + 16 \<le> 80" for k
    unfolding eq using that by (simp add: mem_read_write_inner len)
  have str: "cstr (strncpy2_bytes s 16) = s"
    if "s \<in> {dev ifi, ipv4_pub ifi, ipv4 ifi, ipv4_netmask ifi, ipv4_dgateway ifi}" for s
  proof -
    have "no_nul s" and "length s < 16" using assms that by (auto simp: if_info_fits_def)
    then show ?thesis by (simp add: strncpy2_fits)
  qed
  have mtu: "push_bit 8 (ucast (put_if_info m off ifi (off + 81)))
      OR ucast (put_if_info m off ifi (off + 80)) = ipv4_mtu ifi"
    by (simp add: eq put_le16_def u16_split)
  show ?thesis
    using rd [of 0] rd [of 16] rd [of 32] rd [of 48] rd [of 64] mtu
    by (simp add: get_if_info_def bs_def str)
qed

text \<open>The sample user of \<^verbatim>\<open>data/server/users\<close>.\<close>

theorem if_info_roundtrip_witness:
  "ipv4 (get_if_info (put_if_info (\<lambda>_. 9) 6
      \<lparr>dev = [], ipv4_pub = [], ipv4 = ''10.5.5.2'', ipv4_netmask = ''255.255.255.0'',
       ipv4_dgateway = ''10.5.5.1'', ipv4_mtu = 1470\<rparr>) 6) = ''10.5.5.2''"
  by (subst if_info_roundtrip) (simp_all add: if_info_fits_def no_nul_def)

end
