(* ===== verification/Route_Map.thy ===== *)
theory Route_Map
  imports Prelude
begin

text \<open>
  The table that maps a private IPv4 address to a session slot, from
  \<^verbatim>\<open>src/teavpn2/server/linux/udp.h\<close>.  It is a 256 by 256 array indexed by the two low
  bytes of the address; an entry is the slot index plus one, and 0 means unmapped.  So two
  addresses that agree in their low 16 bits share an entry.
\<close>

type_synonym ipv4_map_t = "u8 \<Rightarrow> u8 \<Rightarrow> u16"

definition addr_byte0 :: "u32 \<Rightarrow> u8" where
  "addr_byte0 addr = ucast (drop_bit 0 addr AND 0xff)"

definition addr_byte1 :: "u32 \<Rightarrow> u8" where
  "addr_byte1 addr = ucast (drop_bit 8 addr AND 0xff)"

definition upd2 :: "(u8 \<Rightarrow> u8 \<Rightarrow> 'a) \<Rightarrow> u8 \<Rightarrow> u8 \<Rightarrow> 'a \<Rightarrow> u8 \<Rightarrow> u8 \<Rightarrow> 'a" where
  "upd2 t i j v = t(i := (t i)(j := v))"

definition add_ipv4_route_map :: "ipv4_map_t \<Rightarrow> u32 \<Rightarrow> u16 \<Rightarrow> ipv4_map_t" where
  "add_ipv4_route_map t addr idx = upd2 t (addr_byte0 addr) (addr_byte1 addr) (idx + 1)"

definition del_ipv4_route_map :: "ipv4_map_t \<Rightarrow> u32 \<Rightarrow> ipv4_map_t" where
  "del_ipv4_route_map t addr = upd2 t (addr_byte0 addr) (addr_byte1 addr) 0"

definition get_ipv4_route_map :: "ipv4_map_t \<Rightarrow> u32 \<Rightarrow> int" where
  "get_ipv4_route_map t addr =
     (let ret = t (addr_byte0 addr) (addr_byte1 addr)
      in if ret = 0 then - ENOENT else uint ret - 1)"

section \<open>Contract\<close>

text \<open>The part of an address the table distinguishes.\<close>

definition route_key :: "u32 \<Rightarrow> u8 \<times> u8" where
  "route_key addr = (addr_byte0 addr, addr_byte1 addr)"

lemma upd2_apply [simp]: "upd2 t i j v a b = (if a = i \<and> b = j then v else t a b)"
  by (simp add: upd2_def)

locale route_table =
  fixes add :: "'t \<Rightarrow> u32 \<Rightarrow> u16 \<Rightarrow> 't"
    and del :: "'t \<Rightarrow> u32 \<Rightarrow> 't"
    and get :: "'t \<Rightarrow> u32 \<Rightarrow> int"
    and key :: "u32 \<Rightarrow> 'k"
  assumes get_add_same: "key a = key b \<Longrightarrow> i \<noteq> -1 \<Longrightarrow> get (add t a i) b = uint i"
    and get_del_same: "key a = key b \<Longrightarrow> get (del t a) b = - ENOENT"
    and get_add_other: "key a \<noteq> key b \<Longrightarrow> get (add t a i) b = get t b"
    and get_del_other: "key a \<noteq> key b \<Longrightarrow> get (del t a) b = get t b"
begin

lemmas get_simps = get_add_same get_del_same get_add_other get_del_other

lemma add_then_del: "i \<noteq> -1 \<Longrightarrow> get (del (add t a i) a) b = get (del t a) b"
  by (cases "key a = key b") (simp_all add: get_simps)

lemma get_add_cases:
  "i \<noteq> -1 \<Longrightarrow> get (add t a i) b = (if key a = key b then uint i else get t b)"
  by (simp add: get_simps)

lemma get_del_cases: "get (del t a) b = (if key a = key b then - ENOENT else get t b)"
  by (simp add: get_simps)

end

lemma uint_plus_1: "i + 1 \<noteq> (0 :: u16) \<Longrightarrow> uint (i + 1) = uint i + 1"
proof -
  assume nz: "i + 1 \<noteq> 0"
  have "unat i < 65536" using unsigned_less [of i, where 'a = nat] by simp
  moreover have "unat (i + 1) \<noteq> 0" using nz by (simp add: unsigned_eq_0_iff)
  then have "(unat i + 1) mod 65536 \<noteq> 0" by (simp add: unat_word_ariths)
  ultimately have "unat i + 1 < 65536" by (cases "unat i = 65535") auto
  then have "unat (i + 1) = unat i + 1" by (simp add: unat_word_ariths)
  then show ?thesis by (metis of_nat_1 of_nat_add of_nat_unat)
qed

lemma plus_1_eq_0: "i + 1 = (0 :: u16) \<longleftrightarrow> i = -1"
  by (simp add: add_eq_0_iff2)

interpretation rt: route_table add_ipv4_route_map del_ipv4_route_map get_ipv4_route_map route_key
  by unfold_locales
    (auto simp: add_ipv4_route_map_def del_ipv4_route_map_def get_ipv4_route_map_def route_key_def
      Let_def uint_plus_1 plus_1_eq_0)

lemma mask_8_u32: "(0xff :: u32) = mask 8"
  by (simp add: mask_eq_exp_minus_1)

lemma bit_addr_byte0: "bit (addr_byte0 a) n \<longleftrightarrow> n < 8 \<and> bit a n"
  unfolding addr_byte0_def mask_8_u32 by (auto simp: bit_simps)

lemma bit_addr_byte1: "bit (addr_byte1 a) n \<longleftrightarrow> n < 8 \<and> bit a (8 + n)"
  unfolding addr_byte1_def mask_8_u32 by (auto simp: bit_simps)

lemma route_key_low16: "route_key a = route_key b \<longleftrightarrow> take_bit 16 a = take_bit 16 b"
proof
  assume l: "route_key a = route_key b"
  have "bit a n = bit b n" if "n < 16" for n
  proof (cases "n < 8")
    case True
    have "bit (addr_byte0 a) n = bit (addr_byte0 b) n" using l by (simp add: route_key_def)
    then show ?thesis using True by (simp add: bit_addr_byte0)
  next
    case False
    have "bit (addr_byte1 a) (n - 8) = bit (addr_byte1 b) (n - 8)" using l by (simp add: route_key_def)
    moreover have "n - 8 < 8" using that by simp
    ultimately show ?thesis using False by (simp add: bit_addr_byte1)
  qed
  then show "take_bit 16 a = take_bit 16 b" by (auto simp: bit_eq_iff bit_simps)
next
  assume r: "take_bit 16 a = take_bit 16 b"
  have "bit a n = bit b n" if "n < 16" for n
    using arg_cong [OF r, of "\<lambda>w. bit w n"] that by (simp add: bit_simps)
  then show "route_key a = route_key b"
    by (auto simp: route_key_def bit_eq_iff bit_addr_byte0 bit_addr_byte1)
qed

text \<open>
  A lookup after an insertion finds the inserted slot exactly for the addresses that
  agree with the inserted one in their low 16 bits and is unchanged for all others; after a
  deletion those addresses are unmapped (\<^verbatim>\<open>-ENOENT\<close>) and all others unchanged.  The slot
  65535, for which the stored entry would wrap to the unmapped mark, is excluded; it cannot
  occur because there are at most 65535 slots.
\<close>

theorem route_map_lookup:
  assumes "idx \<noteq> 65535"
  shows "get_ipv4_route_map (add_ipv4_route_map t a idx) b
      = (if take_bit 16 a = take_bit 16 b then uint idx else get_ipv4_route_map t b)
    \<and> get_ipv4_route_map (del_ipv4_route_map t a) b
      = (if take_bit 16 a = take_bit 16 b then - ENOENT else get_ipv4_route_map t b)"
proof -
  have "(-1 :: u16) = 65535" by simp
  then have "idx \<noteq> -1" using assms by metis
  then show ?thesis
    by (simp add: rt.get_add_cases rt.get_del_cases route_key_low16)
qed

text \<open>An instance: two addresses of one subnet.\<close>

theorem route_map_lookup_witness:
  "get_ipv4_route_map (add_ipv4_route_map (\<lambda>_ _. 0) 0x0A050502 7) 0x0A050502 = 7"
  using route_map_lookup [of 7 "\<lambda>_ _. 0" "0x0A050502" "0x0A050502"] by simp

end
