(* ===== verification/Bt_Stack.thy ===== *)
theory Bt_Stack
  imports Prelude
begin

text \<open>
  The stack of free session slots, \<^verbatim>\<open>src/teavpn2/stack.h\<close>: an array that is filled from
  its high end downwards, with \<open>sp\<close> the index of the top and \<open>sp = max_sp\<close> when empty.
  The abstraction of a stack is the list of its elements, top first.  The locale states the
  contract a client of the stack relies on; \<open>bt\<close> interprets it on the functions of the file.
\<close>

section \<open>The stack\<close>

record bt_stack =
  sp :: u16
  max_sp :: u16
  arr :: "u16 list"

definition bt_stack_pop :: "bt_stack \<Rightarrow> int \<times> bt_stack" where
  "bt_stack_pop stk =
     (if sp stk = max_sp stk then (-1, stk)
      else (uint (arr stk ! unat (sp stk)), stk\<lparr>sp := sp stk + 1\<rparr>))"

definition bt_stack_push :: "bt_stack \<Rightarrow> u16 \<Rightarrow> int \<times> bt_stack" where
  "bt_stack_push stk n =
     (if sp stk = 0 then (-1, stk)
      else (uint n, stk\<lparr>arr := (arr stk)[unat (sp stk - 1) := n], sp := sp stk - 1\<rparr>))"

text \<open>
  \<^verbatim>\<open>calloc_wrp\<close> of the array either fails (\<open>alloc_ok\<close> is false, NULL is returned) or gives
  \<open>capacity\<close> zero entries; the stack pointer itself is never NULL at the only call.
\<close>

definition bt_stack_init :: "bool \<Rightarrow> u16 \<Rightarrow> bt_stack option" where
  "bt_stack_init alloc_ok capacity =
     (if \<not> alloc_ok then None
      else Some \<lparr>sp = capacity, max_sp = capacity, arr = replicate (unat capacity) 0\<rparr>)"

text \<open>
  The self test of debug builds.  Each loop is a function of the remaining indices; the
  result is whether every assertion held, and the stack the loop leaves.
\<close>

fun bt_test_pops :: "int list \<Rightarrow> bt_stack \<Rightarrow> bool \<times> bt_stack" where
  "bt_test_pops [] stk = (True, stk)"
| "bt_test_pops (e # es) stk =
     (case bt_stack_pop stk of (r, stk') \<Rightarrow>
        (case bt_test_pops es stk' of (ok, stk'') \<Rightarrow> (r = e \<and> ok, stk'')))"

fun bt_test_pushes :: "(u16 \<times> int) list \<Rightarrow> bt_stack \<Rightarrow> bool \<times> bt_stack" where
  "bt_test_pushes [] stk = (True, stk)"
| "bt_test_pushes ((v, e) # es) stk =
     (case bt_stack_push stk v of (r, stk') \<Rightarrow>
        (case bt_test_pushes es stk' of (ok, stk'') \<Rightarrow> (r = e \<and> ok, stk'')))"

definition bt_stack_test :: "bt_stack \<Rightarrow> bool \<times> bt_stack" where
  "bt_stack_test stk =
     (let capacity = unat (max_sp stk);
          idx = map word_of_nat [0..<capacity];
          (ok1, s1) = bt_test_pops (replicate capacity (-1)) stk;
          (ok2, s2) = bt_test_pushes (map (\<lambda>i. (i, uint i)) idx) s1;
          (ok3, s3) = bt_test_pushes (map (\<lambda>i. (i, -1)) idx) s2;
          (ok4, s4) = bt_test_pops (rev (map uint idx)) s3;
          (ok5, s5) = bt_test_pops (replicate capacity (-1)) s4
      in (0 < capacity \<and> ok1 \<and> ok2 \<and> ok3 \<and> ok4 \<and> ok5, s5))"

section \<open>Contract\<close>

definition stk_ok :: "bt_stack \<Rightarrow> bool" where
  "stk_ok stk \<longleftrightarrow> sp stk \<le> max_sp stk \<and> length (arr stk) = unat (max_sp stk)"

definition stk_list :: "bt_stack \<Rightarrow> u16 list" where
  "stk_list stk = drop (unat (sp stk)) (arr stk)"

locale lifo_stack =
  fixes pop :: "'s \<Rightarrow> int \<times> 's"
    and push :: "'s \<Rightarrow> u16 \<Rightarrow> int \<times> 's"
    and contents :: "'s \<Rightarrow> u16 list"
    and capacity :: "'s \<Rightarrow> nat"
    and ok :: "'s \<Rightarrow> bool"
  assumes pop_nil: "ok s \<Longrightarrow> contents s = [] \<Longrightarrow> pop s = (-1, s)"
    and pop_cons: "ok s \<Longrightarrow> contents s = x # xs \<Longrightarrow>
      \<exists>s'. pop s = (uint x, s') \<and> ok s' \<and> contents s' = xs \<and> capacity s' = capacity s"
    and push_full: "ok s \<Longrightarrow> length (contents s) = capacity s \<Longrightarrow> push s x = (-1, s)"
    and push_room: "ok s \<Longrightarrow> length (contents s) \<noteq> capacity s \<Longrightarrow>
      \<exists>s'. push s x = (uint x, s') \<and> ok s' \<and> contents s' = x # contents s \<and> capacity s' = capacity s"
    and contents_le: "ok s \<Longrightarrow> length (contents s) \<le> capacity s"
begin

lemma pop_empty_iff: "ok s \<Longrightarrow> fst (pop s) = -1 \<longleftrightarrow> contents s = []"
proof (cases "contents s")
  case (Cons x xs)
  assume "ok s"
  with Cons pop_cons [of s x xs] obtain s' where "pop s = (uint x, s')" by auto
  moreover have "uint x \<noteq> -1" using unsigned_greater_eq [of x, where 'a = int] by linarith
  ultimately show ?thesis using Cons by simp
qed (simp add: pop_nil)

lemma ok_pop: "ok s \<Longrightarrow> ok (snd (pop s))"
  using pop_nil [of s] pop_cons [of s] by (cases "contents s") fastforce+

lemma ok_push: "ok s \<Longrightarrow> ok (snd (push s x))"
  using push_full [of s x] push_room [of s x] by fastforce

lemma push_fails_iff: "ok s \<Longrightarrow> fst (push s x) = -1 \<longleftrightarrow> length (contents s) = capacity s"
proof (cases "length (contents s) = capacity s")
  case False
  assume "ok s"
  with False push_room [of s x] obtain s' where "push s x = (uint x, s')" by auto
  moreover have "uint x \<noteq> -1" using unsigned_greater_eq [of x, where 'a = int] by linarith
  ultimately show ?thesis using False by simp
qed (simp add: push_full)

lemma pop_push:
  assumes "ok s" and "length (contents s) \<noteq> capacity s"
  shows "fst (pop (snd (push s x))) = uint x
    \<and> contents (snd (pop (snd (push s x)))) = contents s"
proof -
  from push_room [OF assms, of x] obtain s'
    where s': "push s x = (uint x, s')" "ok s'" "contents s' = x # contents s" by auto
  from pop_cons [OF s'(2,3)] s'(1) show ?thesis by auto
qed

end

lemma stk_ok_word: "stk_ok stk \<Longrightarrow> unat (sp stk) \<le> length (arr stk)"
  by (simp add: stk_ok_def word_le_nat_alt)

lemma stk_pop_cons:
  assumes ok: "stk_ok s" and c: "stk_list s = x # xs"
  shows "\<exists>s'. bt_stack_pop s = (uint x, s') \<and> stk_ok s' \<and> stk_list s' = xs
    \<and> unat (max_sp s') = unat (max_sp s)"
proof -
  have lt: "unat (sp s) < length (arr s)"
    using c by (metis drop_all list.distinct(1) not_le stk_list_def)
  then have ne: "sp s \<noteq> max_sp s" using ok by (auto simp: stk_ok_def)
  have x: "x = arr s ! unat (sp s)" and xs: "xs = drop (Suc (unat (sp s))) (arr s)"
    using c lt by (auto simp: stk_list_def Cons_nth_drop_Suc [symmetric])
  have u: "unat (sp s + 1) = Suc (unat (sp s))"
    using lt ok unsigned_less [of "max_sp s", where 'a = nat]
    by (auto simp: stk_ok_def unat_word_ariths)
  show ?thesis
    using ne lt ok u by (auto simp: bt_stack_pop_def stk_ok_def stk_list_def x xs word_le_nat_alt)
qed

lemma stk_push_room:
  assumes ok: "stk_ok s" and r: "length (stk_list s) \<noteq> unat (max_sp s)"
  shows "\<exists>s'. bt_stack_push s x = (uint x, s') \<and> stk_ok s' \<and> stk_list s' = x # stk_list s
    \<and> unat (max_sp s') = unat (max_sp s)"
proof -
  have nz: "sp s \<noteq> 0" using r ok by (auto simp: stk_list_def stk_ok_def)
  then have p: "0 < unat (sp s)" by (simp add: unat_gt_0)
  then have u: "unat (sp s - 1) = unat (sp s) - 1"
    by (simp add: unat_sub word_le_nat_alt)
  have le: "unat (sp s) \<le> length (arr s)" using ok by (rule stk_ok_word)
  have "drop (unat (sp s) - 1) ((arr s)[unat (sp s) - 1 := x]) = x # drop (unat (sp s)) (arr s)"
    using p le by (subst Cons_nth_drop_Suc [symmetric]) auto
  then show ?thesis
    using nz ok u p by (auto simp: bt_stack_push_def stk_ok_def stk_list_def word_le_nat_alt)
qed

text \<open>Pushing back what was just popped restores the stack exactly.\<close>

lemma bt_pop_push_back:
  assumes "stk_ok s" and "bt_stack_pop s = (uint ix, s')" and "stk_list s = ix # xs"
  shows "snd (bt_stack_push s' ix) = s"
proof -
  have ne: "sp s \<noteq> max_sp s"
    using assms(1,3) by (auto simp: stk_list_def stk_ok_def)
  then have s': "s' = s\<lparr>sp := sp s + 1\<rparr>" using assms(2) by (simp add: bt_stack_pop_def)
  have lt: "unat (sp s) < length (arr s)"
    using assms(3) by (metis drop_all list.distinct(1) not_le stk_list_def)
  then have "ix = arr s ! unat (sp s)"
    using assms(3) by (metis stk_list_def hd_drop_conv_nth list.sel(1))
  moreover have "sp s + 1 \<noteq> 0"
    using lt assms(1) unsigned_less [of "max_sp s", where 'a = nat]
    by (auto simp: stk_ok_def unat_word_ariths word_unat_eq_iff)
  ultimately show ?thesis by (simp add: bt_stack_push_def s')
qed

interpretation bt: lifo_stack bt_stack_pop bt_stack_push stk_list "\<lambda>s. unat (max_sp s)" stk_ok
proof
  fix s x xs assume ok: "stk_ok s"
  show "bt_stack_pop s = (-1, s)" if "stk_list s = []"
    using that ok by (auto simp: stk_list_def bt_stack_pop_def stk_ok_def word_le_nat_alt
        intro: word_unat_eq_iff [THEN iffD2])
  show "bt_stack_push s x = (-1, s)" if "length (stk_list s) = unat (max_sp s)"
  proof -
    have "unat (sp s) = 0" using that ok stk_ok_word [OF ok]
      by (auto simp: stk_list_def stk_ok_def)
    then show ?thesis by (simp add: bt_stack_push_def unsigned_eq_0_iff)
  qed
  show "length (stk_list s) \<le> unat (max_sp s)"
    using ok by (simp add: stk_list_def stk_ok_def)
qed (fact stk_pop_cons stk_push_room)+


section \<open>Properties\<close>

lemma bt_init_ok:
  "bt_stack_init ok n = Some stk \<Longrightarrow> stk_ok stk \<and> stk_list stk = [] \<and> max_sp stk = n"
  by (auto simp: bt_stack_init_def stk_ok_def stk_list_def split: if_splits)

lemma bt_test_pops_empty:
  "stk_ok s \<Longrightarrow> stk_list s = [] \<Longrightarrow> bt_test_pops (replicate k (-1)) s = (True, s)"
  by (induction k) (simp_all add: bt.pop_nil)

lemma bt_test_pops_all:
  "stk_ok s \<Longrightarrow> stk_list s = xs \<Longrightarrow>
   \<exists>s'. bt_test_pops (map uint xs) s = (True, s') \<and> stk_ok s' \<and> stk_list s' = []
     \<and> unat (max_sp s') = unat (max_sp s)"
proof (induction xs arbitrary: s)
  case (Cons x xs)
  obtain s1 where s1: "bt_stack_pop s = (uint x, s1)" "stk_ok s1" "stk_list s1 = xs"
      "unat (max_sp s1) = unat (max_sp s)"
    using bt.pop_cons [OF Cons.prems] by auto
  from Cons.IH [OF s1(2,3)] s1 show ?case by auto
qed simp

lemma bt_test_pushes_room:
  "stk_ok s \<Longrightarrow> length xs + length (stk_list s) \<le> unat (max_sp s) \<Longrightarrow>
   \<exists>s'. bt_test_pushes (map (\<lambda>i. (i, uint i)) xs) s = (True, s') \<and> stk_ok s'
     \<and> stk_list s' = rev xs @ stk_list s \<and> unat (max_sp s') = unat (max_sp s)"
proof (induction xs arbitrary: s)
  case (Cons x xs)
  have "length (stk_list s) \<noteq> unat (max_sp s)" using Cons.prems(2) by auto
  then obtain s1 where s1: "bt_stack_push s x = (uint x, s1)" "stk_ok s1"
      "stk_list s1 = x # stk_list s" "unat (max_sp s1) = unat (max_sp s)"
    using bt.push_room [OF Cons.prems(1)] by auto
  have "length xs + length (stk_list s1) \<le> unat (max_sp s1)"
    using Cons.prems(2) s1 by simp
  from Cons.IH [OF s1(2) this] s1 show ?case by auto
qed simp

lemma bt_test_pushes_full:
  "stk_ok s \<Longrightarrow> length (stk_list s) = unat (max_sp s) \<Longrightarrow>
   bt_test_pushes (map (\<lambda>i. (i, -1)) xs) s = (True, s)"
  by (induction xs) (simp_all add: bt.push_full)

text \<open>
  Last in, first out.  On a well-formed stack that is not full, a push succeeds and
  returns the value pushed, and the next pop returns that value and restores the contents; a
  push fails exactly on a full stack and a pop exactly on an empty one, both with \<open>-1\<close> and
  without changing the stack.
\<close>

theorem bt_stack_lifo:
  assumes "stk_ok stk"
  shows "(length (stk_list stk) \<noteq> unat (max_sp stk) \<longrightarrow>
      fst (bt_stack_push stk n) = uint n
      \<and> stk_list (snd (bt_stack_push stk n)) = n # stk_list stk
      \<and> fst (bt_stack_pop (snd (bt_stack_push stk n))) = uint n
      \<and> stk_list (snd (bt_stack_pop (snd (bt_stack_push stk n)))) = stk_list stk)
    \<and> (length (stk_list stk) = unat (max_sp stk) \<longrightarrow> bt_stack_push stk n = (-1, stk))
    \<and> (stk_list stk = [] \<longrightarrow> bt_stack_pop stk = (-1, stk))
    \<and> (fst (bt_stack_pop stk) = -1 \<longleftrightarrow> stk_list stk = [])"
  using bt.pop_push [OF assms, of n] bt.push_room [OF assms, of n] bt.push_full [OF assms, of n]
    bt.pop_nil [OF assms] bt.pop_empty_iff [OF assms]
  by auto

text \<open>An instance: a stack of capacity 2 holding one value.\<close>

theorem bt_stack_lifo_witness:
  "stk_list (snd (bt_stack_push \<lparr>sp = 1, max_sp = 2, arr = [0, 7]\<rparr> 9)) = [9, 7]"
proof -
  have "stk_ok \<lparr>sp = 1, max_sp = 2, arr = [0, 7]\<rparr>" by (simp add: stk_ok_def)
  from bt_stack_lifo [OF this, of 9] show ?thesis by (simp add: stk_list_def)
qed

text \<open>
  The self test of debug builds never trips.  On a stack as \<open>bt_stack_init\<close> leaves it,
  with a capacity that is not zero, all five loops of \<open>bt_stack_test\<close> find every assertion
  true and the stack is empty and well formed again.
\<close>

theorem bt_stack_test_passes:
  assumes "bt_stack_init True n = Some stk" and "n \<noteq> 0"
  shows "fst (bt_stack_test stk) \<and> stk_ok (snd (bt_stack_test stk))
    \<and> stk_list (snd (bt_stack_test stk)) = []"
proof -
  define idx :: "u16 list" where "idx = map word_of_nat [0..<unat n]"
  have len: "length idx = unat n" by (simp add: idx_def)
  have init: "stk_ok stk" "stk_list stk = []" "max_sp stk = n"
    using bt_init_ok [OF assms(1)] by auto
  have cap: "0 < unat n" using assms(2) by (simp add: unat_gt_0)
  obtain s2 where s2: "bt_test_pushes (map (\<lambda>i. (i, uint i)) idx) stk = (True, s2)" "stk_ok s2"
      "stk_list s2 = rev idx" "unat (max_sp s2) = unat n"
    using bt_test_pushes_room [OF init(1), of idx] init len by auto
  have s3: "bt_test_pushes (map (\<lambda>i. (i, -1)) idx) s2 = (True, s2)"
    using bt_test_pushes_full [OF s2(2)] s2(3,4) len by simp
  obtain s4 where s4: "bt_test_pops (map uint (rev idx)) s2 = (True, s4)" "stk_ok s4"
      "stk_list s4 = []"
    using bt_test_pops_all [OF s2(2,3)] by auto
  have "bt_stack_test stk = (True, s4)"
    unfolding bt_stack_test_def init(3) Let_def idx_def [symmetric]
    using cap bt_test_pops_empty [OF init(1,2)] bt_test_pops_empty [OF s4(2,3)] s2(1) s3 s4(1)
    by (simp add: rev_map)
  with s4(2,3) show ?thesis by simp
qed

text \<open>A stack of capacity 3.\<close>

theorem bt_stack_test_passes_witness:
  "fst (bt_stack_test \<lparr>sp = 3, max_sp = 3, arr = replicate 3 0\<rparr>)"
proof -
  have "bt_stack_init True 3 = Some \<lparr>sp = 3, max_sp = 3, arr = replicate 3 0\<rparr>"
    by (simp add: bt_stack_init_def)
  from bt_stack_test_passes [OF this] show ?thesis by simp
qed

end
