(* ===== verification/Libc.thy ===== *)
theory Libc
  imports Prelude
begin

text \<open>
  The functions of the C library whose results the sources compute with: character classes,
  number parsing (\<^verbatim>\<open>strtoul\<close>, \<^verbatim>\<open>atoi\<close>), decimal printing, byte order and the
  text forms of IPv4 addresses (\<^verbatim>\<open>inet_addr\<close>, \<^verbatim>\<open>inet_pton\<close>, \<^verbatim>\<open>inet_ntop\<close>), as glibc
  implements them.  Address words are as a little-endian machine loads them from memory in
  network order: the first octet is the low byte.
\<close>

section \<open>Characters and numbers\<close>

definition isspace :: "char \<Rightarrow> bool" where
  "isspace c \<longleftrightarrow> (let n = (of_char c :: nat) in n = 32 \<or> (9 \<le> n \<and> n \<le> 13))"

definition isdigit :: "char \<Rightarrow> bool" where
  "isdigit c \<longleftrightarrow> (let n = (of_char c :: nat) in 48 \<le> n \<and> n \<le> 57)"

definition tolower :: "char \<Rightarrow> char" where
  "tolower c = (let n = (of_char c :: nat) in if 65 \<le> n \<and> n \<le> 90 then char_of (n + 32) else c)"

definition digit_val :: "char \<Rightarrow> nat option" where
  "digit_val c =
     (let n = (of_char c :: nat) in
      if 48 \<le> n \<and> n \<le> 57 then Some (n - 48)
      else if 97 \<le> n \<and> n \<le> 102 then Some (n - 87)
      else if 65 \<le> n \<and> n \<le> 70 then Some (n - 55) else None)"

definition base_digits :: "nat \<Rightarrow> string \<Rightarrow> string" where
  "base_digits b s =
     takeWhile (\<lambda>c. case digit_val c of None \<Rightarrow> False | Some d \<Rightarrow> d < b) s"

definition base_value :: "nat \<Rightarrow> string \<Rightarrow> nat" where
  "base_value b ds =
     foldl (\<lambda>a c. b * a + (case digit_val c of None \<Rightarrow> 0 | Some d \<Rightarrow> d)) 0 ds"

definition parse_sign :: "string \<Rightarrow> bool \<times> string" where
  "parse_sign s =
     (case s of [] \<Rightarrow> (False, [])
      | c # r \<Rightarrow> if c = CHR ''-'' then (True, r) else if c = CHR ''+'' then (False, r) else (False, s))"

text \<open>\<^verbatim>\<open>strtoul(s, NULL, 10)\<close> and \<^verbatim>\<open>strtol(s, NULL, 10)\<close>, saturating as in glibc.\<close>

definition strtoul10 :: "string \<Rightarrow> u64" where
  "strtoul10 s =
     (let (neg, r) = parse_sign (dropWhile isspace s);
          n = base_value 10 (base_digits 10 r)
      in if 2 ^ 64 \<le> n then - 1 else if neg then - word_of_nat n else word_of_nat n)"

definition strtol10 :: "string \<Rightarrow> int" where
  "strtol10 s =
     (let (neg, r) = parse_sign (dropWhile isspace s);
          n = int (base_value 10 (base_digits 10 r))
      in if neg then max (- (2 ^ 63)) (- n) else min (2 ^ 63 - 1) n)"

definition atoi :: "string \<Rightarrow> int" where
  "atoi s = sint (word_of_int (strtol10 s) :: 32 word)"

fun dec_string :: "nat \<Rightarrow> string" where
  "dec_string n =
     (if n < 10 then [char_of (48 + n)] else dec_string (n div 10) @ [char_of (48 + n mod 10)])"

declare dec_string.simps [simp del]

section \<open>Byte order and IPv4 addresses\<close>

definition bswap16 :: "u16 \<Rightarrow> u16" where
  "bswap16 v = push_bit 8 v OR drop_bit 8 v"

definition bswap32 :: "u32 \<Rightarrow> u32" where
  "bswap32 v =
     push_bit 24 v OR (push_bit 8 v AND 0x00ff0000) OR (drop_bit 8 v AND 0x0000ff00)
     OR drop_bit 24 v"

abbreviation "ntohs \<equiv> bswap16"
abbreviation "ntohl \<equiv> bswap32"
abbreviation "htonl \<equiv> bswap32"
abbreviation "htons \<equiv> bswap16"

definition INADDR_NONE :: u32 where "INADDR_NONE = 0xffffffff"

definition octet :: "nat \<Rightarrow> u32 \<Rightarrow> nat" where
  "octet k a = unat a div 256 ^ k mod 256"

definition inet_ntop :: "u32 \<Rightarrow> string" where
  "inet_ntop a =
     dec_string (octet 0 a) @ ''.'' @ dec_string (octet 1 a) @ ''.'' @ dec_string (octet 2 a)
     @ ''.'' @ dec_string (octet 3 a)"

fun split_on :: "char \<Rightarrow> string \<Rightarrow> string list" where
  "split_on d [] = [[]]"
| "split_on d (c # s) =
     (if c = d then [] # split_on d s
      else case split_on d s of [] \<Rightarrow> [[c]] | p # ps \<Rightarrow> (c # p) # ps)"

definition pton_octet :: "string \<Rightarrow> nat option" where
  "pton_octet p =
     (if p \<noteq> [] \<and> list_all isdigit p \<and> (hd p = CHR ''0'' \<longrightarrow> length p = 1)
        \<and> base_value 10 p \<le> 255
      then Some (base_value 10 p) else None)"

definition inet_pton :: "string \<Rightarrow> u32 option" where
  "inet_pton s =
     (case map pton_octet (split_on (CHR ''.'') s) of
        [Some a, Some b, Some c, Some d] \<Rightarrow>
          Some (word_of_nat (a + 256 * b + 65536 * c + 16777216 * d))
      | _ \<Rightarrow> None)"

text \<open>
  \<^verbatim>\<open>strtoul(s, &end, 0)\<close> on text that starts with a digit: hexadecimal, octal or decimal.
\<close>

definition parse_num0 :: "string \<Rightarrow> (nat \<times> string) option" where
  "parse_num0 s =
     (case s of [] \<Rightarrow> None
      | c # r \<Rightarrow>
          if \<not> isdigit c then None
          else if c = CHR ''0'' \<and> r \<noteq> [] \<and> tolower (hd r) = CHR ''x'' \<and> base_digits 16 (tl r) \<noteq> []
            then Some (base_value 16 (base_digits 16 (tl r)),
                       drop (length (base_digits 16 (tl r))) (tl r))
          else if c = CHR ''0''
            then Some (base_value 8 (base_digits 8 s), drop (length (base_digits 8 s)) s)
          else Some (base_value 10 (base_digits 10 s), drop (length (base_digits 10 s)) s))"

fun aton_parts :: "nat \<Rightarrow> string \<Rightarrow> nat list option" where
  "aton_parts k s =
     (case parse_num0 s of None \<Rightarrow> None
      | Some (v, r) \<Rightarrow>
          if 2 ^ 32 \<le> v then None
          else if r \<noteq> [] \<and> hd r = CHR ''.'' then
            (if k = 0 \<or> 255 < v then None else map_option ((#) v) (aton_parts (k - 1) (tl r)))
          else if r = [] \<or> isspace (hd r) then Some [v] else None)"

declare aton_parts.simps [simp del]

text \<open>The host-order value of the parts; the last part fills all remaining bytes.\<close>

definition aton_value :: "nat list \<Rightarrow> nat option" where
  "aton_value ps =
     (case ps of
        [a] \<Rightarrow> Some a
      | [a, b] \<Rightarrow> if b < 2 ^ 24 then Some (a * 2 ^ 24 + b) else None
      | [a, b, c] \<Rightarrow> if c < 2 ^ 16 then Some (a * 2 ^ 24 + b * 2 ^ 16 + c) else None
      | [a, b, c, d] \<Rightarrow> if d < 2 ^ 8 then Some (a * 2 ^ 24 + b * 2 ^ 16 + c * 2 ^ 8 + d) else None
      | _ \<Rightarrow> None)"

definition inet_addr :: "string \<Rightarrow> u32" where
  "inet_addr s =
     (case aton_parts 3 s of None \<Rightarrow> INADDR_NONE
      | Some ps \<Rightarrow> (case aton_value ps of None \<Rightarrow> INADDR_NONE
                    | Some v \<Rightarrow> htonl (word_of_nat v)))"

lemma bit_bswap32:
  assumes "n < 32"
  shows "bit (bswap32 v) n = bit v (if n < 8 then n + 24 else if n < 16 then n + 8
    else if n < 24 then n - 8 else n - 24)"
proof -
  have m: "(0x00ff0000 :: u32) = push_bit 16 (mask 8)" "(0x0000ff00 :: u32) = push_bit 8 (mask 8)"
    by (simp_all add: mask_eq_exp_minus_1)
  have l: "\<not> bit v k" if "32 \<le> k" for k using that bit_imp_le_length [of v k] by auto
  have b: "bit (bswap32 v) n \<longleftrightarrow> (24 \<le> n \<and> bit v (n - 24)) \<or> (8 \<le> n \<and> bit v (n - 8) \<and> 16 \<le> n \<and> n - 16 < 8)
      \<or> (bit v (8 + n) \<and> 8 \<le> n \<and> n - 8 < 8) \<or> bit v (24 + n)"
    unfolding bswap32_def m using assms by (simp add: bit_simps) auto
  show ?thesis unfolding b using l [of "24 + n"] assms by (auto simp: add.commute)
qed

lemma bswap32_bswap32 [simp]: "bswap32 (bswap32 v) = v"
proof (rule bit_word_eqI)
  fix n assume "n < LENGTH(32)"
  then have n: "n < 32" by simp
  let ?m = "if n < 8 then n + 24 else if n < 16 then n + 8 else if n < 24 then n - 8 else n - 24"
  have "?m < 32" using n by auto
  then show "bit (bswap32 (bswap32 v)) n = bit v n"
    using n by (simp only: bit_bswap32) (auto intro: arg_cong [of _ _ "bit v"])
qed

lemma bswap16_bswap16 [simp]: "bswap16 (bswap16 v) = v"
  by (rule bit_word_eqI) (auto simp: bswap16_def bit_simps)

text \<open>Decimal printing and parsing.\<close>

lemma digit_val_dec: "d < 10 \<Longrightarrow> digit_val (char_of (48 + d)) = Some d"
  by (simp add: digit_val_def)

lemma dec_string_digits:
  "list_all (\<lambda>c. \<exists>d<10::nat. c = char_of (48 + d)) (dec_string n) \<and> dec_string n \<noteq> []"
proof (induction n rule: dec_string.induct)
  case (1 n)
  show ?case
  proof (cases "n < 10")
    case True
    then show ?thesis by (subst dec_string.simps, subst (2) dec_string.simps) auto
  next
    case False
    have "\<exists>d<10::nat. (char_of (48 + n mod 10) :: char) = char_of (48 + d)"
      by (rule exI [of _ "n mod 10"]) simp
    with 1 False show ?thesis
      by (simp add: dec_string.simps [of n] del: char_of_eq_iff char_of_take_bit_eq)
  qed
qed

lemma base_value_snoc:
  "base_value b (ds @ [c]) = b * base_value b ds + (case digit_val c of None \<Rightarrow> 0 | Some d \<Rightarrow> d)"
  by (simp add: base_value_def)

lemma base_value_dec_string [simp]: "base_value 10 (dec_string n) = n"
proof (induction n rule: dec_string.induct)
  case (1 n)
  show ?case
  proof (cases "n < 10")
    case True
    then show ?thesis by (simp add: dec_string.simps [of n] base_value_def digit_val_dec)
  next
    case False
    then show ?thesis using 1 by (simp add: dec_string.simps [of n] base_value_snoc digit_val_dec)
  qed
qed

lemma base_digits_dec_string [simp]: "base_digits 10 (dec_string n) = dec_string n"
proof -
  have "(case digit_val c of None \<Rightarrow> False | Some d \<Rightarrow> d < 10)" if "c \<in> set (dec_string n)" for c
  proof -
    have "\<forall>c \<in> set (dec_string n). \<exists>d<10::nat. c = char_of (48 + d)"
      using dec_string_digits [of n] unfolding list_all_iff by (rule conjunct1)
    from bspec [OF this that] obtain d :: nat where "d < 10" "c = char_of (48 + d)"
      by (elim exE conjE)
    then show ?thesis by (simp add: digit_val_dec)
  qed
  then show ?thesis by (simp add: base_digits_def takeWhile_eq_all_conv)
qed

lemma dec_string_hd:
  obtains d :: nat and ds where "d < 10" "dec_string n = char_of (48 + d) # ds"
  using dec_string_digits [of n] by (cases "dec_string n") auto

lemma dec_digit_class:
  assumes "d < (10 :: nat)"
  shows "\<not> isspace (char_of (48 + d))" "isdigit (char_of (48 + d))"
    "char_of (48 + d) \<noteq> CHR ''-''" "char_of (48 + d) \<noteq> CHR ''+''"
proof -
  have o: "of_char (char_of (48 + d) :: char) = 48 + d" using assms by simp
  show "\<not> isspace (char_of (48 + d))" "isdigit (char_of (48 + d))"
    using assms by (simp_all add: isspace_def isdigit_def)
  show "char_of (48 + d) \<noteq> CHR ''-''"
  proof
    assume "char_of (48 + d) = CHR ''-''"
    with o have "of_char (CHR ''-'') = 48 + d" by simp
    then show False by simp
  qed
  show "char_of (48 + d) \<noteq> CHR ''+''"
  proof
    assume "char_of (48 + d) = CHR ''+''"
    with o have "of_char (CHR ''+'') = 48 + d" by simp
    then show False by simp
  qed
qed

lemma dec_string_isdigit: "c \<in> set (dec_string n) \<Longrightarrow> isdigit c"
  using dec_string_digits [of n] dec_digit_class(2) by (auto simp: list_all_iff)

lemma length_dec_string: "n < 10 ^ k \<Longrightarrow> 0 < k \<Longrightarrow> length (dec_string n) \<le> k"
proof (induction k arbitrary: n)
  case (Suc k)
  show ?case
  proof (cases "n < 10")
    case False
    then have "0 < k" using Suc.prems by (cases k) auto
    moreover have "n div 10 < 10 ^ k" using Suc.prems(1) by (simp add: less_mult_imp_div_less mult.commute)
    ultimately show ?thesis using Suc.IH [of "n div 10"] False by (subst dec_string.simps) simp
  qed (simp add: dec_string.simps)
qed simp

lemma strtoul10_dec_string: "n < 2 ^ 64 \<Longrightarrow> strtoul10 (dec_string n) = word_of_nat n"
proof -
  assume n: "n < 2 ^ 64"
  obtain d :: nat and ds where d: "d < 10" "dec_string n = char_of (48 + d) # ds" by (rule dec_string_hd)
  then have "dropWhile isspace (dec_string n) = dec_string n" by (simp add: dec_digit_class(1))
  moreover have "parse_sign (dec_string n) = (False, dec_string n)"
    using d by (simp add: parse_sign_def dec_digit_class)
  ultimately show ?thesis using n by (simp add: strtoul10_def)
qed

text \<open>Evaluation of closed terms.\<close>

lemmas libc_eval = isspace_def isdigit_def tolower_def digit_val_def base_digits_def base_value_def
  parse_sign_def strtoul10_def strtol10_def atoi_def dec_string.simps octet_def inet_ntop_def
  pton_octet_def inet_pton_def parse_num0_def aton_parts.simps aton_value_def inet_addr_def
  INADDR_NONE_def bswap16_def bswap32_def char_of_def bit_0 Let_def

end
