(* ===== verification/Kernel.thy ===== *)
theory Kernel
  imports Libc
begin

text \<open>
  The operating system.  Its answers are a parameter of the model, the record \<open>kernel\<close>: the
  \<open>n\<close>-th system call of a run reads its answer at position \<open>n\<close>, and the state of a program
  counts its calls.  A negative answer is \<open>-errno\<close>, as the \<^verbatim>\<open>__sys_\<close> wrappers of
  \<^verbatim>\<open>arch/\<close> return it.  Calls with a visible effect are traced as events of type \<open>io\<close>
  together with their result.  \<open>k_junk\<close> is what an uninitialised character array on the
  stack holds, read as a C string, and \<open>k_sys\<close> answers the calls that only succeed or fail
  (\<^verbatim>\<open>socket\<close>, \<^verbatim>\<open>bind\<close>, \<^verbatim>\<open>open\<close>, \<^verbatim>\<open>ioctl\<close>, \<^verbatim>\<open>epoll_ctl\<close>,
  \<^verbatim>\<open>pthread_create\<close> and the like).  \<open>k_signal\<close> is the signal delivered during a call, if any.
  \<open>k_read\<close> and \<open>k_recvfrom\<close> are the packet or datagram that is waiting; a call reads no more of
  it than its buffer holds, and the rest is lost.  \<open>Overrun\<close> marks in a trace that the program
  wrote past the end of one of its arrays: from there on the C standard promises nothing, and
  the model continues as if the array had been long enough.
\<close>

record sockaddr_in =
  sin_port :: u16
  sin_addr :: u32

record kernel =
  k_sendto :: "nat \<Rightarrow> int"
  k_write :: "nat \<Rightarrow> int"
  k_poll :: "nat \<Rightarrow> int"
  k_time :: "nat \<Rightarrow> int + int"
  k_malloc :: "nat \<Rightarrow> bool"
  k_fopen :: "nat \<Rightarrow> string \<Rightarrow> int + string"
  k_read :: "nat \<Rightarrow> int \<times> u8 list"
  k_recvfrom :: "nat \<Rightarrow> int \<times> u8 list \<times> sockaddr_in"
  k_epoll_wait :: "nat \<Rightarrow> int \<times> int list"
  k_junk :: "nat \<Rightarrow> string"
  k_sys :: "nat \<Rightarrow> int"
  k_access :: "nat \<Rightarrow> string \<Rightarrow> int"
  k_system :: "nat \<Rightarrow> string \<Rightarrow> int"
  k_popen :: "nat \<Rightarrow> string \<Rightarrow> string option"
  k_signal :: "nat \<Rightarrow> int option"

datatype io =
    Sendto sockaddr_in "u8 list" int
  | Write int "u8 list" int
  | Open int
  | Close int
  | Bind int sockaddr_in
  | Connect int sockaddr_in
  | Send "u8 list" int
  | System string int
  | Overrun string

definition sys_read :: "kernel \<Rightarrow> nat \<Rightarrow> nat \<Rightarrow> int \<times> u8 list" where
  "sys_read K n len =
     (case k_read K n of (ret, bs) \<Rightarrow> (min ret (int len), take (nat (min ret (int len))) bs))"

definition sys_recvfrom :: "kernel \<Rightarrow> nat \<Rightarrow> nat \<Rightarrow> int \<times> u8 list \<times> sockaddr_in" where
  "sys_recvfrom K n len =
     (case k_recvfrom K n of (ret, bs, a) \<Rightarrow> (min ret (int len), take (nat (min ret (int len))) bs, a))"

lemma sys_read_whole:
  "k_read K n = (int (length bs), bs) \<Longrightarrow> length bs \<le> len \<Longrightarrow> sys_read K n len = (int (length bs), bs)"
  by (simp add: sys_read_def)

lemma sys_recvfrom_whole:
  "k_recvfrom K n = (int (length bs), bs, a) \<Longrightarrow> length bs \<le> len \<Longrightarrow> sys_recvfrom K n len = (int (length bs), bs, a)"
  by (simp add: sys_recvfrom_def)

text \<open>The descriptors that a trace opens and closes.\<close>

fun opened :: "io list \<Rightarrow> int list" where
  "opened [] = []"
| "opened (x # l) = (case x of Open fd \<Rightarrow> fd # opened l | _ \<Rightarrow> opened l)"

fun closed :: "io list \<Rightarrow> int list" where
  "closed [] = []"
| "closed (x # l) = (case x of Close fd \<Rightarrow> fd # closed l | _ \<Rightarrow> closed l)"

lemma opened_append [simp]: "opened (a @ b) = opened a @ opened b"
  by (induction a) (simp_all split: io.split)

lemma closed_append [simp]: "closed (a @ b) = closed a @ closed b"
  by (induction a) (simp_all split: io.split)

text \<open>A system without clients or data: every call succeeds at once with the smallest answer.\<close>

definition silent_kernel :: kernel where
  "silent_kernel = \<lparr>k_sendto = (\<lambda>_. 0), k_write = (\<lambda>_. 0), k_poll = (\<lambda>_. 0),
     k_time = (\<lambda>n. Inr (int n)), k_malloc = (\<lambda>_. True), k_fopen = (\<lambda>_ _. Inl ENOENT),
     k_read = (\<lambda>_. (0, [])), k_recvfrom = (\<lambda>_. (0, [], \<lparr>sin_port = 0, sin_addr = 0\<rparr>)),
     k_epoll_wait = (\<lambda>_. (0, [])), k_junk = (\<lambda>_. []), k_sys = (\<lambda>_. 0),
     k_access = (\<lambda>_ _. 0), k_system = (\<lambda>_ _. 0), k_popen = (\<lambda>_ _. None),
     k_signal = (\<lambda>_. None)\<rparr>"

end
