(* ===== verification/Srv_State.thy ===== *)
theory Srv_State
  imports Packet Route_Map Bt_Stack Kernel
begin

text \<open>
  The server's data: \<^verbatim>\<open>src/teavpn2/server/common.h\<close> (configuration) and
  \<^verbatim>\<open>src/teavpn2/server/linux/udp.h\<close> (sessions, session map, threads, server state).
  A pointer to a session is its index in \<open>sess_arr\<close>.  \<open>tick\<close> counts the system calls and
  \<open>io\<close> is the trace of their effects.
\<close>

section \<open>Configuration\<close>

record srv_cfg_sys =
  cfg_file :: string
  data_dir :: string
  thread_num :: u8
  verbose_level :: u8

record srv_cfg_sock =
  use_encryption :: bool
  backlog :: int
  sock_ty :: sock_type
  bind_addr :: string
  bind_port :: u16
  max_conn :: u16
  event_loop :: string
  ssl_cert :: string
  ssl_priv_key :: string

record srv_cfg_iface =
  iface_dev :: string
  iface_mtu :: u16
  iface_iff :: if_info

record srv_cfg =
  cfg_sys :: srv_cfg_sys
  cfg_sock :: srv_cfg_sock
  cfg_iface :: srv_cfg_iface

section \<open>Sessions and server state\<close>

record udp_sess =
  ipv4_iff :: u32
  src_addr :: u32
  src_port :: u16
  idx :: u16
  last_act :: int
  addr :: sockaddr_in
  username :: string
  str_src_addr :: string
  loop_c :: u8
  err_c :: u8
  is_authenticated :: bool
  is_connected :: bool

text \<open>A hash bucket: the head lies in the table, the rest of the chain is allocated.\<close>

datatype udp_map_bucket = Bucket (bkt_next: "udp_map_bucket option") (bkt_sess: "nat option")

type_synonym sess_map_t = "u8 \<Rightarrow> u8 \<Rightarrow> udp_map_bucket"

record epl_thread =
  th_idx :: u16
  epoll_fd :: int
  epoll_timeout :: int
  epoll_set :: "int list"
  th_is_online :: bool
  th_pkt :: "sc_pkt option"

record srv_udp_state =
  stop :: bool
  in_emergency :: bool
  threads_wont_exit :: bool
  need_remove_iff :: bool
  sig :: int
  evt_loop :: event_loop_t
  udp_fd :: int
  cfg :: srv_cfg
  sess_stk :: bt_stack
  sess_map :: "sess_map_t option"
  sess_arr :: "udp_sess list"
  n_on_sess :: u16
  n_on_threads :: u16
  tun_fds :: "int list"
  ipv4_map :: ipv4_map_t
  zr_is_online :: bool
  zr_pkt :: "sc_pkt option"
  epl_threads :: "epl_thread list"
  tick :: nat
  io :: "io list"

section \<open>Small operations of udp.h\<close>

definition zero_sess :: udp_sess where
  "zero_sess = \<lparr>ipv4_iff = 0, src_addr = 0, src_port = 0, idx = 0, last_act = 0,
     addr = \<lparr>sin_port = 0, sin_addr = 0\<rparr>, username = [], str_src_addr = [], loop_c = 0,
     err_c = 0, is_authenticated = False, is_connected = False\<rparr>"

definition reset_udp_session :: "u16 \<Rightarrow> udp_sess" where
  "reset_udp_session i = zero_sess\<lparr>username := ''_'', idx := i\<rparr>"

definition upd_sess :: "nat \<Rightarrow> (udp_sess \<Rightarrow> udp_sess) \<Rightarrow> srv_udp_state \<Rightarrow> srv_udp_state" where
  "upd_sess i f s = s\<lparr>sess_arr := (sess_arr s)[i := f (sess_arr s ! i)]\<rparr>"

text \<open>
  \<^verbatim>\<open>get_unix_time\<close>: the clock's answer and the return value; on failure the
  destination keeps its old value.
\<close>

definition get_unix_time :: "kernel \<Rightarrow> int \<Rightarrow> srv_udp_state \<Rightarrow> int \<times> int \<times> srv_udp_state" where
  "get_unix_time K old s =
     (let s' = s\<lparr>tick := tick s + 1\<rparr> in
      case k_time K (tick s) of Inl e \<Rightarrow> (- e, old, s') | Inr t \<Rightarrow> (0, t, s'))"

definition udp_sess_update_last_act :: "kernel \<Rightarrow> nat \<Rightarrow> srv_udp_state \<Rightarrow> int \<times> srv_udp_state" where
  "udp_sess_update_last_act K i s =
     (case get_unix_time K (last_act (sess_arr s ! i)) s of
        (ret, t, s') \<Rightarrow> (ret, upd_sess i (\<lambda>x. x\<lparr>last_act := t\<rparr>) s'))"

section \<open>Facts about sessions and their updates\<close>

lemma upd_sess_arr [simp]: "sess_arr (upd_sess i f s) = (sess_arr s)[i := f (sess_arr s ! i)]"
  by (simp add: upd_sess_def)

lemma length_upd_sess [simp]: "length (sess_arr (upd_sess i f s)) = length (sess_arr s)"
  by (simp add: upd_sess_def)

lemma upd_sess_frame [frame]:
  "sess_stk (upd_sess i f s) = sess_stk s" "sess_map (upd_sess i f s) = sess_map s"
  "ipv4_map (upd_sess i f s) = ipv4_map s" "n_on_sess (upd_sess i f s) = n_on_sess s"
  "cfg (upd_sess i f s) = cfg s" "io (upd_sess i f s) = io s" "tick (upd_sess i f s) = tick s"
  "udp_fd (upd_sess i f s) = udp_fd s" "tun_fds (upd_sess i f s) = tun_fds s"
  "stop (upd_sess i f s) = stop s" "in_emergency (upd_sess i f s) = in_emergency s"
  "epl_threads (upd_sess i f s) = epl_threads s" "zr_pkt (upd_sess i f s) = zr_pkt s"
  "n_on_threads (upd_sess i f s) = n_on_threads s" "zr_is_online (upd_sess i f s) = zr_is_online s"
  "threads_wont_exit (upd_sess i f s) = threads_wont_exit s"
  by (simp_all add: upd_sess_def)

lemma reset_sess_fields [simp]:
  "idx (reset_udp_session i) = i" "is_connected (reset_udp_session i) = False"
  "is_authenticated (reset_udp_session i) = False" "ipv4_iff (reset_udp_session i) = 0"
  by (simp_all add: reset_udp_session_def zero_sess_def)

end
