(* ===== verification/Session.thy ===== *)
theory Session
  imports Srv_State
begin

text \<open>
  The session table of \<^verbatim>\<open>src/teavpn2/server/linux/udp_session.c\<close>: slots in \<open>sess_arr\<close>, the
  free slots on a stack, and a hash table of chained buckets from a client's UDP address to its
  slot.  An operation is one step here; \<open>Srv_Locks\<close> and \<open>Srv_Atomic\<close> add the locks and justify
  that.  In this theory \<^verbatim>\<open>BUG_ON\<close> is that of a build without \<^verbatim>\<open>CONFIG_HPC_EMERGENCY\<close>, which
  evaluates its condition and goes on; \<open>Srv_Locks\<close> has both builds.  Under the invariant the
  condition is false: the push of a slot that is freed cannot fail.  The main results are the
  invariant \<open>sess_inv\<close>, that every operation keeps it, and that under it the table is a
  finite map from (address, port) to slots (the locale \<open>session_table\<close>).
\<close>

section \<open>Buckets\<close>

text \<open>The map pointer is NULL before \<^verbatim>\<open>init_udp_session_map\<close>.\<close>

definition smap :: "srv_udp_state \<Rightarrow> sess_map_t" where
  "smap s = (case sess_map s of None \<Rightarrow> (\<lambda>_ _. Bucket None None) | Some m \<Rightarrow> m)"

definition addr_to_bkt :: "u32 \<Rightarrow> u8 \<times> u8" where
  "addr_to_bkt a = (ucast (drop_bit 0 a AND 0xff), ucast (drop_bit 8 a AND 0xff))"

fun bkt_append :: "udp_map_bucket \<Rightarrow> udp_map_bucket \<Rightarrow> udp_map_bucket" where
  "bkt_append new (Bucket nxt se) =
     Bucket (Some (case nxt of None \<Rightarrow> new | Some b \<Rightarrow> bkt_append new b)) se"

definition map_insert_udp_sess ::
  "kernel \<Rightarrow> u32 \<Rightarrow> nat \<Rightarrow> srv_udp_state \<Rightarrow> nat option \<times> srv_udp_state" where
  "map_insert_udp_sess K a i s =
     (let (i1, i2) = addr_to_bkt a;
          bkt = smap s i1 i2
      in if bkt_sess bkt = None
         then (Some i, s\<lparr>sess_map := Some (upd2 (smap s) i1 i2 (Bucket None (Some i)))\<rparr>)
         else if \<not> k_malloc K (tick s) then (None, s\<lparr>tick := tick s + 1\<rparr>)
         else (Some i, s\<lparr>tick := tick s + 1,
                sess_map := Some (upd2 (smap s) i1 i2 (bkt_append (Bucket None (Some i)) bkt))\<rparr>))"

text \<open>The created slot or NULL, \<^verbatim>\<open>errno\<close>, the state.\<close>

definition create_udp_sess ::
  "kernel \<Rightarrow> u32 \<Rightarrow> u16 \<Rightarrow> srv_udp_state \<Rightarrow> nat option \<times> int \<times> srv_udp_state" where
  "create_udp_sess K a port s =
     (let (stk_ret, stk) = bt_stack_pop (sess_stk s) in
      if stk_ret = -1 then (None, EAGAIN, s)
      else
        let ix = (word_of_int stk_ret :: u16);
            i = unat ix;
            s1 = upd_sess i (\<lambda>x. x\<lparr>src_addr := a, src_port := port\<rparr>) (s\<lparr>sess_stk := stk\<rparr>);
            (ret, s2) = map_insert_udp_sess K a i s1
        in case ret of
             None \<Rightarrow> (None, ENOMEM, s2\<lparr>sess_stk := snd (bt_stack_push (sess_stk s2) ix)\<rparr>)
           | Some j \<Rightarrow>
               let s3 = upd_sess i (\<lambda>x. x\<lparr>str_src_addr := inet_ntop (htonl a)\<rparr>) s2;
                   (_, s4) = udp_sess_update_last_act K i s3;
                   s5 = upd_sess i (\<lambda>x. x\<lparr>is_connected := True\<rparr>) s4
               in (Some j, 0, s5\<lparr>n_on_sess := n_on_sess s5 + 1\<rparr>))"

fun bkt_lookup :: "udp_sess list \<Rightarrow> u32 \<Rightarrow> u16 \<Rightarrow> udp_map_bucket \<Rightarrow> nat option" where
  "bkt_lookup ss a port (Bucket nxt se) =
     (let rest = (case nxt of None \<Rightarrow> None | Some b \<Rightarrow> bkt_lookup ss a port b) in
      case se of
        None \<Rightarrow> rest
      | Some i \<Rightarrow> if src_addr (ss ! i) = a \<and> src_port (ss ! i) = port then Some i else rest)"

definition lookup_udp_sess :: "srv_udp_state \<Rightarrow> u32 \<Rightarrow> u16 \<Rightarrow> nat option" where
  "lookup_udp_sess s a port =
     (let (i1, i2) = addr_to_bkt a in bkt_lookup (sess_arr s) a port (smap s i1 i2))"

text \<open>
  The removal loop.  \<open>bkt_unlink\<close> is the loop after the first iteration, where
  \<open>prev\<close> is not NULL: the cell that holds the session is unlinked, and the result is
  what \<open>prev->next\<close> becomes.  At the head the next cell is copied up instead, because the
  head lies in the table.
\<close>

fun bkt_unlink :: "nat \<Rightarrow> udp_map_bucket \<Rightarrow> udp_map_bucket option option" where
  "bkt_unlink i (Bucket nxt se) =
     (if se = Some i then Some nxt
      else case nxt of None \<Rightarrow> None
           | Some b \<Rightarrow> (case bkt_unlink i b of None \<Rightarrow> None
                        | Some r \<Rightarrow> Some (Some (Bucket r se))))"

fun bkt_remove :: "nat \<Rightarrow> udp_map_bucket \<Rightarrow> udp_map_bucket option" where
  "bkt_remove i (Bucket nxt se) =
     (if se = Some i
      then Some (case nxt of None \<Rightarrow> Bucket None None
                 | Some b \<Rightarrow> Bucket (bkt_next b) (bkt_sess b))
      else case nxt of None \<Rightarrow> None
           | Some b \<Rightarrow> (case bkt_unlink i b of None \<Rightarrow> None | Some r \<Rightarrow> Some (Bucket r se)))"

definition remove_sess_from_bkt :: "nat \<Rightarrow> srv_udp_state \<Rightarrow> int \<times> srv_udp_state" where
  "remove_sess_from_bkt i s =
     (let (i1, i2) = addr_to_bkt (src_addr (sess_arr s ! i)) in
      case bkt_remove i (smap s i1 i2) of
        None \<Rightarrow> (- ENOENT, s)
      | Some b \<Rightarrow> (0, s\<lparr>sess_map := Some (upd2 (smap s) i1 i2 b)\<rparr>))"

definition delete_udp_session :: "nat \<Rightarrow> srv_udp_state \<Rightarrow> int \<times> srv_udp_state" where
  "delete_udp_session i s =
     (let s1 = s\<lparr>sess_stk := snd (bt_stack_push (sess_stk s) (idx (sess_arr s ! i)))\<rparr>;
          (ret, s2) = (if sess_map s1 = None then (0, s1) else remove_sess_from_bkt i s1);
          s3 = upd_sess i (\<lambda>x. reset_udp_session (idx x)) s2
      in (ret, s3\<lparr>n_on_sess := n_on_sess s3 - 1\<rparr>))"

section \<open>Chains\<close>

fun chain :: "udp_map_bucket \<Rightarrow> nat list" where
  "chain (Bucket nxt se) =
     (case se of None \<Rightarrow> [] | Some i \<Rightarrow> [i]) @ (case nxt of None \<Rightarrow> [] | Some b \<Rightarrow> chain b)"

fun bkt_full :: "udp_map_bucket \<Rightarrow> bool" where
  "bkt_full (Bucket nxt se) \<longleftrightarrow>
     se \<noteq> None \<and> (case nxt of None \<Rightarrow> True | Some b \<Rightarrow> bkt_full b)"

definition bkt_wf :: "udp_map_bucket \<Rightarrow> bool" where
  "bkt_wf b \<longleftrightarrow> b = Bucket None None \<or> bkt_full b"

lemma bkt_lookup_find:
  "bkt_lookup ss a port b = find (\<lambda>i. src_addr (ss ! i) = a \<and> src_port (ss ! i) = port) (chain b)"
proof (induction b)
  case (Bucket nxt se)
  then show ?case by (cases nxt; cases se) (auto simp: Let_def)
qed

lemma chain_append: "chain (bkt_append (Bucket None (Some i)) b) = chain b @ [i]"
proof (induction b)
  case (Bucket nxt se)
  then show ?case by (cases nxt) auto
qed

lemma full_append: "bkt_full b \<Longrightarrow> bkt_full (bkt_append (Bucket None (Some i)) b)"
proof (induction b)
  case (Bucket nxt se)
  then show ?case by (cases nxt) auto
qed

lemma unlink_None: "i \<notin> set (chain b) \<Longrightarrow> bkt_unlink i b = None"
proof (induction b)
  case (Bucket nxt se)
  then show ?case by (cases nxt; cases se) auto
qed

definition ochain :: "udp_map_bucket option \<Rightarrow> nat list" where
  "ochain ob = (case ob of None \<Rightarrow> [] | Some b \<Rightarrow> chain b)"

definition ofull :: "udp_map_bucket option \<Rightarrow> bool" where
  "ofull ob = (case ob of None \<Rightarrow> True | Some b \<Rightarrow> bkt_full b)"

lemma unlink_Some:
  "bkt_full b \<Longrightarrow> i \<in> set (chain b) \<Longrightarrow>
   \<exists>r. bkt_unlink i b = Some r \<and> ochain r = remove1 i (chain b) \<and> ofull r"
proof (induction b)
  case (Bucket nxt se)
  then obtain j where se: "se = Some j" by auto
  show ?case
  proof (cases "j = i")
    case True
    with Bucket.prems se show ?thesis by (cases nxt) (auto simp: ochain_def ofull_def)
  next
    case False
    with Bucket.prems se obtain b where b: "nxt = Some b" by (cases nxt) auto
    with Bucket.prems se False have "bkt_full b" "i \<in> set (chain b)" by auto
    with Bucket.IH b obtain r where "bkt_unlink i b = Some r" "ochain r = remove1 i (chain b)" "ofull r"
      by auto
    with b se False show ?thesis by (auto simp: ochain_def ofull_def split: option.splits)
  qed
qed

lemma remove_Some:
  assumes "bkt_wf b" and "i \<in> set (chain b)"
  shows "\<exists>b'. bkt_remove i b = Some b' \<and> chain b' = remove1 i (chain b) \<and> bkt_wf b'"
proof -
  obtain nxt se where b: "b = Bucket nxt se" by (cases b)
  with assms obtain j where se: "se = Some j" and f: "bkt_full b" by (auto simp: bkt_wf_def)
  show ?thesis
  proof (cases "j = i")
    case True
    show ?thesis
    proof (cases nxt)
      case None
      with True b se show ?thesis by (simp add: bkt_wf_def)
    next
      case (Some c)
      obtain n2 s2 where "c = Bucket n2 s2" by (cases c)
      with Some True b se f show ?thesis by (simp add: bkt_wf_def)
    qed
  next
    case False
    with assms b se obtain c where c: "nxt = Some c" "i \<in> set (chain c)" by (cases nxt) auto
    from f b c have "bkt_full c" by simp
    from unlink_Some [OF this c(2)] obtain r
      where "bkt_unlink i c = Some r" "ochain r = remove1 i (chain c)" "ofull r" by blast
    with b c se False show ?thesis
      by (auto simp: bkt_wf_def ochain_def ofull_def split: option.splits)
  qed
qed


section \<open>The invariant of the session table\<close>

definition conn :: "srv_udp_state \<Rightarrow> nat set" where
  "conn s = {i. i < length (sess_arr s) \<and> is_connected (sess_arr s ! i)}"

definition sess_key :: "srv_udp_state \<Rightarrow> nat \<Rightarrow> u32 \<times> u16" where
  "sess_key s i = (src_addr (sess_arr s ! i), src_port (sess_arr s ! i))"

definition in_bkt :: "srv_udp_state \<Rightarrow> u8 \<times> u8 \<Rightarrow> nat set" where
  "in_bkt s k = {i \<in> conn s. addr_to_bkt (src_addr (sess_arr s ! i)) = k}"

definition slots_ok :: "srv_udp_state \<Rightarrow> bool" where
  "slots_ok s \<longleftrightarrow> stk_ok (sess_stk s) \<and> length (sess_arr s) = unat (max_sp (sess_stk s))
     \<and> max_conn (cfg_sock (cfg s)) = max_sp (sess_stk s)
     \<and> (\<forall>i < length (sess_arr s). idx (sess_arr s ! i) = word_of_nat i)
     \<and> distinct (stk_list (sess_stk s))
     \<and> unat ` set (stk_list (sess_stk s)) = {i. i < length (sess_arr s)} - conn s"

definition map_ok :: "srv_udp_state \<Rightarrow> bool" where
  "map_ok s \<longleftrightarrow> sess_map s \<noteq> None
     \<and> (\<forall>a b. bkt_wf (smap s a b) \<and> distinct (chain (smap s a b))
          \<and> set (chain (smap s a b)) = in_bkt s (a, b))"

definition keys_ok :: "srv_udp_state \<Rightarrow> bool" where
  "keys_ok s \<longleftrightarrow> inj_on (sess_key s) (conn s)"

definition count_ok :: "srv_udp_state \<Rightarrow> bool" where
  "count_ok s \<longleftrightarrow> unat (n_on_sess s) = card (conn s)"

definition sess_inv :: "srv_udp_state \<Rightarrow> bool" where
  "sess_inv s \<longleftrightarrow> slots_ok s \<and> map_ok s \<and> keys_ok s \<and> count_ok s"

lemma finite_conn [simp]: "finite (conn s)"
  by (simp add: conn_def)

lemma conn_less: "i \<in> conn s \<Longrightarrow> i < length (sess_arr s)"
  by (simp add: conn_def)

lemma sess_len_less: "slots_ok s \<Longrightarrow> length (sess_arr s) < 65536"
  using unsigned_less [of "max_sp (sess_stk s)", where 'a = nat] by (simp add: slots_ok_def)

text \<open>What the invariant depends on: a state that agrees on it has the invariant too.\<close>

definition same_table :: "srv_udp_state \<Rightarrow> srv_udp_state \<Rightarrow> bool" where
  "same_table s s' \<longleftrightarrow> sess_stk s' = sess_stk s \<and> sess_map s' = sess_map s
     \<and> n_on_sess s' = n_on_sess s \<and> max_conn (cfg_sock (cfg s')) = max_conn (cfg_sock (cfg s))
     \<and> length (sess_arr s') = length (sess_arr s)
     \<and> (\<forall>i < length (sess_arr s). idx (sess_arr s' ! i) = idx (sess_arr s ! i)
          \<and> is_connected (sess_arr s' ! i) = is_connected (sess_arr s ! i)
          \<and> (is_connected (sess_arr s ! i) \<longrightarrow> sess_key s' i = sess_key s i))"

lemma same_table_refl [simp]: "same_table s s"
  by (simp add: same_table_def)

lemma same_table_trans: "same_table s t \<Longrightarrow> same_table t u \<Longrightarrow> same_table s u"
  by (auto simp: same_table_def)

lemma same_table_conn: "same_table s s' \<Longrightarrow> conn s' = conn s"
  by (auto simp: same_table_def conn_def)

lemma same_table_inv:
  assumes st: "same_table s s'"
  shows "sess_inv s' \<longleftrightarrow> sess_inv s"
proof -
  have c: "conn s' = conn s" using st by (rule same_table_conn)
  have k: "sess_key s' i = sess_key s i" if "i \<in> conn s" for i
    using st that by (auto simp: same_table_def conn_def)
  have b: "in_bkt s' x = in_bkt s x" for x
    using k c by (auto simp: in_bkt_def sess_key_def)
  have m: "smap s' = smap s" using st by (simp add: same_table_def smap_def)
  have "slots_ok s' \<longleftrightarrow> slots_ok s" using st c by (auto simp: slots_ok_def same_table_def)
  moreover have "map_ok s' \<longleftrightarrow> map_ok s" using st m b by (auto simp: map_ok_def same_table_def)
  moreover have "keys_ok s' \<longleftrightarrow> keys_ok s"
    using k c by (auto simp: keys_ok_def inj_on_def)
  moreover have "count_ok s' \<longleftrightarrow> count_ok s" using st c by (auto simp: count_ok_def same_table_def)
  ultimately show ?thesis by (simp add: sess_inv_def)
qed

text \<open>Updates of fields the table does not use.\<close>

lemma same_table_upd_sess:
  assumes "\<And>x. idx (f x) = idx x" "\<And>x. is_connected (f x) = is_connected x"
    "\<And>x. src_addr (f x) = src_addr x" "\<And>x. src_port (f x) = src_port x"
  shows "same_table s (upd_sess i f s)"
  using assms by (auto simp: same_table_def frame sess_key_def nth_upd)

section \<open>Lookup\<close>

lemma lookup_iff:
  assumes inv: "sess_inv s"
  shows "lookup_udp_sess s a p = Some i \<longleftrightarrow> i \<in> conn s \<and> sess_key s i = (a, p)"
proof -
  let ?P = "\<lambda>i. src_addr (sess_arr s ! i) = a \<and> src_port (sess_arr s ! i) = p"
  obtain i1 i2 where ab: "addr_to_bkt a = (i1, i2)" by fastforce
  let ?c = "chain (smap s i1 i2)"
  have l: "lookup_udp_sess s a p = find ?P ?c"
    by (simp add: lookup_udp_sess_def ab bkt_lookup_find)
  have set_c: "set ?c = in_bkt s (i1, i2)" using inv by (simp add: sess_inv_def map_ok_def)
  have un: "j = i" if "j \<in> conn s" "i \<in> conn s" "sess_key s i = (a, p)" "sess_key s j = (a, p)" for j
    using inv that by (auto simp: sess_inv_def keys_ok_def inj_on_def)
  show ?thesis
  proof
    assume "lookup_udp_sess s a p = Some i"
    then have "i \<in> set ?c" "?P i" unfolding l by (auto simp: find_Some_iff)
    then show "i \<in> conn s \<and> sess_key s i = (a, p)"
      using set_c by (auto simp: in_bkt_def sess_key_def)
  next
    assume r: "i \<in> conn s \<and> sess_key s i = (a, p)"
    then have "i \<in> set ?c" "?P i" using ab by (auto simp: set_c in_bkt_def sess_key_def)
    then obtain j where j: "find ?P ?c = Some j" by (metis (mono_tags, lifting) find_None_iff not_None_eq)
    then have "j \<in> set ?c" "?P j" by (auto simp: find_Some_iff)
    then have "j \<in> conn s" "sess_key s j = (a, p)" by (auto simp: set_c in_bkt_def sess_key_def)
    with r un have "j = i" by blast
    with j l show "lookup_udp_sess s a p = Some i" by simp
  qed
qed

lemma lookup_None_iff:
  "sess_inv s \<Longrightarrow> lookup_udp_sess s a p = None \<longleftrightarrow> (\<forall>i \<in> conn s. sess_key s i \<noteq> (a, p))"
  using lookup_iff [of s a p] by (metis not_None_eq option.distinct(1))


section \<open>Creating a session\<close>

lemma smap_Some: "sess_map s = Some m \<Longrightarrow> smap s = m"
  by (simp add: smap_def)

lemma conn_upd: "conn (upd_sess i f s) =
   (if i < length (sess_arr s) \<and> is_connected (f (sess_arr s ! i)) then insert i (conn s)
    else conn s - {i})"
  by (auto simp: conn_def nth_upd split: if_splits)

lemma unat_slot: "slots_ok s \<Longrightarrow> i < length (sess_arr s) \<Longrightarrow> unat (word_of_nat i :: u16) = i"
  using sess_len_less [of s] by (simp add: unat_of_nat)

text \<open>The slot on top of the free stack.\<close>

lemma slot_popped:
  assumes ok: "slots_ok s" and st: "stk_list (sess_stk s) = ix # xs"
  shows "\<exists>stk. bt_stack_pop (sess_stk s) = (uint ix, stk) \<and> stk_ok stk \<and> stk_list stk = xs
    \<and> max_sp stk = max_sp (sess_stk s) \<and> unat ix < length (sess_arr s) \<and> unat ix \<notin> conn s"
proof -
  from ok have "stk_ok (sess_stk s)" by (simp add: slots_ok_def)
  from bt.pop_cons [OF this st] obtain stk where
    stk: "bt_stack_pop (sess_stk s) = (uint ix, stk)" "stk_ok stk" "stk_list stk = xs"
      "unat (max_sp stk) = unat (max_sp (sess_stk s))" by auto
  have "unat ix \<in> unat ` set (stk_list (sess_stk s))" using st by simp
  then show ?thesis using ok stk by (auto simp: slots_ok_def word_unat_eq_iff)
qed

lemma map_insert_frame [frame]:
  "sess_arr (snd (map_insert_udp_sess K a i s)) = sess_arr s"
  "sess_stk (snd (map_insert_udp_sess K a i s)) = sess_stk s"
  "cfg (snd (map_insert_udp_sess K a i s)) = cfg s"
  "n_on_sess (snd (map_insert_udp_sess K a i s)) = n_on_sess s"
  "ipv4_map (snd (map_insert_udp_sess K a i s)) = ipv4_map s"
  "io (snd (map_insert_udp_sess K a i s)) = io s"
  "tun_fds (snd (map_insert_udp_sess K a i s)) = tun_fds s"
  "udp_fd (snd (map_insert_udp_sess K a i s)) = udp_fd s"
  "epl_threads (snd (map_insert_udp_sess K a i s)) = epl_threads s"
  "n_on_threads (snd (map_insert_udp_sess K a i s)) = n_on_threads s"
  "zr_is_online (snd (map_insert_udp_sess K a i s)) = zr_is_online s"
  "threads_wont_exit (snd (map_insert_udp_sess K a i s)) = threads_wont_exit s"
  "zr_pkt (snd (map_insert_udp_sess K a i s)) = zr_pkt s"
  "stop (snd (map_insert_udp_sess K a i s)) = stop s"
  by (simp_all add: map_insert_udp_sess_def Let_def split: prod.splits)

lemma map_insert_map:
  assumes "map_insert_udp_sess K a i s = (ret, s')" and "map_ok s"
  shows "(ret = None \<longrightarrow> sess_map s' = sess_map s)
    \<and> (ret \<noteq> None \<longrightarrow> ret = Some i \<and> sess_map s' \<noteq> None
        \<and> (\<forall>x y. bkt_wf (smap s' x y) \<and>
             chain (smap s' x y) = chain (smap s x y) @ (if (x, y) = addr_to_bkt a then [i] else [])))"
proof -
  obtain i1 i2 where ab: "addr_to_bkt a = (i1, i2)" by fastforce
  have wf: "bkt_wf (smap s x y)" for x y using assms(2) by (simp add: map_ok_def)
  have hd: "smap s i1 i2 = Bucket None None" if "bkt_sess (smap s i1 i2) = None"
    using wf [of i1 i2] that by (cases "smap s i1 i2") (auto simp: bkt_wf_def)
  have full: "bkt_full (smap s i1 i2)" if "bkt_sess (smap s i1 i2) \<noteq> None"
    using wf [of i1 i2] that by (auto simp: bkt_wf_def)
  consider (empty) "bkt_sess (smap s i1 i2) = None"
    | (fail) "bkt_sess (smap s i1 i2) \<noteq> None" "\<not> k_malloc K (tick s)"
    | (grow) "bkt_sess (smap s i1 i2) \<noteq> None" "k_malloc K (tick s)" by blast
  then show ?thesis
  proof cases
    case empty
    then have "ret = Some i" "sess_map s' = Some (upd2 (smap s) i1 i2 (Bucket None (Some i)))"
      using assms(1) by (auto simp: map_insert_udp_sess_def ab Let_def)
    then show ?thesis using hd [OF empty] wf by (simp add: smap_Some ab bkt_wf_def)
  next
    case fail
    then show ?thesis using assms(1) by (auto simp: map_insert_udp_sess_def ab Let_def)
  next
    case grow
    then have "ret = Some i" "sess_map s' = Some (upd2 (smap s) i1 i2
        (bkt_append (Bucket None (Some i)) (smap s i1 i2)))"
      using assms(1) by (auto simp: map_insert_udp_sess_def ab Let_def)
    then show ?thesis
      using full [OF grow(1)] wf by (simp add: smap_Some ab chain_append bkt_wf_def full_append)
  qed
qed

text \<open>
  The state after the slot has been taken from the stack and entered in the map, but for
  fields the table does not use.
\<close>

lemma sess_inv_insert:
  assumes inv: "sess_inv s" and st: "stk_list (sess_stk s) = ix # xs"
    and fresh: "\<forall>j \<in> conn s. sess_key s j \<noteq> (a, p)"
    and i: "i = unat ix"
    and arr': "length (sess_arr s') = length (sess_arr s)"
      "\<And>j. j < length (sess_arr s) \<Longrightarrow> j \<noteq> i \<Longrightarrow> sess_arr s' ! j = sess_arr s ! j"
      "sess_key s' i = (a, p)" "is_connected (sess_arr s' ! i)" "idx (sess_arr s' ! i) = idx (sess_arr s ! i)"
    and stk': "stk_ok (sess_stk s')" "stk_list (sess_stk s') = xs"
      "max_sp (sess_stk s') = max_sp (sess_stk s)"
    and map': "sess_map s' \<noteq> None" "\<And>x y. bkt_wf (smap s' x y)"
      "\<And>x y. chain (smap s' x y) = chain (smap s x y) @ (if (x, y) = addr_to_bkt a then [i] else [])"
    and rest: "n_on_sess s' = n_on_sess s + 1" "cfg s' = cfg s"
  shows "sess_inv s' \<and> conn s' = insert i (conn s) \<and> i \<notin> conn s"
proof -
  have ok: "slots_ok s" and mo: "map_ok s" and ko: "keys_ok s" and co: "count_ok s"
    using inv by (simp_all add: sess_inv_def)
  have il: "i < length (sess_arr s)" and ni: "i \<notin> conn s"
    using slot_popped [OF ok st] i by auto
  have c: "conn s' = insert i (conn s)"
    using arr' il by (auto simp: conn_def) (metis arr'(2))+
  have k: "sess_key s' j = sess_key s j" if "j \<in> conn s" for j
  proof -
    have "j \<noteq> i" using that ni by auto
    then show ?thesis using that arr'(2) [of j] by (simp add: conn_def sess_key_def)
  qed
  have b: "in_bkt s' (x, y) = in_bkt s (x, y) \<union> (if (x, y) = addr_to_bkt a then {i} else {})" for x y
    using k arr'(3) by (auto simp: in_bkt_def c sess_key_def)
  have "slots_ok s'"
  proof -
    have free: "unat ` set (stk_list (sess_stk s)) = {i. i < length (sess_arr s)} - conn s"
      and d: "distinct (ix # xs)" using ok st by (simp_all add: slots_ok_def)
    have "unat ` set xs = unat ` set (stk_list (sess_stk s)) - {i}"
      using d st i by (auto simp: word_unat_eq_iff [symmetric])
    then have "unat ` set xs = {j. j < length (sess_arr s')} - conn s'"
      using free c arr'(1) by auto
    moreover have "idx (sess_arr s' ! j) = word_of_nat j" if "j < length (sess_arr s')" for j
      using that ok arr' by (cases "j = i") (auto simp: slots_ok_def)
    ultimately show ?thesis
      using ok stk' arr'(1) rest(2) d by (simp add: slots_ok_def)
  qed
  moreover have "map_ok s'"
    using mo map' b ni by (auto simp: map_ok_def in_bkt_def)
  moreover have "keys_ok s'"
    using ko k arr'(3) fresh ni by (auto simp: keys_ok_def c inj_on_def)
  moreover have "count_ok s'"
  proof -
    have "card (insert i (conn s)) \<le> length (sess_arr s)"
      using il card_mono [of "{j. j < length (sess_arr s)}" "insert i (conn s)"]
      by (auto simp: conn_def)
    then have "card (conn s) + 1 < 65536"
      using sess_len_less [OF ok] ni by simp
    then show ?thesis
      using co rest(1) ni by (simp add: count_ok_def c unat_word_ariths)
  qed
  ultimately show ?thesis using c ni by (simp add: sess_inv_def)
qed


text \<open>The three outcomes of \<open>create_udp_sess\<close>.\<close>

definition create_full :: "srv_udp_state \<Rightarrow> nat option \<times> int \<times> srv_udp_state \<Rightarrow> bool" where
  "create_full s r \<longleftrightarrow> r = (None, EAGAIN, s) \<and> conn s = {i. i < length (sess_arr s)}"

definition create_nomem :: "srv_udp_state \<Rightarrow> nat option \<times> int \<times> srv_udp_state \<Rightarrow> bool" where
  "create_nomem s r \<longleftrightarrow> fst r = None \<and> fst (snd r) = ENOMEM \<and> same_table s (snd (snd r))
     \<and> ipv4_map (snd (snd r)) = ipv4_map s \<and> io (snd (snd r)) = io s
     \<and> (\<forall>i \<in> conn s. sess_arr (snd (snd r)) ! i = sess_arr s ! i)
     \<and> (\<forall>i < length (sess_arr s).
          is_authenticated (sess_arr (snd (snd r)) ! i) = is_authenticated (sess_arr s ! i)
          \<and> ipv4_iff (sess_arr (snd (snd r)) ! i) = ipv4_iff (sess_arr s ! i))"

definition create_done ::
  "u32 \<Rightarrow> u16 \<Rightarrow> srv_udp_state \<Rightarrow> nat \<Rightarrow> nat option \<times> int \<times> srv_udp_state \<Rightarrow> bool" where
  "create_done a p s i r \<longleftrightarrow> (case r of (ret, err, s') \<Rightarrow> ret = Some i \<and> err = 0
     \<and> sess_inv s' \<and> i \<notin> conn s \<and> conn s' = insert i (conn s) \<and> sess_key s' i = (a, p)
     \<and> length (sess_arr s') = length (sess_arr s)
     \<and> (\<forall>j < length (sess_arr s). j \<noteq> i \<longrightarrow> sess_arr s' ! j = sess_arr s ! j)
     \<and> is_authenticated (sess_arr s' ! i) = is_authenticated (sess_arr s ! i)
     \<and> ipv4_iff (sess_arr s' ! i) = ipv4_iff (sess_arr s ! i)
     \<and> ipv4_map s' = ipv4_map s \<and> io s' = io s \<and> cfg s' = cfg s)"

lemma update_last_act_eq:
  "\<exists>t ret. udp_sess_update_last_act K i s
     = (ret, upd_sess i (\<lambda>x. x\<lparr>last_act := t\<rparr>) (s\<lparr>tick := tick s + 1\<rparr>))"
  by (simp add: udp_sess_update_last_act_def get_unix_time_def Let_def split: sum.splits) blast

lemma create_popped_nomem:
  assumes "bt_stack_pop (sess_stk s) = (uint ix, stk)"
    and "s1 = upd_sess (unat ix) (\<lambda>x. x\<lparr>src_addr := a, src_port := p\<rparr>) (s\<lparr>sess_stk := stk\<rparr>)"
    and "map_insert_udp_sess K a (unat ix) s1 = (None, s2)"
  shows "create_udp_sess K a p s
      = (None, ENOMEM, s2\<lparr>sess_stk := snd (bt_stack_push (sess_stk s2) ix)\<rparr>)"
proof -
  have ne: "uint ix \<noteq> -1" using unsigned_greater_eq [of ix, where 'a = int] by linarith
  show ?thesis using assms ne by (simp add: create_udp_sess_def)
qed

lemma create_popped_done:
  assumes pop: "bt_stack_pop (sess_stk s) = (uint (ix :: u16), stk)"
    and s1: "s1 = upd_sess (unat ix) (\<lambda>x. x\<lparr>src_addr := a, src_port := p\<rparr>) (s\<lparr>sess_stk := stk\<rparr>)"
    and mi: "map_insert_udp_sess K a (unat ix) s1 = (Some j, s2)"
    and il: "unat ix < length (sess_arr s2)"
  shows "\<exists>t s'. create_udp_sess K a p s = (Some j, 0, s')
    \<and> sess_arr s' = (sess_arr s2)[unat ix := (sess_arr s2 ! unat ix)
          \<lparr>str_src_addr := inet_ntop (htonl a), last_act := t, is_connected := True\<rparr>]
    \<and> sess_stk s' = sess_stk s2 \<and> sess_map s' = sess_map s2 \<and> cfg s' = cfg s2
    \<and> n_on_sess s' = n_on_sess s2 + 1 \<and> ipv4_map s' = ipv4_map s2 \<and> io s' = io s2"
proof -
  have ne: "uint ix \<noteq> -1" using unsigned_greater_eq [of ix, where 'a = int] by linarith
  define s3 where "s3 = upd_sess (unat ix) (\<lambda>x. x\<lparr>str_src_addr := inet_ntop (htonl a)\<rparr>) s2"
  obtain t r where "udp_sess_update_last_act K (unat ix) s3
      = (r, upd_sess (unat ix) (\<lambda>x. x\<lparr>last_act := t\<rparr>) (s3\<lparr>tick := tick s3 + 1\<rparr>))"
    using update_last_act_eq by blast
  then obtain s4 where s4: "udp_sess_update_last_act K (unat ix) s3 = (r, s4)"
      "s4 = upd_sess (unat ix) (\<lambda>x. x\<lparr>last_act := t\<rparr>) (s3\<lparr>tick := tick s3 + 1\<rparr>)" by blast
  define s5 where "s5 = upd_sess (unat ix) (\<lambda>x. x\<lparr>is_connected := True\<rparr>) s4"
  have r: "create_udp_sess K a p s = (Some j, 0, s5\<lparr>n_on_sess := n_on_sess s5 + 1\<rparr>)"
    unfolding create_udp_sess_def pop using ne mi s4(1)
    by (simp add: Let_def s1 [symmetric] s3_def [symmetric] s5_def)
  have "sess_arr s5 = (sess_arr s2)[unat ix := (sess_arr s2 ! unat ix)
          \<lparr>str_src_addr := inet_ntop (htonl a), last_act := t, is_connected := True\<rparr>]"
    using il by (simp add: s5_def s4(2) s3_def)
  moreover have "sess_stk s5 = sess_stk s2" "sess_map s5 = sess_map s2" "cfg s5 = cfg s2"
    "n_on_sess s5 = n_on_sess s2" "ipv4_map s5 = ipv4_map s2" "io s5 = io s2"
    by (simp_all add: s5_def s4(2) s3_def frame)
  ultimately show ?thesis using r by (intro exI [of _ t] exI) auto
qed

lemma create_done_case:
  assumes inv: "sess_inv s" and st: "stk_list (sess_stk s) = ix # xs"
    and fresh: "\<forall>j \<in> conn s. sess_key s j \<noteq> (a, p)"
    and arr: "sess_arr s' = (sess_arr s)[unat ix := x]"
    and x: "src_addr x = a" "src_port x = p" "is_connected x" "idx x = idx (sess_arr s ! unat ix)"
      "is_authenticated x = is_authenticated (sess_arr s ! unat ix)"
      "ipv4_iff x = ipv4_iff (sess_arr s ! unat ix)"
    and stk: "stk_ok (sess_stk s')" "stk_list (sess_stk s') = xs" "max_sp (sess_stk s') = max_sp (sess_stk s)"
    and mp: "sess_map s' \<noteq> None" "\<And>x y. bkt_wf (smap s' x y)"
      "\<And>x y. chain (smap s' x y) = chain (smap s x y) @ (if (x, y) = addr_to_bkt a then [unat ix] else [])"
    and other: "n_on_sess s' = n_on_sess s + 1" "cfg s' = cfg s" "ipv4_map s' = ipv4_map s" "io s' = io s"
  shows "create_done a p s (unat ix) (Some (unat ix), 0, s')"
proof -
  have il: "unat ix < length (sess_arr s)" using slot_popped [OF _ st] inv by (auto simp: sess_inv_def)
  have xi: "sess_arr s' ! unat ix = x" "sess_key s' (unat ix) = (a, p)"
    using il x by (simp_all add: sess_key_def arr)
  have "sess_inv s' \<and> conn s' = insert (unat ix) (conn s) \<and> unat ix \<notin> conn s"
    by (rule sess_inv_insert [OF inv st fresh refl _ _ xi(2) _ _ stk mp other(1,2)])
      (simp_all add: arr x il)
  then show ?thesis using xi x other by (simp add: create_done_def arr)
qed

lemma create_nomem_case:
  assumes mo: "sess_map s' = sess_map s" "sess_stk s' = sess_stk s" "cfg s' = cfg s"
      "n_on_sess s' = n_on_sess s" "ipv4_map s' = ipv4_map s" "io s' = io s"
    and ni: "i \<notin> conn s" and arr: "sess_arr s' = (sess_arr s)[i := (sess_arr s ! i)\<lparr>src_addr := a, src_port := p\<rparr>]"
  shows "create_nomem s (None, ENOMEM, s')"
proof -
  have "same_table s s'"
    using ni by (auto simp: same_table_def mo arr nth_upd sess_key_def conn_def)
  moreover have "\<forall>j \<in> conn s. sess_arr s' ! j = sess_arr s ! j"
    using ni by (auto simp: arr) (metis nth_list_update_neq)
  ultimately show ?thesis by (simp add: create_nomem_def mo arr nth_upd)
qed

text \<open>The map insertion on the state in which the slot has left the stack.\<close>

lemma create_insert:
  assumes inv: "sess_inv s" and ni: "i \<notin> conn s"
    and s1: "s1 = upd_sess i (\<lambda>x. x\<lparr>src_addr := a, src_port := p\<rparr>) (s\<lparr>sess_stk := stk\<rparr>)"
    and mi: "map_insert_udp_sess K a i s1 = (ret, s2)"
  shows "sess_arr s2 = (sess_arr s)[i := (sess_arr s ! i)\<lparr>src_addr := a, src_port := p\<rparr>]"
    and "sess_stk s2 = stk" and "cfg s2 = cfg s" and "n_on_sess s2 = n_on_sess s"
    and "ipv4_map s2 = ipv4_map s" and "io s2 = io s"
    and "ret = None \<Longrightarrow> sess_map s2 = sess_map s"
    and "ret \<noteq> None \<Longrightarrow> ret = Some i"
    and "ret \<noteq> None \<Longrightarrow> sess_map s2 \<noteq> None"
    and "ret \<noteq> None \<Longrightarrow> bkt_wf (smap s2 x y)"
    and "ret \<noteq> None \<Longrightarrow> chain (smap s2 x y)
      = chain (smap s x y) @ (if (x, y) = addr_to_bkt a then [i] else [])"
proof -
  note f = map_insert_frame [of K a i s1, unfolded mi snd_conv]
  show "sess_arr s2 = (sess_arr s)[i := (sess_arr s ! i)\<lparr>src_addr := a, src_port := p\<rparr>]"
    "sess_stk s2 = stk" "cfg s2 = cfg s" "n_on_sess s2 = n_on_sess s"
    "ipv4_map s2 = ipv4_map s" "io s2 = io s"
    by (simp_all add: f s1 frame)
  have m1: "smap s1 = smap s" "sess_map s1 = sess_map s" by (simp_all add: s1 smap_def frame)
  have c1: "conn s1 = conn s" using ni by (auto simp: conn_def s1 nth_upd split: if_splits)
  have "in_bkt s1 k = in_bkt s k" for k
    using ni by (auto simp: in_bkt_def c1) (auto simp: s1 nth_upd conn_def)
  then have "map_ok s1" using inv by (simp add: sess_inv_def map_ok_def m1)
  from map_insert_map [OF mi this, unfolded m1]
  show "ret = None \<Longrightarrow> sess_map s2 = sess_map s" "ret \<noteq> None \<Longrightarrow> ret = Some i"
    "ret \<noteq> None \<Longrightarrow> sess_map s2 \<noteq> None" "ret \<noteq> None \<Longrightarrow> bkt_wf (smap s2 x y)"
    "ret \<noteq> None \<Longrightarrow> chain (smap s2 x y)
      = chain (smap s x y) @ (if (x, y) = addr_to_bkt a then [i] else [])"
    by blast+
qed

lemma create_spec:
  assumes inv: "sess_inv s" and fresh: "lookup_udp_sess s a p = None"
  shows "create_full s (create_udp_sess K a p s) \<or> create_nomem s (create_udp_sess K a p s)
    \<or> (\<exists>i. create_done a p s i (create_udp_sess K a p s))"
proof (cases "stk_list (sess_stk s)")
  case Nil
  have ok: "slots_ok s" using inv by (simp add: sess_inv_def)
  then have "conn s = {i. i < length (sess_arr s)}"
    using Nil conn_less [of _ s] by (auto simp: slots_ok_def)
  moreover have "bt_stack_pop (sess_stk s) = (-1, sess_stk s)"
    using Nil ok by (simp add: bt.pop_nil slots_ok_def)
  ultimately show ?thesis by (simp add: create_full_def create_udp_sess_def)
next
  case (Cons ix xs)
  let ?i = "unat ix"
  have ok: "slots_ok s" and so: "stk_ok (sess_stk s)" using inv by (simp_all add: sess_inv_def slots_ok_def)
  from slot_popped [OF ok Cons] obtain stk where
    pop: "bt_stack_pop (sess_stk s) = (uint ix, stk)" and stk: "stk_ok stk" "stk_list stk = xs"
      "max_sp stk = max_sp (sess_stk s)" and il: "?i < length (sess_arr s)" and ni: "?i \<notin> conn s" by auto
  define s1 where "s1 = upd_sess ?i (\<lambda>x. x\<lparr>src_addr := a, src_port := p\<rparr>) (s\<lparr>sess_stk := stk\<rparr>)"
  obtain ret s2 where mi: "map_insert_udp_sess K a ?i s1 = (ret, s2)" by fastforce
  note fr = create_insert [OF inv ni s1_def mi]
  show ?thesis
  proof (cases ret)
    case None
    have "snd (bt_stack_push stk ix) = sess_stk s" using so Cons pop by (simp add: bt_pop_push_back)
    then have r: "create_udp_sess K a p s = (None, ENOMEM, s2\<lparr>sess_stk := sess_stk s\<rparr>)"
      using create_popped_nomem [OF pop s1_def mi [unfolded None]] fr(2) by simp
    have "create_nomem s (None, ENOMEM, s2\<lparr>sess_stk := sess_stk s\<rparr>)"
      by (rule create_nomem_case [OF _ _ _ _ _ _ ni]) (simp_all add: fr(1,3-6) fr(7) [OF None])
    then show ?thesis using r by simp
  next
    case (Some j)
    then have ne: "ret \<noteq> None" and j: "j = ?i" using fr(8) by auto
    have "?i < length (sess_arr s2)" using il fr(1) by simp
    from create_popped_done [OF pop s1_def mi [unfolded Some] this] obtain t s'
      where r: "create_udp_sess K a p s = (Some j, 0, s')"
        and arr': "sess_arr s' = (sess_arr s2)[?i := (sess_arr s2 ! ?i)
          \<lparr>str_src_addr := inet_ntop (htonl a), last_act := t, is_connected := True\<rparr>]"
        and o: "sess_stk s' = sess_stk s2" "sess_map s' = sess_map s2" "cfg s' = cfg s2"
          "n_on_sess s' = n_on_sess s2 + 1" "ipv4_map s' = ipv4_map s2" "io s' = io s2" by blast
    have sm: "smap s' = smap s2" by (simp add: o smap_def)
    have "create_done a p s ?i (Some ?i, 0, s')"
    proof (rule create_done_case [OF inv Cons])
      show "\<forall>j \<in> conn s. sess_key s j \<noteq> (a, p)" using fresh inv by (simp add: lookup_None_iff)
      show "sess_arr s' = (sess_arr s)[?i := (sess_arr s ! ?i)\<lparr>src_addr := a, src_port := p,
          str_src_addr := inet_ntop (htonl a), last_act := t, is_connected := True\<rparr>]"
        using il by (simp add: arr' fr(1))
    qed (simp_all add: o fr(2-6) fr(9-11) [OF ne] sm stk)
    then show ?thesis using r j by auto
  qed
qed

lemma last_act_frame [frame]:
  "cfg (snd (udp_sess_update_last_act K i s)) = cfg s"
  "ipv4_map (snd (udp_sess_update_last_act K i s)) = ipv4_map s"
  "io (snd (udp_sess_update_last_act K i s)) = io s"
  "tun_fds (snd (udp_sess_update_last_act K i s)) = tun_fds s"
  "udp_fd (snd (udp_sess_update_last_act K i s)) = udp_fd s"
  "length (sess_arr (snd (udp_sess_update_last_act K i s))) = length (sess_arr s)"
  "epl_threads (snd (udp_sess_update_last_act K i s)) = epl_threads s"
  "n_on_threads (snd (udp_sess_update_last_act K i s)) = n_on_threads s"
  "zr_is_online (snd (udp_sess_update_last_act K i s)) = zr_is_online s"
  "threads_wont_exit (snd (udp_sess_update_last_act K i s)) = threads_wont_exit s"
  "zr_pkt (snd (udp_sess_update_last_act K i s)) = zr_pkt s"
  "stop (snd (udp_sess_update_last_act K i s)) = stop s"
  by (simp_all add: udp_sess_update_last_act_def get_unix_time_def Let_def frame split: sum.split)

lemma create_frame [frame]:
  "cfg (snd (snd (create_udp_sess K a p s))) = cfg s"
  "ipv4_map (snd (snd (create_udp_sess K a p s))) = ipv4_map s"
  "io (snd (snd (create_udp_sess K a p s))) = io s"
  "tun_fds (snd (snd (create_udp_sess K a p s))) = tun_fds s"
  "udp_fd (snd (snd (create_udp_sess K a p s))) = udp_fd s"
  "length (sess_arr (snd (snd (create_udp_sess K a p s)))) = length (sess_arr s)"
  "epl_threads (snd (snd (create_udp_sess K a p s))) = epl_threads s"
  "n_on_threads (snd (snd (create_udp_sess K a p s))) = n_on_threads s"
  "zr_is_online (snd (snd (create_udp_sess K a p s))) = zr_is_online s"
  "threads_wont_exit (snd (snd (create_udp_sess K a p s))) = threads_wont_exit s"
  "zr_pkt (snd (snd (create_udp_sess K a p s))) = zr_pkt s"
  "stop (snd (snd (create_udp_sess K a p s))) = stop s"
  by (simp_all add: create_udp_sess_def Let_def split_def frame split: option.split)

section \<open>Deleting a session\<close>

lemma delete_frame [frame]:
  "cfg (snd (delete_udp_session i s)) = cfg s"
  "ipv4_map (snd (delete_udp_session i s)) = ipv4_map s"
  "io (snd (delete_udp_session i s)) = io s"
  "tick (snd (delete_udp_session i s)) = tick s"
  "udp_fd (snd (delete_udp_session i s)) = udp_fd s"
  "tun_fds (snd (delete_udp_session i s)) = tun_fds s"
  "epl_threads (snd (delete_udp_session i s)) = epl_threads s"
  "n_on_threads (snd (delete_udp_session i s)) = n_on_threads s"
  "zr_is_online (snd (delete_udp_session i s)) = zr_is_online s"
  "threads_wont_exit (snd (delete_udp_session i s)) = threads_wont_exit s"
  "zr_pkt (snd (delete_udp_session i s)) = zr_pkt s"
  "stop (snd (delete_udp_session i s)) = stop s"
  "sess_arr (snd (delete_udp_session i s))
     = (sess_arr s)[i := reset_udp_session (idx (sess_arr s ! i))]"
  by (simp_all add: delete_udp_session_def remove_sess_from_bkt_def Let_def frame
      split: prod.splits option.splits)

text \<open>The state after the slot is back on the stack, its cell unlinked and its record reset.\<close>

lemma slots_ok_delete:
  assumes ok: "slots_ok s" and i: "i \<in> conn s"
    and arr: "sess_arr s' = (sess_arr s)[i := reset_udp_session (idx (sess_arr s ! i))]"
    and stk: "stk_ok (sess_stk s')" "stk_list (sess_stk s') = word_of_nat i # stk_list (sess_stk s)"
      "max_sp (sess_stk s') = max_sp (sess_stk s)"
    and c: "conn s' = conn s - {i}" and cf: "cfg s' = cfg s"
  shows "slots_ok s'"
proof -
  have il: "i < length (sess_arr s)" using i by (rule conn_less)
  have free: "unat ` set (stk_list (sess_stk s)) = {i. i < length (sess_arr s)} - conn s"
    and d: "distinct (stk_list (sess_stk s))" using ok by (simp_all add: slots_ok_def)
  have ui: "unat (word_of_nat i :: u16) = i" using ok il by (rule unat_slot)
  have "(word_of_nat i :: u16) \<notin> set (stk_list (sess_stk s))"
  proof
    assume "(word_of_nat i :: u16) \<in> set (stk_list (sess_stk s))"
    then have "i \<in> unat ` set (stk_list (sess_stk s))" using ui by force
    then show False using i by (simp add: free)
  qed
  moreover have "unat ` set (stk_list (sess_stk s')) = insert i ({j. j < length (sess_arr s)} - conn s)"
    unfolding free [symmetric] stk(2) by (simp add: ui)
  moreover have "insert i ({j. j < length (sess_arr s)} - conn s) = {j. j < length (sess_arr s')} - conn s'"
    using i il by (auto simp: c arr)
  moreover have "idx (sess_arr s' ! j) = word_of_nat j" if "j < length (sess_arr s')" for j
    using that ok by (cases "j = i") (simp_all add: slots_ok_def arr)
  ultimately show ?thesis
    using ok stk cf d by (simp add: slots_ok_def arr)
qed

lemma sess_inv_delete:
  assumes inv: "sess_inv s" and i: "i \<in> conn s"
    and arr: "sess_arr s' = (sess_arr s)[i := reset_udp_session (idx (sess_arr s ! i))]"
    and stk: "stk_ok (sess_stk s')" "stk_list (sess_stk s') = word_of_nat i # stk_list (sess_stk s)"
      "max_sp (sess_stk s') = max_sp (sess_stk s)"
    and mp: "sess_map s' \<noteq> None" "\<And>x y. bkt_wf (smap s' x y)"
      "\<And>x y. chain (smap s' x y) = remove1 i (chain (smap s x y))"
    and rest: "n_on_sess s' = n_on_sess s - 1" "cfg s' = cfg s"
  shows "sess_inv s' \<and> conn s' = conn s - {i}"
proof -
  have ok: "slots_ok s" and mo: "map_ok s" and ko: "keys_ok s" and co: "count_ok s"
    using inv by (simp_all add: sess_inv_def)
  have il: "i < length (sess_arr s)" using i by (rule conn_less)
  have c: "conn s' = conn s - {i}"
    by (auto simp: conn_def arr nth_upd split: if_splits)
  have k: "sess_key s' j = sess_key s j" if "j \<noteq> i" for j
    using that by (simp add: sess_key_def arr)
  have b: "in_bkt s' x = in_bkt s x - {i}" for x
    using k by (auto simp: in_bkt_def c sess_key_def)
  have "slots_ok s'" by (rule slots_ok_delete [OF ok i arr stk c rest(2)])
  moreover have "map_ok s'"
    unfolding map_ok_def
  proof (intro conjI allI)
    fix x y
    have m: "distinct (chain (smap s x y))" "set (chain (smap s x y)) = in_bkt s (x, y)"
      using mo by (simp_all add: map_ok_def)
    show "distinct (chain (smap s' x y))" "set (chain (smap s' x y)) = in_bkt s' (x, y)"
      using m by (simp_all add: mp(3) b set_remove1_eq)
  qed (fact mp)+
  moreover have "keys_ok s'"
    using ko k by (auto simp: keys_ok_def c inj_on_def)
  moreover have "count_ok s'"
  proof -
    have n: "unat (n_on_sess s) = Suc (card (conn s - {i}))"
      using co card.remove [OF finite_conn i] by (simp add: count_ok_def)
    then have "1 \<le> n_on_sess s" by (simp add: word_le_nat_alt)
    then show ?thesis using n by (simp add: count_ok_def c rest(1) unat_sub)
  qed
  ultimately show ?thesis using c by (simp add: sess_inv_def)
qed

lemma push_delete_room:
  assumes inv: "sess_inv s" and i: "i \<in> conn s"
  shows "\<exists>stk. bt_stack_push (sess_stk s) (idx (sess_arr s ! i)) = (int i, stk) \<and> stk_ok stk
    \<and> stk_list stk = word_of_nat i # stk_list (sess_stk s) \<and> max_sp stk = max_sp (sess_stk s)"
proof -
  have ok: "slots_ok s" using inv by (simp add: sess_inv_def)
  have il: "i < length (sess_arr s)" using i by (rule conn_less)
  have ix: "idx (sess_arr s ! i) = word_of_nat i" using ok il by (simp add: slots_ok_def)
  have "length (stk_list (sess_stk s)) = card (unat ` set (stk_list (sess_stk s)))"
  proof -
    have "inj_on unat (set (stk_list (sess_stk s)))" by (simp add: inj_on_def word_unat_eq_iff)
    moreover have "distinct (stk_list (sess_stk s))" using ok by (simp add: slots_ok_def)
    ultimately show ?thesis by (simp add: card_image distinct_card)
  qed
  also have "\<dots> < card {j. j < length (sess_arr s)}"
    using ok i il by (intro psubset_card_mono) (auto simp: slots_ok_def)
  finally have "length (stk_list (sess_stk s)) \<noteq> unat (max_sp (sess_stk s))"
    using ok by (simp add: slots_ok_def)
  from bt.push_room [OF _ this, of "word_of_nat i"] ok obtain stk where
    "bt_stack_push (sess_stk s) (word_of_nat i) = (uint (word_of_nat i :: u16), stk)" "stk_ok stk"
    "stk_list stk = word_of_nat i # stk_list (sess_stk s)" "max_sp stk = max_sp (sess_stk s)"
    by (auto simp: slots_ok_def word_unat_eq_iff [symmetric])
  moreover have "uint (word_of_nat i :: u16) = int i"
    using unat_slot [OF ok il] by (metis uint_nat)
  ultimately show ?thesis using ix by simp
qed

text \<open>
  Deleting a connected session: the push on the free stack, a \<open>BUG_ON\<close> in the code, never
  fails, the session is found in its bucket, and the table loses exactly that session.
\<close>

lemma delete_spec:
  assumes inv: "sess_inv s" and i: "i \<in> conn s"
  shows "fst (bt_stack_push (sess_stk s) (idx (sess_arr s ! i))) \<noteq> -1
    \<and> fst (delete_udp_session i s) = 0 \<and> sess_inv (snd (delete_udp_session i s))
    \<and> conn (snd (delete_udp_session i s)) = conn s - {i}"
proof -
  from push_delete_room [OF assms] obtain stk where
    p: "bt_stack_push (sess_stk s) (idx (sess_arr s ! i)) = (int i, stk)" and
    stk: "stk_ok stk" "stk_list stk = word_of_nat i # stk_list (sess_stk s)"
      "max_sp stk = max_sp (sess_stk s)" by auto
  obtain i1 i2 where ab: "addr_to_bkt (src_addr (sess_arr s ! i)) = (i1, i2)" by fastforce
  have mo: "map_ok s" using inv by (simp add: sess_inv_def)
  have "i \<in> set (chain (smap s i1 i2))" using mo i ab by (simp add: map_ok_def in_bkt_def)
  moreover have "bkt_wf (smap s i1 i2)" using mo by (simp add: map_ok_def)
  ultimately obtain b where b: "bkt_remove i (smap s i1 i2) = Some b"
      "chain b = remove1 i (chain (smap s i1 i2))" "bkt_wf b"
    using remove_Some by blast
  obtain m where m: "sess_map s = Some m" using mo by (auto simp: map_ok_def)
  define s' where "s' = snd (delete_udp_session i s)"
  have sm1: "smap (s\<lparr>sess_stk := stk\<rparr>) = smap s" by (simp add: smap_def)
  have d: "fst (delete_udp_session i s) = 0" "sess_stk s' = stk"
      "sess_map s' = Some (upd2 (smap s) i1 i2 b)" "n_on_sess s' = n_on_sess s - 1"
    unfolding s'_def
    by (simp_all add: delete_udp_session_def p m remove_sess_from_bkt_def ab b(1) sm1 frame Let_def)
  have nb: "i \<notin> set (chain (smap s x y))" if "(x, y) \<noteq> (i1, i2)" for x y
    using mo ab that by (auto simp: map_ok_def in_bkt_def)
  have "sess_inv s' \<and> conn s' = conn s - {i}"
  proof (rule sess_inv_delete [OF inv i])
    show "bkt_wf (smap s' x y)" for x y
      using mo b(3) by (simp add: smap_Some [OF d(3)] upd2_def map_ok_def)
    show "chain (smap s' x y) = remove1 i (chain (smap s x y))" for x y
      using nb [of x y] b(2) by (auto simp: smap_Some [OF d(3)] upd2_def remove1_idem)
  qed (simp_all add: d stk, simp_all add: s'_def frame)
  then show ?thesis using d(1) p by (simp add: s'_def)
qed

section \<open>The table as a finite map\<close>

text \<open>
  The abstract view: a map from client addresses to slots.  The locale states what a client
  of the table relies on; the interpretation discharges it for the operations above.
\<close>

definition sess_abs :: "srv_udp_state \<Rightarrow> u32 \<times> u16 \<Rightarrow> nat option" where
  "sess_abs s = (\<lambda>(a, p). lookup_udp_sess s a p)"

locale session_table =
  fixes lookup :: "'s \<Rightarrow> 'k \<Rightarrow> nat option"
    and create :: "'k \<Rightarrow> 's \<Rightarrow> nat option \<times> 's"
    and delete :: "nat \<Rightarrow> 's \<Rightarrow> 's"
    and live :: "'s \<Rightarrow> nat set"
    and ok :: "'s \<Rightarrow> bool"
  assumes lookup_live: "ok s \<Longrightarrow> lookup s k = Some i \<Longrightarrow> i \<in> live s"
    and lookup_inj: "ok s \<Longrightarrow> lookup s k = Some i \<Longrightarrow> lookup s l = Some i \<Longrightarrow> k = l"
    and live_lookup: "ok s \<Longrightarrow> i \<in> live s \<Longrightarrow> \<exists>k. lookup s k = Some i"
    and create_law: "ok s \<Longrightarrow> lookup s k = None \<Longrightarrow> create k s = (Some i, s') \<Longrightarrow>
      ok s' \<and> i \<notin> live s \<and> lookup s' = (lookup s)(k := Some i) \<and> live s' = insert i (live s)"
    and create_fail_law: "ok s \<Longrightarrow> lookup s k = None \<Longrightarrow> create k s = (None, s') \<Longrightarrow>
      ok s' \<and> lookup s' = lookup s \<and> live s' = live s"
    and delete_law: "ok s \<Longrightarrow> i \<in> live s \<Longrightarrow>
      ok (delete i s) \<and> live (delete i s) = live s - {i}
      \<and> (\<forall>k. lookup (delete i s) k = (if lookup s k = Some i then None else lookup s k))"
begin

text \<open>What is created is found, and deleting it gives the table back.\<close>

lemma create_lookup:
  "ok s \<Longrightarrow> lookup s k = None \<Longrightarrow> create k s = (Some i, s') \<Longrightarrow> lookup s' k = Some i"
  using create_law [of s k i s'] by simp

lemma create_delete:
  assumes "ok s" and "lookup s k = None" and "create k s = (Some i, s')"
  shows "ok (delete i s') \<and> lookup (delete i s') = lookup s \<and> live (delete i s') = live s"
proof -
  note c = create_law [OF assms]
  have i: "i \<in> live s'" using c by simp
  note d = delete_law [OF conjunct1 [OF c] i]
  have "lookup (delete i s') l = lookup s l" for l
  proof (cases "l = k")
    case False
    have "lookup s l \<noteq> Some i" using c lookup_live [OF assms(1)] by blast
    then show ?thesis using False by (simp add: d c)
  qed (simp add: d c assms(2))
  then have "lookup (delete i s') = lookup s" by (rule ext)
  then show ?thesis using c by (simp add: d)
qed

end

lemma create_cases:
  assumes "sess_inv s" and "sess_abs s k = None"
  shows "create_full s (create_udp_sess K (fst k) (snd k) s)
    \<or> create_nomem s (create_udp_sess K (fst k) (snd k) s)
    \<or> (\<exists>i. create_done (fst k) (snd k) s i (create_udp_sess K (fst k) (snd k) s))"
  using create_spec [of s "fst k" "snd k" K] assms by (simp add: sess_abs_def split_def)

lemma sess_abs_iff: "sess_inv s \<Longrightarrow> sess_abs s k = Some i \<longleftrightarrow> i \<in> conn s \<and> sess_key s i = k"
  by (cases k) (simp add: sess_abs_def lookup_iff)

lemma sess_abs_eqI:
  assumes "sess_inv s" and "\<And>k i. f k = Some i \<longleftrightarrow> i \<in> conn s \<and> sess_key s i = k"
  shows "sess_abs s = f"
proof
  fix k show "sess_abs s k = f k"
    using sess_abs_iff [OF assms(1), of k] assms(2) [of k] by (metis not_None_eq)
qed

lemma sess_abs_created:
  assumes inv: "sess_inv s" and none: "sess_abs s k = None"
    and d: "create_done (fst k) (snd k) s i (ret, err, s')"
  shows "sess_abs s' = (sess_abs s)(k \<mapsto> i)"
proof (rule sess_abs_eqI)
  show "sess_inv s'" using d by (simp add: create_done_def)
  have d': "i \<notin> conn s" "conn s' = insert i (conn s)" "sess_key s' i = k"
    using d by (simp_all add: create_done_def)
  have k: "sess_key s' j = sess_key s j" if "j \<in> conn s" for j
    using that d by (auto simp: create_done_def sess_key_def conn_def)
  have nk: "sess_key s j \<noteq> k" if "j \<in> conn s" for j
    using sess_abs_iff [OF inv, of k j] none that by simp
  show "((sess_abs s)(k \<mapsto> i)) l = Some j \<longleftrightarrow> j \<in> conn s' \<and> sess_key s' j = l" for l j
    using k d' nk sess_abs_iff [OF inv, of l j] by auto
qed

lemma sess_abs_same:
  assumes inv: "sess_inv s" and st: "same_table s s'"
  shows "sess_abs s' = sess_abs s"
proof (rule sess_abs_eqI)
  show "sess_inv s'" using same_table_inv [OF st] inv by simp
  show "sess_abs s k = Some i \<longleftrightarrow> i \<in> conn s' \<and> sess_key s' i = k" for k i
    using sess_abs_iff [OF inv, of k i] same_table_conn [OF st] st by (auto simp: same_table_def conn_def)
qed

lemma sess_abs_deleted:
  assumes inv: "sess_inv s" and i: "i \<in> conn s"
  shows "sess_abs (snd (delete_udp_session i s)) k
    = (if sess_abs s k = Some i then None else sess_abs s k)"
proof -
  define s' where "s' = snd (delete_udp_session i s)"
  have s': "sess_inv s'" "conn s' = conn s - {i}" using delete_spec [OF assms] by (simp_all add: s'_def)
  have k: "sess_key s' j = sess_key s j" if "j \<noteq> i" for j
    using that by (simp add: sess_key_def s'_def frame)
  have "sess_abs s' = (\<lambda>k. if sess_abs s k = Some i then None else sess_abs s k)"
  proof (rule sess_abs_eqI [OF s'(1)])
    fix l j
    have "sess_abs s l = Some j \<longrightarrow> sess_abs s l = Some i \<longleftrightarrow> j = i" by auto
    then show "(if sess_abs s l = Some i then None else sess_abs s l) = Some j
        \<longleftrightarrow> j \<in> conn s' \<and> sess_key s' j = l"
      using k [of j] sess_abs_iff [OF inv, of l j] sess_abs_iff [OF inv, of l i] s'(2)
      by (cases "j = i") auto
  qed
  then show ?thesis by (simp add: s'_def)
qed

abbreviation create_at :: "kernel \<Rightarrow> u32 \<times> u16 \<Rightarrow> srv_udp_state \<Rightarrow> nat option \<times> srv_udp_state" where
  "create_at K k s \<equiv> (case create_udp_sess K (fst k) (snd k) s of (ret, err, s') \<Rightarrow> (ret, s'))"

interpretation st: session_table sess_abs "create_at K" "\<lambda>i s. snd (delete_udp_session i s)"
  conn sess_inv
  for K
proof
  fix s k i s' l
  assume inv: "sess_inv s"
  show "i \<in> conn s" if "sess_abs s k = Some i" using that by (simp add: sess_abs_iff [OF inv])
  show "k = l" if "sess_abs s k = Some i" "sess_abs s l = Some i"
    using that by (simp add: sess_abs_iff [OF inv])
  show "\<exists>k. sess_abs s k = Some i" if "i \<in> conn s" using that by (simp add: sess_abs_iff [OF inv])
  show "sess_inv s' \<and> i \<notin> conn s \<and> sess_abs s' = (sess_abs s)(k := Some i) \<and> conn s' = insert i (conn s)"
    if n: "sess_abs s k = None" and c: "create_at K k s = (Some i, s')"
  proof -
    obtain err where e: "create_udp_sess K (fst k) (snd k) s = (Some i, err, s')"
      using c by (auto split: prod.splits)
    have d: "create_done (fst k) (snd k) s i (Some i, err, s')"
      using create_cases [OF inv n, of K, unfolded e]
      by (auto simp: create_full_def create_nomem_def) (simp add: create_done_def)
    then show ?thesis using sess_abs_created [OF inv n d] by (simp add: create_done_def)
  qed
  show "sess_inv s' \<and> sess_abs s' = sess_abs s \<and> conn s' = conn s"
    if n: "sess_abs s k = None" and c: "create_at K k s = (None, s')"
  proof -
    obtain err where e: "create_udp_sess K (fst k) (snd k) s = (None, err, s')"
      using c by (auto split: prod.splits)
    have "same_table s s'"
      using create_cases [OF inv n, of K, unfolded e]
      by (elim disjE) (simp_all add: create_full_def create_nomem_def create_done_def)
    then show ?thesis using sess_abs_same [OF inv] same_table_conn same_table_inv inv by blast
  qed
  show "sess_inv (snd (delete_udp_session i s)) \<and> conn (snd (delete_udp_session i s)) = conn s - {i}
      \<and> (\<forall>k. sess_abs (snd (delete_udp_session i s)) k
            = (if sess_abs s k = Some i then None else sess_abs s k))"
    if "i \<in> conn s"
    using delete_spec [OF inv that] sess_abs_deleted [OF inv that] by blast
qed

section \<open>Properties\<close>

text \<open>An empty table of \<open>n\<close> slots, as the initialisation leaves it; used by witnesses.\<close>

definition no_cfg :: srv_cfg where
  "no_cfg = \<lparr>cfg_sys = \<lparr>cfg_file = [], data_dir = [], thread_num = 1, verbose_level = 0\<rparr>,
     cfg_sock = \<lparr>use_encryption = False, backlog = 0, sock_ty = SOCK_UDP, bind_addr = [],
       bind_port = 0, max_conn = 0, event_loop = [], ssl_cert = [], ssl_priv_key = []\<rparr>,
     cfg_iface = \<lparr>iface_dev = [], iface_mtu = 0, iface_iff = empty_if_info\<rparr>\<rparr>"

definition fresh_table :: "u16 \<Rightarrow> srv_udp_state" where
  "fresh_table n = \<lparr>stop = False, in_emergency = False, threads_wont_exit = False,
     need_remove_iff = False, sig = -1, evt_loop = EVTL_NOP, udp_fd = 3,
     cfg = no_cfg\<lparr>cfg_sock := (cfg_sock no_cfg)\<lparr>max_conn := n\<rparr>\<rparr>,
     sess_stk = \<lparr>sp = 0, max_sp = n, arr = map word_of_nat [0..<unat n]\<rparr>,
     sess_map = Some (\<lambda>_ _. Bucket None None),
     sess_arr = map (\<lambda>i. reset_udp_session (word_of_nat i)) [0..<unat n],
     n_on_sess = 0, n_on_threads = 0, tun_fds = [4], ipv4_map = (\<lambda>_ _. 0),
     zr_is_online = False, zr_pkt = None, epl_threads = [], tick = 0, io = []\<rparr>"

lemma fresh_table_inv: "sess_inv (fresh_table n)"
proof -
  let ?s = "fresh_table n"
  have c: "conn ?s = {}" by (auto simp: conn_def fresh_table_def)
  have u: "unat (word_of_nat i :: u16) = i" if "i < unat n" for i
    using that unsigned_less [of n, where 'a = nat] by (simp add: unat_of_nat)
  have "inj_on (word_of_nat :: nat \<Rightarrow> u16) {0..<unat n}"
    by (rule inj_onI) (use u in \<open>metis atLeastLessThan_iff\<close>)
  moreover have "unat ` (word_of_nat :: nat \<Rightarrow> u16) ` {0..<unat n} = {i. i < unat n}"
    using u by (force simp: image_image)
  ultimately have "slots_ok ?s"
    by (simp add: slots_ok_def c) (simp add: fresh_table_def stk_ok_def stk_list_def distinct_map)
  moreover have "map_ok ?s"
    by (simp add: map_ok_def in_bkt_def c) (simp add: fresh_table_def smap_def bkt_wf_def)
  moreover have "keys_ok ?s" "count_ok ?s" by (simp_all add: keys_ok_def count_ok_def c)
    (simp add: fresh_table_def)
  ultimately show ?thesis by (simp add: sess_inv_def)
qed

lemma fresh_table_empty: "sess_abs (fresh_table n) k = None"
  by (simp add: sess_abs_def fresh_table_def lookup_udp_sess_def smap_def split: prod.splits)

text \<open>
  C18: creating a session.  On a table that satisfies the invariant and holds no session of
  the address, \<open>create_udp_sess\<close> keeps the invariant, leaves the route map alone, and
  either enters the address with a slot that was free (\<open>errno\<close> 0), or changes nothing of
  the map and reports \<open>EAGAIN\<close>, exactly when all slots are taken, or \<open>ENOMEM\<close>.
\<close>

theorem create_udp_sess_refines:
  assumes "sess_inv s" and "lookup_udp_sess s a p = None"
    and "create_udp_sess K a p s = (ret, err, s')"
  shows "sess_inv s' \<and> ipv4_map s' = ipv4_map s
    \<and> (case ret of
         Some i \<Rightarrow> err = 0 \<and> i < length (sess_arr s) \<and> i \<notin> conn s
           \<and> conn s' = insert i (conn s) \<and> sess_abs s' = (sess_abs s)((a, p) \<mapsto> i)
       | None \<Rightarrow> sess_abs s' = sess_abs s \<and> conn s' = conn s
           \<and> (err = EAGAIN \<and> conn s = {i. i < length (sess_arr s)} \<or> err = ENOMEM))"
proof -
  have n: "sess_abs s (a, p) = None" using assms(2) by (simp add: sess_abs_def)
  have at: "create_at K (a, p) s = (ret, s')" using assms(3) by simp
  have cs: "create_full s (ret, err, s') \<or> create_nomem s (ret, err, s')
      \<or> (\<exists>i. create_done a p s i (ret, err, s'))"
    using create_spec [OF assms(1,2), of K] assms(3) by simp
  have fr: "ipv4_map s' = ipv4_map s" using create_frame(2) [of K a p s] assms(3) by simp
  show ?thesis
  proof (cases ret)
    case None
    then have "err = EAGAIN \<and> conn s = {i. i < length (sess_arr s)} \<or> err = ENOMEM"
      using cs by (auto simp: create_full_def create_nomem_def create_done_def)
    then show ?thesis using st.create_fail_law [OF assms(1) n] at None fr by simp
  next
    case (Some i)
    then have e: "err = 0" using cs by (auto simp: create_full_def create_nomem_def create_done_def)
    have c: "sess_inv s'" "i \<notin> conn s" "sess_abs s' = (sess_abs s)((a, p) \<mapsto> i)"
        "conn s' = insert i (conn s)"
      using st.create_law [OF assms(1) n] at Some by simp_all
    have "length (sess_arr s') = length (sess_arr s)"
      using cs Some by (auto simp: create_full_def create_nomem_def create_done_def)
    moreover have "i < length (sess_arr s')" using c(4) conn_less [of i s'] by simp
    ultimately show ?thesis using c e Some fr by simp
  qed
qed

lemma fresh_create:
  "fst (create_udp_sess silent_kernel 0x0a000001 5000 (fresh_table 2)) = Some 0"
proof -
  have "bt_stack_pop (sess_stk (fresh_table 2)) = (0, (sess_stk (fresh_table 2))\<lparr>sp := 1\<rparr>)"
    by (simp add: fresh_table_def bt_stack_pop_def)
  moreover have "sess_map (fresh_table 2) = Some (\<lambda>_ _. Bucket None None)"
    by (simp add: fresh_table_def)
  ultimately show ?thesis
    by (simp add: create_udp_sess_def map_insert_udp_sess_def smap_def Let_def frame split: prod.splits)
qed

lemma fresh_lookup: "lookup_udp_sess (fresh_table n) a p = None"
  using fresh_table_empty [of n "(a, p)"] by (simp add: sess_abs_def)

text \<open>Witness of C18: the first client of a fresh table of two slots gets slot 0.\<close>

theorem create_udp_sess_refines_witness:
  "\<exists>err s'. create_udp_sess silent_kernel 0x0a000001 5000 (fresh_table 2) = (Some 0, err, s')
     \<and> err = 0 \<and> sess_inv s' \<and> sess_abs s' (0x0a000001, 5000) = Some 0"
proof -
  obtain err s' where c: "create_udp_sess silent_kernel 0x0a000001 5000 (fresh_table 2) = (Some 0, err, s')"
    using fresh_create by (metis prod.exhaust fst_conv)
  from create_udp_sess_refines [OF fresh_table_inv fresh_lookup c] c show ?thesis by simp
qed

text \<open>
  C19: deleting a session.  Under the invariant, deleting a connected session succeeds
  (the slot fits on the free stack, so the code's \<open>BUG_ON\<close> cannot fire, and the session is
  in its bucket), keeps the invariant, resets the slot, touches no other slot and removes
  exactly the session's address from the map.
\<close>

theorem delete_udp_session_refines:
  assumes "sess_inv s" and "i \<in> conn s" and "delete_udp_session i s = (ret, s')"
  shows "ret = 0 \<and> fst (bt_stack_push (sess_stk s) (idx (sess_arr s ! i))) \<noteq> -1
    \<and> sess_inv s' \<and> conn s' = conn s - {i} \<and> sess_abs s' = (sess_abs s)(sess_key s i := None)
    \<and> sess_arr s' = (sess_arr s)[i := reset_udp_session (word_of_nat i)] \<and> ipv4_map s' = ipv4_map s"
proof -
  have s': "s' = snd (delete_udp_session i s)" "ret = fst (delete_udp_session i s)" using assms(3) by simp_all
  have ix: "idx (sess_arr s ! i) = word_of_nat i"
    using assms(1) conn_less [OF assms(2)] by (simp add: sess_inv_def slots_ok_def)
  have k: "sess_abs s k = Some i \<longleftrightarrow> k = sess_key s i" for k
    using sess_abs_iff [OF assms(1), of k i] assms(2) by auto
  have "sess_abs s' = (sess_abs s)(sess_key s i := None)"
    by (rule ext) (simp add: s' sess_abs_deleted [OF assms(1,2)] k)
  moreover have "sess_arr s' = (sess_arr s)[i := reset_udp_session (word_of_nat i)]"
    by (simp add: s' frame ix)
  ultimately show ?thesis using delete_spec [OF assms(1,2)] s' by (simp add: frame)
qed

text \<open>Witness of C19: the session created in a fresh table is deleted again.\<close>

theorem delete_udp_session_refines_witness:
  "\<exists>s1 s2. create_udp_sess silent_kernel 0x0a000001 5000 (fresh_table 2) = (Some 0, 0, s1)
     \<and> delete_udp_session 0 s1 = (0, s2) \<and> sess_inv s2 \<and> conn s2 = {}"
proof -
  obtain err s1 where c: "create_udp_sess silent_kernel 0x0a000001 5000 (fresh_table 2) = (Some 0, err, s1)"
    using fresh_create by (metis prod.exhaust fst_conv)
  have n: "sess_abs (fresh_table 2) (0x0a000001, 5000) = None" by (rule fresh_table_empty)
  have f: "conn (fresh_table 2) = {}" by (auto simp: conn_def fresh_table_def)
  have d: "create_done 0x0a000001 5000 (fresh_table 2) 0 (Some 0, err, s1)"
    using create_spec [OF fresh_table_inv [of 2] fresh_lookup, of silent_kernel "0x0a000001" 5000] unfolding c
    by (auto simp: create_full_def create_nomem_def) (simp add: create_done_def)
  then have s1: "err = 0" "sess_inv s1" "conn s1 = {0}" using f by (simp_all add: create_done_def)
  obtain ret s2 where e: "delete_udp_session 0 s1 = (ret, s2)" by fastforce
  have "0 \<in> conn s1" using s1 by simp
  from delete_udp_session_refines [OF s1(2) this e] s1 c e show ?thesis by auto
qed

text \<open>
  A session that is created and then deleted leaves the table as it was, seen through
  the map: the same addresses are bound to the same slots, and no slot is lost.
\<close>

theorem create_delete_roundtrip:
  assumes "sess_inv s" and "lookup_udp_sess s a p = None"
    and "create_udp_sess K a p s = (Some i, err, s')"
  shows "lookup_udp_sess s' a p = Some i
    \<and> sess_abs (snd (delete_udp_session i s')) = sess_abs s
    \<and> conn (snd (delete_udp_session i s')) = conn s
    \<and> n_on_sess (snd (delete_udp_session i s')) = n_on_sess s"
proof -
  have n: "sess_abs s (a, p) = None" using assms(2) by (simp add: sess_abs_def)
  have at: "create_at K (a, p) s = (Some i, s')" using assms(3) by simp
  note r = st.create_delete [OF assms(1) n at]
  then have "n_on_sess (snd (delete_udp_session i s')) = n_on_sess s"
    using assms(1) by (simp add: sess_inv_def count_ok_def word_unat_eq_iff)
  moreover have "sess_abs s' (a, p) = Some i" by (rule st.create_lookup [OF assms(1) n at])
  ultimately show ?thesis using r by (simp add: sess_abs_def)
qed

text \<open>An instance: on a fresh table of two slots.\<close>

theorem create_delete_roundtrip_witness:
  "\<exists>err s'. create_udp_sess silent_kernel 0x0a000001 5000 (fresh_table 2) = (Some 0, err, s')
     \<and> conn (snd (delete_udp_session 0 s')) = {}"
proof -
  obtain err s' where c: "create_udp_sess silent_kernel 0x0a000001 5000 (fresh_table 2) = (Some 0, err, s')"
    using fresh_create by (metis prod.exhaust fst_conv)
  have f: "conn (fresh_table 2) = {}" by (auto simp: conn_def fresh_table_def)
  from create_delete_roundtrip [OF fresh_table_inv fresh_lookup c] c f show ?thesis by simp
qed

end
