(* ===== verification/Inih.thy ===== *)
theory Inih
  imports Libc
begin

text \<open>
  The INI parser \<^verbatim>\<open>src/ext/inih/inih.c\<close> in the configuration \<^verbatim>\<open>custom.h\<close> builds it with
  (stack buffer of 200 bytes, multi-line values, inline comments, no stop on the first
  error).  A stream is the text that is left to read; a handler is a function on the user
  data that returns its C result and the new user data.  Pointers into the line buffer are
  suffixes of the line, and writing a NUL at such a pointer is taking the prefix before it.
\<close>

section \<open>Line scanning\<close>

abbreviation INI_MAX_LINE :: nat where "INI_MAX_LINE \<equiv> 200"
abbreviation MAX_SECTION :: nat where "MAX_SECTION \<equiv> 50"
abbreviation MAX_NAME :: nat where "MAX_NAME \<equiv> 50"

abbreviation NL :: char where "NL \<equiv> CHR 0x0A"
abbreviation NUL :: char where "NUL \<equiv> CHR 0x00"

definition rstrip :: "string \<Rightarrow> string" where
  "rstrip s = rev (dropWhile isspace (rev s))"

definition lskip :: "string \<Rightarrow> string" where
  "lskip s = dropWhile isspace s"

fun find_chars_or_comment :: "bool \<Rightarrow> string \<Rightarrow> string \<Rightarrow> string" where
  "find_chars_or_comment was_space chars [] = []"
| "find_chars_or_comment was_space chars (c # s) =
     (if c \<in> set chars \<or> (was_space \<and> c = CHR '';'') then c # s
      else find_chars_or_comment (isspace c) chars s)"

definition strncpy0 :: "string \<Rightarrow> nat \<Rightarrow> string" where
  "strncpy0 src n = take (n - 1) src"

text \<open>What lies before the suffix \<open>e\<close> of \<open>s\<close>.\<close>

definition upto_ptr :: "string \<Rightarrow> string \<Rightarrow> string" where
  "upto_ptr s e = take (length s - length e) s"

text \<open>
  \<^verbatim>\<open>fgets(line, n, stream)\<close>, and \<open>ini_reader_string\<close> which imitates it: up to \<open>n - 1\<close>
  characters, ending after a newline.
\<close>

fun ini_reader_string :: "nat \<Rightarrow> string \<Rightarrow> string \<times> string" where
  "ini_reader_string num [] = ([], [])"
| "ini_reader_string num (c # s) =
     (if num \<le> 1 then ([], c # s)
      else if c = NL then ([c], s)
      else case ini_reader_string (num - 1) s of (l, r) \<Rightarrow> (c # l, r))"

section \<open>The parser\<close>

record 'u ini_state =
  ini_section :: string
  ini_prev_name :: string
  ini_lineno :: int
  ini_error :: int
  ini_user :: 'u

type_synonym 'u ini_handler = "'u \<Rightarrow> string \<Rightarrow> string \<Rightarrow> string \<Rightarrow> int \<Rightarrow> int \<times> 'u"

text \<open>\<^verbatim>\<open>if (!HANDLER(user, section, name, value) && !error) error = lineno;\<close>\<close>

definition ini_call :: "'u ini_handler \<Rightarrow> string \<Rightarrow> string \<Rightarrow> 'u ini_state \<Rightarrow> 'u ini_state" where
  "ini_call h name val st =
     (case h (ini_user st) (ini_section st) name val (ini_lineno st) of
        (r, u) \<Rightarrow> st\<lparr>ini_user := u,
          ini_error := (if r = 0 \<and> ini_error st = 0 then ini_lineno st else ini_error st)\<rparr>)"

definition ini_fail :: "'u ini_state \<Rightarrow> 'u ini_state" where
  "ini_fail st = st\<lparr>ini_error := (if ini_error st = 0 then ini_lineno st else ini_error st)\<rparr>"

definition skip_bom :: "int \<Rightarrow> string \<Rightarrow> string" where
  "skip_bom lineno s =
     (if lineno = 1 \<and> take 3 s = [CHR 0xEF, CHR 0xBB, CHR 0xBF] then drop 3 s else s)"

text \<open>One iteration of the loop; \<open>line\<close> is the C string in the buffer.\<close>

definition ini_parse_line :: "'u ini_handler \<Rightarrow> string \<Rightarrow> 'u ini_state \<Rightarrow> 'u ini_state" where
  "ini_parse_line h line st0 =
     (let st = st0\<lparr>ini_lineno := ini_lineno st0 + 1\<rparr>;
          buf = skip_bom (ini_lineno st) line;
          start = lskip (rstrip buf)
      in case start of
           [] \<Rightarrow> st
         | c # cs \<Rightarrow>
             if c = CHR '';'' \<or> c = CHR ''#'' then st
             else if ini_prev_name st \<noteq> [] \<and> (buf \<noteq> line \<or> isspace (hd buf)) then
               ini_call h (ini_prev_name st) start st
             else if c = CHR ''['' then
               (let e = find_chars_or_comment False '']'' cs in
                if e \<noteq> [] \<and> hd e = CHR '']'' then
                  st\<lparr>ini_section := strncpy0 (upto_ptr cs e) MAX_SECTION, ini_prev_name := []\<rparr>
                else ini_fail st)
             else
               (let e = find_chars_or_comment False ''=:'' start in
                if e \<noteq> [] \<and> (hd e = CHR ''='' \<or> hd e = CHR '':'') then
                  (let name = rstrip (upto_ptr start e);
                       v = tl e;
                       value = rstrip (lskip (upto_ptr v (find_chars_or_comment False [] v)))
                   in ini_call h name value (st\<lparr>ini_prev_name := strncpy0 name MAX_NAME\<rparr>))
                else ini_fail st))"

lemma ini_reader_length:
  "length (fst (ini_reader_string num s)) + length (snd (ini_reader_string num s)) = length s"
  by (induction num s rule: ini_reader_string.induct) (auto split: prod.splits)

lemma ini_reader_progress:
  "1 < num \<Longrightarrow> s \<noteq> [] \<Longrightarrow> length (snd (ini_reader_string num s)) < length s"
  using ini_reader_length [of num s] by (cases s) (auto split: prod.splits)

text \<open>
  A NUL byte of the file ends the C string in the buffer before the line does.
\<close>

function ini_loop :: "'u ini_handler \<Rightarrow> string \<Rightarrow> 'u ini_state \<Rightarrow> 'u ini_state" where
  "ini_loop h s st =
     (if s = [] then st
      else case ini_reader_string INI_MAX_LINE s of
        (l, r) \<Rightarrow> ini_loop h r (ini_parse_line h (takeWhile (\<lambda>c. c \<noteq> NUL) l) st))"
  by auto
termination
  by (relation "measure (\<lambda>(h, s, st). length s)")
    (use ini_reader_progress [of INI_MAX_LINE] in \<open>auto split: prod.splits\<close>, metis snd_conv)

declare ini_loop.simps [simp del]

definition ini_parse_stream :: "'u ini_handler \<Rightarrow> string \<Rightarrow> 'u \<Rightarrow> int \<times> 'u" where
  "ini_parse_stream h s u =
     (let st = ini_loop h s \<lparr>ini_section = [], ini_prev_name = [], ini_lineno = 0, ini_error = 0,
                ini_user = u\<rparr>
      in (ini_error st, ini_user st))"

definition ini_parse_file :: "string \<Rightarrow> 'u ini_handler \<Rightarrow> 'u \<Rightarrow> int \<times> 'u" where
  "ini_parse_file f h u = ini_parse_stream h f u"

text \<open>\<open>fopen\<close> gives the contents of the file or an error.\<close>

definition ini_parse :: "(string \<Rightarrow> int + string) \<Rightarrow> string \<Rightarrow> 'u ini_handler \<Rightarrow> 'u \<Rightarrow> int \<times> 'u" where
  "ini_parse fopen filename h u =
     (case fopen filename of Inl e \<Rightarrow> (-1, u) | Inr f \<Rightarrow> ini_parse_file f h u)"

definition ini_parse_string :: "string \<Rightarrow> 'u ini_handler \<Rightarrow> 'u \<Rightarrow> int \<times> 'u" where
  "ini_parse_string s h u = ini_parse_stream h (takeWhile (\<lambda>c. c \<noteq> NUL) s) u"

section \<open>Printing and parsing back\<close>

text \<open>
  A canonical INI text is a list of section headers and entries, one per line.  \<open>ini_run\<close> is
  what a client expects of the parser: the handler is called for each entry in order, with the
  section of the last header and the line number, and the first line whose call returned zero
  is remembered.
\<close>

datatype ini_item = Sec string | Ent string string

fun item_text :: "ini_item \<Rightarrow> string" where
  "item_text (Sec s) = CHR ''['' # s @ '']''"
| "item_text (Ent n v) = n @ ''='' @ v"

definition ini_print :: "ini_item list \<Rightarrow> string" where
  "ini_print is = concat (map (\<lambda>i. item_text i @ [NL]) is)"

fun ini_run :: "'u ini_handler \<Rightarrow> string \<Rightarrow> int \<Rightarrow> int \<Rightarrow> ini_item list \<Rightarrow> 'u \<Rightarrow> int \<times> 'u" where
  "ini_run h sec ln err [] u = (err, u)"
| "ini_run h sec ln err (Sec s # is) u = ini_run h s (ln + 1) err is u"
| "ini_run h sec ln err (Ent n v # is) u =
     (case h u sec n v (ln + 1) of
        (r, u') \<Rightarrow> ini_run h sec (ln + 1) (if r = 0 \<and> err = 0 then ln + 1 else err) is u')"

definition trimmed :: "string \<Rightarrow> bool" where
  "trimmed s \<longleftrightarrow> s = [] \<or> (\<not> isspace (hd s) \<and> \<not> isspace (last s))"

definition plain :: "string \<Rightarrow> bool" where
  "plain s \<longleftrightarrow> set s \<inter> {NL, NUL, CHR '';''} = {}"

text \<open>Items whose text the parser reads back: no metacharacters, and the line fits the buffer.\<close>

fun item_ok :: "ini_item \<Rightarrow> bool" where
  "item_ok (Sec s) \<longleftrightarrow> plain s \<and> CHR '']'' \<notin> set s \<and> length s < MAX_SECTION"
| "item_ok (Ent n v) \<longleftrightarrow> plain n \<and> plain v \<and> trimmed n \<and> trimmed v \<and> n \<noteq> []
     \<and> hd n \<notin> {CHR ''#'', CHR ''['', CHR 0xEF} \<and> set n \<inter> {CHR ''='', CHR '':''} = {}
     \<and> length n + length v + 2 < INI_MAX_LINE"

lemma rstrip_trimmed [simp]: "trimmed s \<Longrightarrow> rstrip s = s"
  by (cases s rule: rev_cases) (auto simp: rstrip_def trimmed_def)

lemma lskip_trimmed [simp]: "trimmed s \<Longrightarrow> lskip s = s"
  by (cases s) (auto simp: lskip_def trimmed_def)

lemma rstrip_NL [simp]: "rstrip (s @ [NL]) = rstrip s"
  by (simp add: rstrip_def isspace_def)

lemma find_plain:
  "set s \<inter> set chars = {} \<Longrightarrow> plain s \<Longrightarrow> c \<in> set chars \<Longrightarrow>
   find_chars_or_comment b chars (s @ c # r) = c # r"
  by (induction s arbitrary: b) (auto simp: plain_def)

lemma find_plain_none: "plain s \<Longrightarrow> find_chars_or_comment b [] s = []"
  by (induction s arbitrary: b) (auto simp: plain_def)

lemma upto_ptr_append [simp]: "upto_ptr (s @ e) e = s"
  by (simp add: upto_ptr_def)

lemma upto_ptr_Nil [simp]: "upto_ptr s [] = s"
  by (simp add: upto_ptr_def)

lemma ini_reader_line:
  "NL \<notin> set l \<Longrightarrow> length l + 1 < num \<Longrightarrow> ini_reader_string num (l @ NL # r) = (l @ [NL], r)"
  by (induction l arbitrary: num) auto

lemma no_bom: "l \<noteq> [] \<Longrightarrow> hd l \<noteq> CHR 0xEF \<Longrightarrow> skip_bom k l = l"
  by (cases l) (auto simp: skip_bom_def)

text \<open>One line of each kind.\<close>

lemma parse_line_sec:
  assumes "item_ok (Sec s)"
  shows "ini_parse_line h (item_text (Sec s) @ [NL]) st
    = st\<lparr>ini_lineno := ini_lineno st + 1, ini_section := s, ini_prev_name := []\<rparr>"
proof -
  have t: "trimmed (CHR ''['' # s @ '']'')" by (simp add: trimmed_def isspace_def)
  have "find_chars_or_comment False '']'' (s @ '']'') = '']''"
    using assms find_plain [of s "'']''" "CHR '']''" False "[]"] by simp
  moreover have "take 49 s = s" using assms by simp
  moreover have "lskip (rstrip (CHR ''['' # s @ '']'' @ [NL])) = CHR ''['' # s @ '']''"
    using rstrip_NL [of "CHR ''['' # s @ '']''"] t by simp
  ultimately show ?thesis
    by (simp add: ini_parse_line_def no_bom strncpy0_def isspace_def Let_def)
qed

lemma parse_line_ent:
  assumes ok: "item_ok (Ent n v)"
  shows "ini_parse_line h (item_text (Ent n v) @ [NL]) st
    = ini_call h n v (st\<lparr>ini_lineno := ini_lineno st + 1, ini_prev_name := take 49 n\<rparr>)"
proof -
  obtain c cs where n: "n = c # cs" using ok by (cases n) auto
  have c: "c \<noteq> CHR ''#''" "c \<noteq> CHR ''[''" "c \<noteq> CHR 0xEF" "c \<noteq> CHR '';''" "\<not> isspace c"
    using ok n by (auto simp: plain_def trimmed_def)
  have t: "trimmed (n @ ''='' @ v)"
    using ok n by (cases "v = []") (auto simp: trimmed_def isspace_def)
  then have ls: "lskip (rstrip (n @ ''='' @ v @ [NL])) = n @ ''='' @ v"
    using rstrip_NL [of "n @ ''='' @ v"] by simp
  have f: "find_chars_or_comment False ''=:'' (n @ ''='' @ v) = ''='' @ v"
    using ok find_plain [of n "''=:''" "CHR ''=''" False v] by auto
  have v: "find_chars_or_comment False [] v = []" using ok find_plain_none by simp
  have b: "skip_bom k (n @ ''='' @ v @ [NL]) = n @ ''='' @ v @ [NL]" for k
    using c by (simp add: no_bom n)
  have nv: "rstrip n = n" "rstrip (lskip v) = v" using ok by simp_all
  show ?thesis
    using c ls f v b nv upto_ptr_append [of n "''='' @ v"]
    by (simp add: ini_parse_line_def n strncpy0_def Let_def)
qed

lemma item_text_line:
  assumes "item_ok i"
  shows "NL \<notin> set (item_text i)" "NUL \<notin> set (item_text i)" "length (item_text i) + 1 < INI_MAX_LINE"
  using assms by (cases i; auto simp: plain_def)+

lemma ini_loop_print:
  "list_all item_ok is \<Longrightarrow>
   (let st' = ini_loop h (ini_print is) st in (ini_error st', ini_user st'))
     = ini_run h (ini_section st) (ini_lineno st) (ini_error st) is (ini_user st)"
proof (induction "is" arbitrary: st)
  case Nil
  then show ?case by (simp add: ini_print_def ini_loop.simps)
next
  case (Cons i "is")
  then have ok: "item_ok i" by simp
  note l = item_text_line [OF ok]
  have rd: "ini_reader_string INI_MAX_LINE (item_text i @ NL # ini_print is) = (item_text i @ [NL], ini_print is)"
    using l by (intro ini_reader_line)
  have nn: "takeWhile (\<lambda>c. c \<noteq> NUL) (item_text i @ [NL]) = item_text i @ [NL]"
    using l(2) by (subst takeWhile_eq_all_conv) auto
  have step: "ini_loop h (ini_print (i # is)) st
      = ini_loop h (ini_print is) (ini_parse_line h (item_text i @ [NL]) st)"
    using rd nn by (subst ini_loop.simps) (simp add: ini_print_def)
  show ?case
  proof (cases i)
    case (Sec s)
    then show ?thesis
      using Cons.IH [of "st\<lparr>ini_lineno := ini_lineno st + 1, ini_section := s, ini_prev_name := []\<rparr>"]
        Cons.prems ok step parse_line_sec [of s h st] by simp
  next
    case (Ent n v)
    obtain r u where hr: "h (ini_user st) (ini_section st) n v (ini_lineno st + 1) = (r, u)" by fastforce
    then show ?thesis
      using Ent Cons.prems ok step parse_line_ent [of n v h st]
        Cons.IH [of "ini_call h n v (st\<lparr>ini_lineno := ini_lineno st + 1, ini_prev_name := take 49 n\<rparr>)"]
      by (simp add: ini_call_def)
  qed
qed

lemma ini_parse_print:
  "list_all item_ok is \<Longrightarrow> ini_parse_stream h (ini_print is) u = ini_run h [] 0 0 is u"
  using ini_loop_print [of "is" h "\<lparr>ini_section = [], ini_prev_name = [], ini_lineno = 0,
    ini_error = 0, ini_user = u\<rparr>"] by (simp add: ini_parse_stream_def Let_def)

section \<open>What a handler can rely on\<close>

text \<open>
  The names and values a handler gets are C strings.  A property of the user data that every
  call with such strings keeps therefore holds after the parse, whatever the text.
\<close>

lemma no_nul_rstrip [simp]: "no_nul s \<Longrightarrow> no_nul (rstrip s)"
  using set_dropWhileD [of _ isspace "rev s"] by (auto simp: no_nul_def rstrip_def)

lemma no_nul_lskip [simp]: "no_nul s \<Longrightarrow> no_nul (lskip s)"
  using set_dropWhileD [of _ isspace s] by (auto simp: no_nul_def lskip_def)

lemma no_nul_upto_ptr [simp]: "no_nul s \<Longrightarrow> no_nul (upto_ptr s e)"
  by (simp add: upto_ptr_def)

lemma no_nul_drop [simp]: "no_nul s \<Longrightarrow> no_nul (drop n s)"
  by (auto simp: no_nul_def dest: in_set_dropD)

lemma no_nul_Cons: "no_nul (c # s) \<longleftrightarrow> c \<noteq> NUL \<and> no_nul s"
  by (auto simp: no_nul_def)

lemma no_nul_tl [simp]: "no_nul s \<Longrightarrow> no_nul (tl s)"
  by (cases s) (auto simp: no_nul_def)

lemma no_nul_find [simp]: "no_nul s \<Longrightarrow> no_nul (find_chars_or_comment b cs s)"
  by (induction b cs s rule: find_chars_or_comment.induct) (auto simp: no_nul_Cons)

lemma no_nul_skip_bom [simp]: "no_nul s \<Longrightarrow> no_nul (skip_bom k s)"
  by (simp add: skip_bom_def)

definition keeps :: "'u ini_handler \<Rightarrow> ('u \<Rightarrow> bool) \<Rightarrow> bool" where
  "keeps h P \<longleftrightarrow> (\<forall>u s n v l. P u \<longrightarrow> no_nul n \<longrightarrow> no_nul v \<longrightarrow> P (snd (h u s n v l)))"

lemma ini_call_keeps:
  assumes "keeps h P" "P (ini_user st)" "no_nul n" "no_nul v"
  shows "P (ini_user (ini_call h n v st)) \<and> ini_prev_name (ini_call h n v st) = ini_prev_name st"
proof -
  obtain r u where hr: "h (ini_user st) (ini_section st) n v (ini_lineno st) = (r, u)" by fastforce
  have "P (snd (h (ini_user st) (ini_section st) n v (ini_lineno st)))"
    using assms by (simp add: keeps_def)
  with hr show ?thesis by (simp add: ini_call_def)
qed

lemma ini_parse_line_keeps:
  assumes k: "keeps h P" and u: "P (ini_user st)" and pn: "no_nul (ini_prev_name st)" and l: "no_nul l"
  shows "P (ini_user (ini_parse_line h l st)) \<and> no_nul (ini_prev_name (ini_parse_line h l st))"
proof -
  define st1 where "st1 = st\<lparr>ini_lineno := ini_lineno st + 1\<rparr>"
  define buf where "buf = skip_bom (ini_lineno st1) l"
  define start where "start = lskip (rstrip buf)"
  have s: "P (ini_user st1)" "no_nul (ini_prev_name st1)" using u pn by (simp_all add: st1_def)
  have nb: "no_nul start" using l by (simp add: start_def buf_def)
  show ?thesis
  proof (cases start)
    case Nil
    then show ?thesis using s by (simp add: ini_parse_line_def st1_def buf_def start_def Let_def)
  next
    case (Cons c cs)
    have eq: "ini_parse_line h l st =
        (if c = CHR '';'' \<or> c = CHR ''#'' then st1
         else if ini_prev_name st1 \<noteq> [] \<and> (buf \<noteq> l \<or> isspace (hd buf)) then
           ini_call h (ini_prev_name st1) start st1
         else if c = CHR ''['' then
           (let e = find_chars_or_comment False '']'' cs in
            if e \<noteq> [] \<and> hd e = CHR '']'' then
              st1\<lparr>ini_section := strncpy0 (upto_ptr cs e) MAX_SECTION, ini_prev_name := []\<rparr>
            else ini_fail st1)
         else
           (let e = find_chars_or_comment False ''=:'' start in
            if e \<noteq> [] \<and> (hd e = CHR ''='' \<or> hd e = CHR '':'') then
              (let name = rstrip (upto_ptr start e);
                   v = tl e;
                   value = rstrip (lskip (upto_ptr v (find_chars_or_comment False [] v)))
               in ini_call h name value (st1\<lparr>ini_prev_name := strncpy0 name MAX_NAME\<rparr>))
            else ini_fail st1))"
      using Cons by (simp add: ini_parse_line_def st1_def buf_def start_def Let_def)
    show ?thesis
      using s nb ini_call_keeps [OF k] by (simp add: eq Let_def ini_fail_def strncpy0_def no_nul_def [of "[]"])
  qed
qed

lemma ini_loop_keeps:
  assumes "keeps h P" "P (ini_user st)" "no_nul (ini_prev_name st)"
  shows "P (ini_user (ini_loop h s st))"
  using assms
proof (induction h s st rule: ini_loop.induct)
  case (1 h s st)
  show ?case
  proof (cases "s = []")
    case False
    obtain l r where lr: "ini_reader_string INI_MAX_LINE s = (l, r)" by fastforce
    have "no_nul (takeWhile (\<lambda>c. c \<noteq> NUL) l)" by (auto simp: no_nul_def dest: set_takeWhileD)
    from ini_parse_line_keeps [OF 1(2,3,4) this] 1(1) [OF False] lr 1(2) show ?thesis
      using False by (subst ini_loop.simps) simp
  qed (use 1 in \<open>simp add: ini_loop.simps\<close>)
qed

lemma ini_parse_keeps: "keeps h P \<Longrightarrow> P u \<Longrightarrow> P (snd (ini_parse_stream h s u))"
  using ini_loop_keeps [of h P "\<lparr>ini_section = [], ini_prev_name = [], ini_lineno = 0,
      ini_error = 0, ini_user = u\<rparr>" s]
  by (simp add: ini_parse_stream_def Let_def no_nul_def)

section \<open>Properties\<close>

text \<open>
  C25: the parser reads back what is printed.  For every list of section headers and entries
  without metacharacters whose lines fit the line buffer, and every handler, parsing the
  printed text calls the handler on exactly these entries, in order, each with its section and
  line number, and returns the first line whose call failed (0 if none did).
\<close>

theorem ini_roundtrip:
  assumes "list_all item_ok is"
  shows "ini_parse_file (ini_print is) h u = ini_run h [] 0 0 is u"
  using ini_parse_print [OF assms] by (simp add: ini_parse_file_def)

text \<open>Witness of C25: the user file of the sample configuration.\<close>

theorem ini_roundtrip_witness:
  "ini_parse_file (ini_print [Sec ''auth'', Ent ''username'' ''a'', Ent ''password'' ''pw'',
       Sec ''iface'', Ent ''mtu'' ''1470''])
     (\<lambda>u s n v l. (1, u @ [(s, n, v)])) []
   = (0, [(''auth'', ''username'', ''a''), (''auth'', ''password'', ''pw''), (''iface'', ''mtu'', ''1470'')])"
  by (subst ini_roundtrip) (simp_all add: plain_def trimmed_def isspace_def)

end
