(* ===== verification/Auth.thy ===== *)
theory Auth
  imports Inih Packet
begin

text \<open>
  User authentication, \<^verbatim>\<open>src/teavpn2/auth.c\<close>: the user's file under the data directory is
  parsed with the INI parser, the password compared, and the interface description taken from
  the file.  The file system is the parameter \<open>fopen\<close>, from a path to an error or the
  contents.
\<close>

section \<open>The model\<close>

record user_parse_ctx =
  fuser :: string
  fpass :: string
  ctx_iff :: if_info

definition validate_username_char :: "char \<Rightarrow> bool" where
  "validate_username_char ch \<longleftrightarrow>
     (let c = (of_char ch :: nat) in
      (48 \<le> c \<and> c \<le> 57) \<or> (65 \<le> c \<and> c \<le> 90) \<or> (97 \<le> c \<and> c \<le> 122) \<or> c = 95 \<or> c = 45)"

fun validate_username :: "string \<Rightarrow> bool" where
  "validate_username [] \<longleftrightarrow> True"
| "validate_username (c # u) \<longleftrightarrow> (if \<not> validate_username_char c then False else validate_username u)"

definition userfile_parse_auth :: "user_parse_ctx \<Rightarrow> string \<Rightarrow> string \<Rightarrow> int \<Rightarrow> int \<times> user_parse_ctx" where
  "userfile_parse_auth ctx name val lineno =
     (1, if name = ''username'' then ctx\<lparr>fuser := strncpy2 val 256\<rparr>
         else if name = ''password'' then ctx\<lparr>fpass := strncpy2 val 256\<rparr>
         else ctx)"

definition userfile_parse_iface :: "user_parse_ctx \<Rightarrow> string \<Rightarrow> string \<Rightarrow> int \<Rightarrow> int \<times> user_parse_ctx" where
  "userfile_parse_iface ctx name val lineno =
     (1, if name = ''mtu'' then ctx\<lparr>ctx_iff := (ctx_iff ctx)\<lparr>ipv4_mtu := ucast (strtoul10 val)\<rparr>\<rparr>
         else if name = ''ipv4'' then ctx\<lparr>ctx_iff := (ctx_iff ctx)\<lparr>ipv4 := strncpy2 val 16\<rparr>\<rparr>
         else if name = ''ipv4_netmask'' then
           ctx\<lparr>ctx_iff := (ctx_iff ctx)\<lparr>ipv4_netmask := strncpy2 val 16\<rparr>\<rparr>
         else if name = ''ipv4_dgateway'' then
           ctx\<lparr>ctx_iff := (ctx_iff ctx)\<lparr>ipv4_dgateway := strncpy2 val 16\<rparr>\<rparr>
         else ctx)"

definition userfile_parser :: "user_parse_ctx ini_handler" where
  "userfile_parser ctx section name val lineno =
     (1, if section = ''auth'' then snd (userfile_parse_auth ctx name val lineno)
         else if section = ''iface'' then snd (userfile_parse_iface ctx name val lineno)
         else ctx)"

text \<open>\<open>Inl\<close> is the negative error returned, \<open>Inr\<close> the value stored through \<^verbatim>\<open>*iff\<close>.\<close>

definition teavpn2_auth_handle :: "string \<Rightarrow> string \<Rightarrow> string \<Rightarrow> int + if_info" where
  "teavpn2_auth_handle handle username password =
     (case ini_parse_file handle userfile_parser
             \<lparr>fuser = [], fpass = [], ctx_iff = empty_if_info\<rparr> of
        (ret, ctx) \<Rightarrow>
          if ret \<noteq> 0 then Inl (- EINVAL)
          else if password \<noteq> fpass ctx then Inl (- EACCES)
          else Inr (ctx_iff ctx))"

definition userfile_path :: "string \<Rightarrow> string \<Rightarrow> string" where
  "userfile_path dir username = take 511 (dir @ ''/users/'' @ username @ ''.ini'')"

definition teavpn2_auth :: "(string \<Rightarrow> int + string) \<Rightarrow> string \<Rightarrow> string \<Rightarrow> string \<Rightarrow> if_info option" where
  "teavpn2_auth fopen dir username password =
     (if \<not> validate_username username then None
      else case fopen (userfile_path dir username) of
             Inl err \<Rightarrow> None
           | Inr handle \<Rightarrow>
               (case teavpn2_auth_handle handle username password of
                  Inl err \<Rightarrow> None
                | Inr ifi \<Rightarrow> Some ifi))"

section \<open>The user file\<close>

text \<open>The file an administrator writes for a user, in canonical form.\<close>

definition user_items :: "string \<Rightarrow> string \<Rightarrow> if_info \<Rightarrow> ini_item list" where
  "user_items user pass ifi =
     [Sec ''auth'', Ent ''username'' user, Ent ''password'' pass, Sec ''iface'',
      Ent ''mtu'' (dec_string (unat (ipv4_mtu ifi))), Ent ''ipv4'' (ipv4 ifi),
      Ent ''ipv4_netmask'' (ipv4_netmask ifi), Ent ''ipv4_dgateway'' (ipv4_dgateway ifi)]"

definition value_ok :: "nat \<Rightarrow> string \<Rightarrow> bool" where
  "value_ok n v \<longleftrightarrow> plain v \<and> trimmed v \<and> length v < n"

lemma validate_username_chars: "validate_username u \<longleftrightarrow> list_all validate_username_char u"
  by (induction u) auto

lemma username_char_plain:
  "validate_username_char c \<Longrightarrow> c \<notin> {CHR ''/'', CHR ''.'', CHR '';'', CHR ''='', CHR '':'', NL, NUL} \<and> \<not> isspace c"
  by (auto simp: validate_username_char_def isspace_def Let_def)

lemma username_ok:
  assumes "validate_username u"
  shows "plain u \<and> trimmed u"
proof -
  have c: "validate_username_char c" if "c \<in> set u" for c
    using assms that by (simp add: validate_username_chars list_all_iff)
  have "plain u" using username_char_plain [OF c] by (auto simp: plain_def)
  moreover have "trimmed u"
    using username_char_plain [OF c] hd_in_set last_in_set unfolding trimmed_def by blast
  ultimately show ?thesis ..
qed

section \<open>What authentication gives\<close>

text \<open>Whatever the file holds, the strings stored fit their arrays.\<close>

lemma userfile_parser_keeps: "keeps userfile_parser (\<lambda>ctx. if_info_fits (ctx_iff ctx))"
proof -
  have "no_nul (strncpy2 v 16) \<and> length (strncpy2 v 16) < 16" if "no_nul v" for v
    using that by (simp add: strncpy2_def)
  then show ?thesis
    by (simp add: keeps_def userfile_parser_def userfile_parse_auth_def userfile_parse_iface_def
        if_info_fits_def)
qed

lemma userfile_iff_fits:
  "if_info_fits (ctx_iff (snd (ini_parse_file f userfile_parser
     \<lparr>fuser = [], fpass = [], ctx_iff = empty_if_info\<rparr>)))"
proof -
  have "if_info_fits empty_if_info" by (simp add: if_info_fits_def empty_if_info_def no_nul_def)
  then show ?thesis
    using ini_parse_keeps [OF userfile_parser_keeps,
        of "\<lparr>fuser = [], fpass = [], ctx_iff = empty_if_info\<rparr>" f]
    by (simp add: ini_parse_file_def)
qed

lemma auth_handle_Inr:
  assumes "teavpn2_auth_handle f u p = Inr ifi"
  shows "\<exists>ctx. ini_parse_file f userfile_parser \<lparr>fuser = [], fpass = [], ctx_iff = empty_if_info\<rparr> = (0, ctx)
    \<and> fpass ctx = p \<and> ctx_iff ctx = ifi"
  using assms by (auto simp: teavpn2_auth_handle_def split: prod.splits if_splits)

lemma auth_Some_iff:
  "teavpn2_auth fopen dir u p = Some ifi \<longleftrightarrow>
   validate_username u \<and> (\<exists>f. fopen (userfile_path dir u) = Inr f \<and> teavpn2_auth_handle f u p = Inr ifi)"
  by (auto simp: teavpn2_auth_def split: sum.splits)

lemma auth_fits: "teavpn2_auth fopen dir u p = Some ifi \<Longrightarrow> if_info_fits ifi"
  using userfile_iff_fits by (auto simp: auth_Some_iff dest!: auth_handle_Inr) (metis snd_conv)

lemma dec_string_value_ok: "plain (dec_string n) \<and> trimmed (dec_string n)"
proof -
  have d: "c \<notin> {NL, NUL, CHR '';''} \<and> \<not> isspace c" if "c \<in> set (dec_string n)" for c
    using dec_string_isdigit [OF that] by (auto simp: isdigit_def isspace_def Let_def)
  have "dec_string n \<noteq> []" using dec_string_digits by blast
  then show ?thesis using d hd_in_set last_in_set unfolding plain_def trimmed_def by blast
qed

lemma user_items_ok:
  assumes "validate_username u" "length u < 150" "value_ok 150 p"
    "value_ok 16 (ipv4 ifi)" "value_ok 16 (ipv4_netmask ifi)" "value_ok 16 (ipv4_dgateway ifi)"
  shows "list_all item_ok (user_items u p ifi)"
proof -
  have "length (dec_string (unat (ipv4_mtu ifi))) \<le> 5"
    using unsigned_less [of "ipv4_mtu ifi", where 'a = nat] by (intro length_dec_string) simp_all
  moreover have "trimmed s" "plain s"
    if "s \<in> {''username'', ''password'', ''mtu'', ''ipv4'', ''ipv4_netmask'', ''ipv4_dgateway'', ''auth'', ''iface''}" for s
    using that by (auto simp: trimmed_def isspace_def plain_def)
  ultimately show ?thesis
    using assms username_ok [OF assms(1)] dec_string_value_ok by (simp add: user_items_def value_ok_def)
qed

lemma mtu_dec_string: "ucast (strtoul10 (dec_string (unat m))) = (m :: u16)"
proof -
  have "unat m < 2 ^ 64" using unsigned_less [of m, where 'a = nat] by simp
  moreover have "ucast (ucast m :: u64) = m" by (rule bit_word_eqI) (simp add: bit_simps)
  ultimately show ?thesis using strtoul10_dec_string [of "unat m"] by simp
qed

lemma userfile_parser_keys:
  "userfile_parser c ''auth'' ''username'' v l = (1, c\<lparr>fuser := strncpy2 v 256\<rparr>)"
  "userfile_parser c ''auth'' ''password'' v l = (1, c\<lparr>fpass := strncpy2 v 256\<rparr>)"
  "userfile_parser c ''iface'' ''mtu'' v l
     = (1, c\<lparr>ctx_iff := (ctx_iff c)\<lparr>ipv4_mtu := ucast (strtoul10 v)\<rparr>\<rparr>)"
  "userfile_parser c ''iface'' ''ipv4'' v l = (1, c\<lparr>ctx_iff := (ctx_iff c)\<lparr>ipv4 := strncpy2 v 16\<rparr>\<rparr>)"
  "userfile_parser c ''iface'' ''ipv4_netmask'' v l
     = (1, c\<lparr>ctx_iff := (ctx_iff c)\<lparr>ipv4_netmask := strncpy2 v 16\<rparr>\<rparr>)"
  "userfile_parser c ''iface'' ''ipv4_dgateway'' v l
     = (1, c\<lparr>ctx_iff := (ctx_iff c)\<lparr>ipv4_dgateway := strncpy2 v 16\<rparr>\<rparr>)"
  by (simp_all add: userfile_parser_def userfile_parse_auth_def userfile_parse_iface_def)

lemma user_file_run:
  assumes "length u < 150" "value_ok 150 p" "dev ifi = []" "ipv4_pub ifi = []"
    "value_ok 16 (ipv4 ifi)" "value_ok 16 (ipv4_netmask ifi)" "value_ok 16 (ipv4_dgateway ifi)"
  shows "ini_run userfile_parser [] 0 0 (user_items u p ifi)
      \<lparr>fuser = [], fpass = [], ctx_iff = empty_if_info\<rparr>
    = (0, \<lparr>fuser = u, fpass = p, ctx_iff = ifi\<rparr>)"
proof -
  have s: "strncpy2 u 256 = u" "strncpy2 p 256 = p" "strncpy2 (ipv4 ifi) 16 = ipv4 ifi"
    "strncpy2 (ipv4_netmask ifi) 16 = ipv4_netmask ifi" "strncpy2 (ipv4_dgateway ifi) 16 = ipv4_dgateway ifi"
    using assms by (simp_all add: strncpy2_fits value_ok_def)
  show ?thesis
    using assms(3,4) unfolding user_items_def
    by (simp add: userfile_parser_keys s mtu_dec_string empty_if_info_def)
qed

lemma auth_account:
  assumes "validate_username u" "length u < 150" "value_ok 150 pw"
    and "dev ifi = []" "ipv4_pub ifi = []"
    and "value_ok 16 (ipv4 ifi)" "value_ok 16 (ipv4_netmask ifi)" "value_ok 16 (ipv4_dgateway ifi)"
    and "fopen (userfile_path dir u) = Inr (ini_print (user_items u pw ifi))"
  shows "teavpn2_auth fopen dir u p = (if p = pw then Some ifi else None)"
proof -
  have "ini_parse_file (ini_print (user_items u pw ifi)) userfile_parser
      \<lparr>fuser = [], fpass = [], ctx_iff = empty_if_info\<rparr> = (0, \<lparr>fuser = u, fpass = pw, ctx_iff = ifi\<rparr>)"
    using ini_parse_print [where h = userfile_parser, OF user_items_ok [OF assms(1-3,6-8)]] user_file_run [OF assms(2-8)]
    by (simp add: ini_parse_file_def)
  then show ?thesis using assms(1,9) by (simp add: teavpn2_auth_def teavpn2_auth_handle_def)
qed

section \<open>Properties\<close>

text \<open>
  C23: what a successful authentication guarantees.  The user name is made of letters,
  digits, \<open>_\<close> and \<open>-\<close> only, so the file that was read lies directly in the users
  directory; that file parsed without an error and names exactly the password that was sent;
  and the interface description handed out fits the fixed-size arrays of the reply.
\<close>

theorem teavpn2_auth_sound:
  assumes "teavpn2_auth fopen dir u p = Some ifi"
  shows "(\<forall>c \<in> set u. c \<noteq> CHR ''/'' \<and> c \<noteq> CHR ''.'' \<and> c \<noteq> CHR 0x00)
    \<and> (\<exists>f ctx. fopen (take 511 (dir @ ''/users/'' @ u @ ''.ini'')) = Inr f
        \<and> ini_parse_file f userfile_parser \<lparr>fuser = [], fpass = [], ctx_iff = empty_if_info\<rparr> = (0, ctx)
        \<and> fpass ctx = p \<and> ctx_iff ctx = ifi)
    \<and> if_info_fits ifi"
proof -
  from assms obtain f where f: "validate_username u" "fopen (userfile_path dir u) = Inr f"
      "teavpn2_auth_handle f u p = Inr ifi" by (auto simp: auth_Some_iff)
  have "\<forall>c \<in> set u. c \<noteq> CHR ''/'' \<and> c \<noteq> CHR ''.'' \<and> c \<noteq> CHR 0x00"
    using f(1) username_char_plain by (auto simp: validate_username_chars list_all_iff)
  then show ?thesis
    using f(2) auth_handle_Inr [OF f(3)] auth_fits [OF assms] by (auto simp: userfile_path_def)
qed

text \<open>
  C24: an account works with its password and with no other.  For a user file in canonical
  form, authentication under a valid name succeeds exactly with the password the file names
  and then hands out the interface description of the file.
\<close>

theorem teavpn2_auth_account:
  assumes "validate_username u" "length u < 150" "value_ok 150 pw"
    and "dev ifi = []" "ipv4_pub ifi = []"
    and "value_ok 16 (ipv4 ifi)" "value_ok 16 (ipv4_netmask ifi)" "value_ok 16 (ipv4_dgateway ifi)"
    and "fopen (userfile_path dir u) = Inr (ini_print (user_items u pw ifi))"
  shows "teavpn2_auth fopen dir u p = (if p = pw then Some ifi else None)"
  using assms by (rule auth_account)

text \<open>A file system with one user; used by witnesses.\<close>

definition sample_iff :: if_info where
  "sample_iff = \<lparr>dev = [], ipv4_pub = [], ipv4 = ''10.5.5.2'', ipv4_netmask = ''255.255.255.0'',
     ipv4_dgateway = ''10.5.5.1'', ipv4_mtu = 1470\<rparr>"

definition sample_fs :: "string \<Rightarrow> int + string" where
  "sample_fs path = (if path = ''data/users/ammar.ini'' then Inr (ini_print (user_items ''ammar'' ''pw'' sample_iff))
     else Inl ENOENT)"

lemma sample_user_ok:
  "validate_username ''ammar''" "value_ok 150 ''pw''" "value_ok 16 (ipv4 sample_iff)"
  "value_ok 16 (ipv4_netmask sample_iff)" "value_ok 16 (ipv4_dgateway sample_iff)"
  by (simp_all add: validate_username_char_def value_ok_def plain_def trimmed_def isspace_def sample_iff_def)

lemma sample_fs_open:
  "sample_fs (userfile_path ''data'' ''ammar'') = Inr (ini_print (user_items ''ammar'' ''pw'' sample_iff))"
  by (simp add: sample_fs_def userfile_path_def)

text \<open>Witness of C24: the right password is accepted, a wrong one is not.\<close>

theorem teavpn2_auth_account_witness:
  "teavpn2_auth sample_fs ''data'' ''ammar'' ''pw'' = Some sample_iff
   \<and> teavpn2_auth sample_fs ''data'' ''ammar'' ''no'' = None"
  using teavpn2_auth_account [where fopen = sample_fs and dir = "''data''", OF sample_user_ok(1) _
      sample_user_ok(2) _ _ sample_user_ok(3-5) sample_fs_open]
  by (simp add: sample_iff_def)

lemma sample_auth: "teavpn2_auth sample_fs ''data'' ''ammar'' ''pw'' = Some sample_iff"
  using auth_account [where fopen = sample_fs and dir = "''data''", OF sample_user_ok(1) _
      sample_user_ok(2) _ _ sample_user_ok(3-5) sample_fs_open]
  by (simp add: sample_iff_def)

text \<open>Witness of C23: the sample user.\<close>

theorem teavpn2_auth_sound_witness: "if_info_fits sample_iff"
  using teavpn2_auth_sound [OF sample_auth] by blast

end
