(* ===== verification/Srv_Epoll.thy ===== *)
theory Srv_Epoll
  imports Session Auth
begin

text \<open>
  The event handlers of the server, \<^verbatim>\<open>src/teavpn2/server/linux/udp_epoll.c\<close>, one definition
  per function.  A handler is a function of the packet buffer of its thread and of the server
  state; the result is \<open>None\<close> when a retry loop never ends, and otherwise the C return value
  with the new buffer and state.  The thread structure contributes only its buffer (its index
  is used in log messages only), a session argument is its slot, and a handler runs as one
  step.  The functions whose C name begins with underscores have a name of their own here.
\<close>

section \<open>Sending\<close>

definition wait_for_fd_be_writable :: "kernel \<Rightarrow> srv_udp_state \<Rightarrow> int \<times> srv_udp_state" where
  "wait_for_fd_be_writable K s =
     (let ret = k_poll K (tick s);
          s' = s\<lparr>tick := tick s + 1\<rparr>
      in if ret \<le> 0 then (if ret = 0 then (- ETIMEDOUT, s') else (ret, s')) else (0, s'))"

text \<open>\<^verbatim>\<open>_send_to_client\<close>\<close>

definition send_to_client_once ::
  "kernel \<Rightarrow> sockaddr_in \<Rightarrow> mem \<Rightarrow> nat \<Rightarrow> srv_udp_state \<Rightarrow> int \<times> srv_udp_state" where
  "send_to_client_once K dst buf len s =
     (if len = 0 then (0, s)
      else
        let ret = k_sendto K (tick s);
            s' = s\<lparr>tick := tick s + 1, io := io s @ [Sendto dst (mem_read buf 0 len) ret]\<rparr>
        in (if ret = 0 then - ENETDOWN else ret, s'))"

definition emergency_wait_for_tun_fd_be_writable :: "kernel \<Rightarrow> srv_udp_state \<Rightarrow> int \<times> srv_udp_state" where
  "emergency_wait_for_tun_fd_be_writable K s0 =
     (let s = s0\<lparr>in_emergency := True\<rparr> in
      if stop s then (- ENETDOWN, s)
      else case wait_for_fd_be_writable K s of
             (ret, s') \<Rightarrow> if ret = 0 then (ret, s') else (- ENETDOWN, s'\<lparr>stop := True\<rparr>))"

definition emergency_wait_for_udp_fd_be_writable :: "kernel \<Rightarrow> srv_udp_state \<Rightarrow> int \<times> srv_udp_state" where
  "emergency_wait_for_udp_fd_be_writable K s0 =
     (let s = s0\<lparr>in_emergency := True\<rparr> in
      if stop s then (- ENETDOWN, s)
      else case wait_for_fd_be_writable K s of
             (ret, s') \<Rightarrow> if ret = 0 then (ret, s') else (- ENETDOWN, s'\<lparr>stop := True\<rparr>))"

partial_function (option) send_to_client ::
  "kernel \<Rightarrow> nat \<Rightarrow> mem \<Rightarrow> nat \<Rightarrow> srv_udp_state \<Rightarrow> (int \<times> srv_udp_state) option" where
  "send_to_client K i buf len s =
     (case send_to_client_once K (addr (sess_arr s ! i)) buf len s of
        (send_ret, s1) \<Rightarrow>
          if send_ret < 0 then
            (if send_ret = - EAGAIN then
               (case emergency_wait_for_udp_fd_be_writable K s1 of
                  (ret, s2) \<Rightarrow> if ret = 0 then send_to_client K i buf len s2 else Some (ret, s2))
             else Some (send_ret, s1))
          else Some (send_ret, s1\<lparr>in_emergency := False\<rparr>))"

section \<open>Sessions and handshake\<close>

type_synonym handler_result = "(int \<times> sc_pkt \<times> srv_udp_state) option"

definition close_udp_session :: "kernel \<Rightarrow> nat \<Rightarrow> sc_pkt \<Rightarrow> srv_udp_state \<Rightarrow> handler_result" where
  "close_udp_session K i pkt s = do {
     let iffa = ipv4_iff (sess_arr s ! i);
     let s1 = (if iffa \<noteq> 0 then s\<lparr>ipv4_map := del_ipv4_route_map (ipv4_map s) iffa\<rparr> else s);
     let (m, send_len) = srv_pprep (raw pkt) TSRV_PKT_CLOSE 0 0;
     (_, s2) \<leftarrow> send_to_client K i m send_len s1;
     let (ret, s3) = delete_udp_session i s2;
     Some (ret, pkt\<lparr>raw := m\<rparr>, s3)
   }"

definition send_handshake :: "kernel \<Rightarrow> nat \<Rightarrow> sc_pkt \<Rightarrow> srv_udp_state \<Rightarrow> handler_result" where
  "send_handshake K i pkt s = do {
     let (m, send_len) = srv_pprep_handshake (raw pkt);
     (send_ret, s1) \<leftarrow> send_to_client K i m send_len s;
     Some (if send_ret < 0 then send_ret else 0, pkt\<lparr>raw := m\<rparr>, s1)
   }"

definition send_handshake_reject ::
  "kernel \<Rightarrow> nat \<Rightarrow> u8 \<Rightarrow> string \<Rightarrow> sc_pkt \<Rightarrow> srv_udp_state \<Rightarrow> handler_result" where
  "send_handshake_reject K i reason msg pkt s = do {
     let (m, send_len) = srv_pprep_handshake_reject (raw pkt) reason (Some msg);
     (send_ret, s1) \<leftarrow> send_to_client K i m send_len s;
     Some (if send_ret < 0 then send_ret else 0, pkt\<lparr>raw := m\<rparr>, s1)
   }"

text \<open>The format \<^verbatim>\<open>PRWIU\<close> applied to \<^verbatim>\<open>W_IU(sess)\<close>.\<close>

definition w_iu :: "udp_sess \<Rightarrow> string" where
  "w_iu x = str_src_addr x @ '':'' @ dec_string (unat (src_port x)) @ '' ('' @ username x
     @ '') (cli_idx='' @ dec_string (unat (idx x)) @ '')''"

text \<open>\<^verbatim>\<open>snprintf\<close> into \<^verbatim>\<open>rej_msg\<close>, which has 512 bytes.\<close>

definition rej_fmt :: "string \<Rightarrow> string" where
  "rej_fmt msg = take 511 msg"

definition handle_client_handshake :: "kernel \<Rightarrow> nat \<Rightarrow> sc_pkt \<Rightarrow> srv_udp_state \<Rightarrow> handler_result" where
  "handle_client_handshake K i pkt s =
     (let x = sess_arr s ! i;
          expected_len = SZ_HANDSHAKE;
          reject = (\<lambda>reason msg pkt. do {
            (_, pkt', s') \<leftarrow> send_handshake_reject K i reason msg pkt s;
            Some (- EBADMSG, pkt', s')
          })
      in
      if pkt_len pkt < PKT_MIN_LEN + expected_len then
        reject TSRV_HREJECT_INVALID
          (rej_fmt (''Invalid handshake packet length from '' @ w_iu x @ '' (expected at least ''
             @ dec_string (PKT_MIN_LEN + expected_len) @ '' bytes; actual = ''
             @ dec_string (pkt_len pkt) @ '' bytes)'')) pkt
      else
        let dlen = pkt_dlen (raw pkt);
            pkt1 = pkt\<lparr>raw := put_le16 (raw pkt) 2 dlen\<rparr>
        in
        if unat dlen \<noteq> expected_len then
          reject TSRV_HREJECT_INVALID
            (rej_fmt (''Invalid handshake packet length from '' @ w_iu x @ '' (expected = ''
               @ dec_string expected_len @ ''; actual: cli_pkt->len = '' @ dec_string (unat dlen) @ '')''))
            pkt1
        else if pkt_type (raw pkt1) \<noteq> TCLI_PKT_HANDSHAKE then
          reject TSRV_HREJECT_INVALID
            (rej_fmt (''Invalid first packet type from '' @ w_iu x
               @ '' (expected = TCLI_PKT_HANDSHAKE (0); actual = ''
               @ dec_string (unat (pkt_type (raw pkt1))) @ '')'')) pkt1
        else
          let pkt2 = pkt1\<lparr>raw := (raw pkt1)(35 := 0)\<rparr>;
              cur = pkt_handshake_cur (raw pkt2)
          in
          if ver cur \<noteq> VERSION \<or> patch_lvl cur \<noteq> PATCHLEVEL \<or> sub_lvl cur \<noteq> SUBLEVEL then
            reject TSRV_HREJECT_VERSION_NOT_SUPPORTED (k_junk K (tick s)) pkt2
          else send_handshake K i pkt2 s)"

text \<open>\<^verbatim>\<open>_handle_new_client\<close>\<close>

definition handle_new_client_sess :: "kernel \<Rightarrow> nat \<Rightarrow> sc_pkt \<Rightarrow> srv_udp_state \<Rightarrow> handler_result" where
  "handle_new_client_sess K i pkt s = do {
     (ret, pkt1, s1) \<leftarrow> handle_client_handshake K i pkt s;
     if ret \<noteq> 0 then do {
       (_, pkt2, s2) \<leftarrow> close_udp_session K i pkt1 s1;
       Some (if ret = - EBADMSG then 0 else ret, pkt2, s2)
     } else Some (ret, pkt1, s1)
   }"

definition skip_session_creation :: "sc_pkt \<Rightarrow> bool" where
  "skip_session_creation pkt \<longleftrightarrow>
     (let type = pkt_type (raw pkt) in
      type = TCLI_PKT_TUN_DATA \<or> type = TCLI_PKT_REQSYNC \<or> type = TCLI_PKT_SYNC
      \<or> type = TCLI_PKT_CLOSE)"

definition handle_new_client ::
  "kernel \<Rightarrow> u32 \<Rightarrow> u16 \<Rightarrow> sockaddr_in \<Rightarrow> sc_pkt \<Rightarrow> srv_udp_state \<Rightarrow> handler_result" where
  "handle_new_client K a port saddr pkt s =
     (if skip_session_creation pkt then Some (0, pkt, s)
      else case create_udp_sess K a port s of
        (None, err, s1) \<Rightarrow> Some (if err = EAGAIN then 0 else - err, pkt, s1)
      | (Some i, err, s1) \<Rightarrow>
          handle_new_client_sess K i pkt (upd_sess i (\<lambda>x. x\<lparr>addr := saddr\<rparr>) s1))"

section \<open>Packets from a known session\<close>

definition handle_clpkt_auth :: "kernel \<Rightarrow> nat \<Rightarrow> sc_pkt \<Rightarrow> srv_udp_state \<Rightarrow> handler_result" where
  "handle_clpkt_auth K i pkt s =
     (let auth = get_pkt_auth (raw pkt) in
      if is_authenticated (sess_arr s ! i) then Some (0, pkt, s)
      else
        let res = teavpn2_auth (k_fopen K (tick s)) (data_dir (cfg_sys (cfg s)))
                    (auth_username auth) (auth_password auth);
            s0 = s\<lparr>tick := tick s + 1\<rparr>
        in case res of
             None \<Rightarrow> do {
               let (m, send_len) = srv_pprep (raw pkt) TSRV_PKT_AUTH_REJECT 0 0;
               (send_ret, s1) \<leftarrow> send_to_client K i m send_len s0;
               let ret = (if send_ret < 0 then send_ret else 0);
               (_, pkt2, s2) \<leftarrow> close_udp_session K i (pkt\<lparr>raw := m\<rparr>) s1;
               Some (ret, pkt2, s2)
             }
           | Some ifi \<Rightarrow> do {
               let (m, send_len) = srv_pprep (put_if_info (raw pkt) 6 ifi) TSRV_PKT_AUTH_OK
                     (word_of_nat SZ_AUTH_RES) 0;
               (send_ret, s1) \<leftarrow> send_to_client K i m send_len s0;
               if send_ret < 0 then do {
                 (_, pkt2, s2) \<leftarrow> close_udp_session K i (pkt\<lparr>raw := m\<rparr>) s1;
                 Some (send_ret, pkt2, s2)
               } else do {
                 let a = ntohl (inet_addr (ipv4 (get_if_info m 6)));
                 let s2 = upd_sess i (\<lambda>x. x\<lparr>ipv4_iff := a\<rparr>) s1;
                 let s3 = s2\<lparr>ipv4_map := add_ipv4_route_map (ipv4_map s2) a (idx (sess_arr s2 ! i))\<rparr>;
                 let s4 = upd_sess i (\<lambda>x. x\<lparr>is_authenticated := True,
                            username := strncpy2 (auth_username auth) 256\<rparr>) s3;
                 Some (0, pkt\<lparr>raw := m\<rparr>, s4)
               }
             })"

text \<open>\<^verbatim>\<open>_handle_clpkt_tun_data\<close>: one attempt to write the payload to the TUN device.\<close>

definition write_tun_data :: "kernel \<Rightarrow> int \<Rightarrow> mem \<Rightarrow> srv_udp_state \<Rightarrow> int \<times> srv_udp_state" where
  "write_tun_data K tun_fd m s =
     (let data_len = pkt_dlen m in
      if data_len = 0 then (0, s)
      else
        let ret = k_write K (tick s);
            s' = s\<lparr>tick := tick s + 1, io := io s @ [Write tun_fd (mem_read m 4 (unat data_len)) ret]\<rparr>
        in (if ret = 0 then - ENETDOWN else ret, s'))"

partial_function (option) handle_clpkt_tun_data ::
  "kernel \<Rightarrow> sc_pkt \<Rightarrow> srv_udp_state \<Rightarrow> handler_result" where
  "handle_clpkt_tun_data K pkt s =
     (case write_tun_data K (tun_fds s ! 0) (raw pkt) s of
        (write_ret, s1) \<Rightarrow>
          if write_ret < 0 then
            (if write_ret = - EAGAIN then
               (case emergency_wait_for_tun_fd_be_writable K s1 of
                  (ret, s2) \<Rightarrow> if ret = 0 then handle_clpkt_tun_data K pkt s2 else Some (ret, pkt, s2))
             else Some (write_ret, pkt, s1))
          else Some (0, pkt, s1))"

definition handle_clpkt_reqsync :: "kernel \<Rightarrow> nat \<Rightarrow> sc_pkt \<Rightarrow> srv_udp_state \<Rightarrow> handler_result" where
  "handle_clpkt_reqsync K i pkt s = do {
     let (m, send_len) = srv_pprep_sync (raw pkt);
     (send_ret, s1) \<leftarrow> send_to_client K i m send_len s;
     Some (if send_ret < 0 then send_ret else 0, pkt\<lparr>raw := m\<rparr>, s1)
   }"

text \<open>\<^verbatim>\<open>__handle_event_from_udp\<close>\<close>

definition handle_clpkt :: "kernel \<Rightarrow> nat \<Rightarrow> sc_pkt \<Rightarrow> srv_udp_state \<Rightarrow> handler_result" where
  "handle_clpkt K i pkt s =
     (let type = pkt_type (raw pkt) in
      if type = TCLI_PKT_HANDSHAKE then Some (0, pkt, s)
      else if type = TCLI_PKT_AUTH then handle_clpkt_auth K i pkt s
      else if type = TCLI_PKT_TUN_DATA then handle_clpkt_tun_data K pkt s
      else if type = TCLI_PKT_REQSYNC then do {
        (ret, pkt1, s1) \<leftarrow> handle_clpkt_reqsync K i pkt s;
        Some (ret, pkt1, snd (udp_sess_update_last_act K i s1))
      }
      else if type = TCLI_PKT_SYNC then Some (0, pkt, snd (udp_sess_update_last_act K i s))
      else if type = TCLI_PKT_CLOSE then do {
        (_, pkt1, s1) \<leftarrow> close_udp_session K i pkt s;
        Some (0, pkt1, s1)
      }
      else Some (- EBADMSG, pkt, s))"

text \<open>\<^verbatim>\<open>_handle_event_from_udp\<close>\<close>

definition handle_datagram :: "kernel \<Rightarrow> sockaddr_in \<Rightarrow> sc_pkt \<Rightarrow> srv_udp_state \<Rightarrow> handler_result" where
  "handle_datagram K saddr pkt s =
     (let port = ntohs (sin_port saddr);
          a = ntohl (sin_addr saddr)
      in case lookup_udp_sess s a port of
           None \<Rightarrow> handle_new_client K a port saddr pkt s
         | Some i \<Rightarrow> do {
             (ret, pkt1, s1) \<leftarrow> handle_clpkt K i pkt s;
             if ret < 0 then
               (if ret = - EBADMSG then do {
                  (_, pkt2, s2) \<leftarrow> close_udp_session K i pkt1 s1;
                  Some (0, pkt2, s2)
                } else Some (ret, pkt1, s1))
             else do {
               let s2 = upd_sess i (\<lambda>x. x\<lparr>loop_c := loop_c x + 1\<rparr>) s1;
               if loop_c (sess_arr s2 ! i) mod 32 = 0 then do {
                 let s3 = snd (udp_sess_update_last_act K i s2);
                 let (m, send_len) = srv_pprep_sync (raw pkt1);
                 (_, s4) \<leftarrow> send_to_client K i m send_len s3;
                 Some (ret, pkt1\<lparr>raw := m\<rparr>, s4)
               } else Some (ret, pkt1, s2)
             }
           })"

text \<open>
  \<^verbatim>\<open>do_recv_from\<close>: the result, the sender and the filled buffer.
\<close>

definition do_recv_from :: "kernel \<Rightarrow> sc_pkt \<Rightarrow> srv_udp_state \<Rightarrow> int \<times> sockaddr_in \<times> sc_pkt \<times> srv_udp_state" where
  "do_recv_from K pkt s =
     (case sys_recvfrom K (tick s) PKT_RAW_LEN of
        (recv_ret, bs, saddr) \<Rightarrow>
          let s' = s\<lparr>tick := tick s + 1\<rparr>;
              ret = (if recv_ret = - EAGAIN then 0 else recv_ret)
          in if ret < 0 then (ret, saddr, pkt, s')
             else (ret, saddr, pkt\<lparr>pkt_len := nat ret, raw := mem_write (raw pkt) 0 bs\<rparr>, s'))"

definition handle_event_from_udp :: "kernel \<Rightarrow> sc_pkt \<Rightarrow> srv_udp_state \<Rightarrow> handler_result" where
  "handle_event_from_udp K pkt s =
     (case do_recv_from K pkt s of
        (recv_ret, saddr, pkt1, s1) \<Rightarrow>
          if recv_ret \<le> 0 then Some (recv_ret, pkt1, s1) else handle_datagram K saddr pkt1 s1)"

section \<open>Packets from the TUN device\<close>

definition route_ipv4_packet ::
  "kernel \<Rightarrow> u32 \<Rightarrow> nat \<Rightarrow> sc_pkt \<Rightarrow> srv_udp_state \<Rightarrow> (int \<times> srv_udp_state) option" where
  "route_ipv4_packet K dst_addr send_len pkt s =
     (let find = get_ipv4_route_map (ipv4_map s) dst_addr in
      if find < 0 then Some (find, s)
      else do {
        (send_ret, s1) \<leftarrow> send_to_client K (unat (word_of_int find :: u16)) (raw pkt) send_len s;
        Some (if send_ret < 0 then send_ret else 0, s1)
      })"

fun broadcast_loop :: "kernel \<Rightarrow> nat list \<Rightarrow> mem \<Rightarrow> nat \<Rightarrow> srv_udp_state \<Rightarrow> (int \<times> srv_udp_state) option" where
  "broadcast_loop K [] m send_len s = Some (0, s)"
| "broadcast_loop K (i # is) m send_len s =
     (if \<not> is_authenticated (sess_arr s ! i) then broadcast_loop K is m send_len s
      else do {
        (send_ret, s1) \<leftarrow> send_to_client K i m send_len s;
        if send_ret < 0 then Some (send_ret, s1) else broadcast_loop K is m send_len s1
      })"

definition broadcast_packet :: "kernel \<Rightarrow> nat \<Rightarrow> sc_pkt \<Rightarrow> srv_udp_state \<Rightarrow> (int \<times> srv_udp_state) option" where
  "broadcast_packet K send_len pkt s =
     broadcast_loop K [0..<unat (max_conn (cfg_sock (cfg s)))] (raw pkt) send_len s"

text \<open>\<^verbatim>\<open>_route_packet\<close>\<close>

definition route_packet_dst :: "kernel \<Rightarrow> nat \<Rightarrow> sc_pkt \<Rightarrow> srv_udp_state \<Rightarrow> (int \<times> srv_udp_state) option" where
  "route_packet_dst K send_len pkt s =
     (if iphdr_version (raw pkt) = 4 then do {
        (ret, s1) \<leftarrow> route_ipv4_packet K (iphdr_daddr (raw pkt)) send_len pkt s;
        if ret \<noteq> - ENOENT then Some (ret, s1) else broadcast_packet K send_len pkt s1
      }
      else broadcast_packet K send_len pkt s)"

definition route_packet :: "kernel \<Rightarrow> int \<Rightarrow> sc_pkt \<Rightarrow> srv_udp_state \<Rightarrow> handler_result" where
  "route_packet K len pkt s = do {
     let (m, send_len) = srv_pprep (raw pkt) TSRV_PKT_TUN_DATA (word_of_int len) 0;
     let pkt1 = pkt\<lparr>raw := m\<rparr>;
     (ret, s1) \<leftarrow> route_packet_dst K send_len pkt1 s;
     Some (ret, pkt1, s1)
   }"

definition handle_event_from_tun :: "kernel \<Rightarrow> sc_pkt \<Rightarrow> srv_udp_state \<Rightarrow> handler_result" where
  "handle_event_from_tun K pkt s =
     (case sys_read K (tick s) PKT_RAW_LEN of
        (read_ret, bs) \<Rightarrow>
          let s' = s\<lparr>tick := tick s + 1\<rparr> in
          if read_ret < 0 then Some (if read_ret = - EAGAIN then 0 else read_ret, pkt, s')
          else
            route_packet K read_ret
              (pkt\<lparr>pkt_len := nat read_ret, raw := mem_write (raw pkt) 4 bs\<rparr>) s')"

definition handle_event :: "kernel \<Rightarrow> int \<Rightarrow> sc_pkt \<Rightarrow> srv_udp_state \<Rightarrow> handler_result" where
  "handle_event K fd pkt s =
     (if fd = udp_fd s then handle_event_from_udp K pkt s else handle_event_from_tun K pkt s)"

end
