(* ===== verification/Srv_Progress.thy ===== *)
theory Srv_Progress
  imports Srv_Epoll
begin

text \<open>
  The handlers return.  The only unbounded loops of the event handlers are the two retry loops
  that wait for a full socket or device (\<open>send_to_client\<close> and \<open>handle_clpkt_tun_data\<close>); they
  end as soon as the operating system accepts the data, fails otherwise, or reports nothing for
  the 30 seconds of a poll.  \<open>prompt\<close> says that one of these happens eventually.
\<close>

definition prompt :: "kernel \<Rightarrow> bool" where
  "prompt K \<longleftrightarrow>
     (\<forall>n. \<exists>k. k_sendto K (n + 2 * k) \<noteq> - EAGAIN \<or> k_poll K (n + 2 * k + 1) \<le> 0)
   \<and> (\<forall>n. \<exists>k. k_write K (n + 2 * k) \<noteq> - EAGAIN \<or> k_poll K (n + 2 * k + 1) \<le> 0)"

text \<open>
  \<open>yields f\<close>: the computation \<open>f\<close> returns.  The rules follow the structure of the handlers.
\<close>

definition yields :: "'a option \<Rightarrow> bool" where
  "yields f \<longleftrightarrow> (\<exists>y. f = Some y)"

named_theorems yields_rules \<open>computations that return\<close>

lemma yields_Some [yields_rules]: "yields (Some y)"
  by (simp add: yields_def)

lemma yields_bind [yields_rules]: "yields f \<Longrightarrow> (\<And>x. yields (g x)) \<Longrightarrow> yields (f \<bind> g)"
  by (auto simp: yields_def)

lemma yields_if [yields_rules]: "yields f \<Longrightarrow> yields g \<Longrightarrow> yields (if c then f else g)"
  by simp

lemma yields_prod [yields_rules]: "(\<And>a b. yields (f a b)) \<Longrightarrow> yields (case p of (a, b) \<Rightarrow> f a b)"
  by (simp split: prod.split)

lemma yields_option [yields_rules]:
  "yields f \<Longrightarrow> (\<And>a. yields (g a)) \<Longrightarrow> yields (case x of None \<Rightarrow> f | Some a \<Rightarrow> g a)"
  by (simp split: option.split)

lemma yields_Let [yields_rules]: "(\<And>x. yields (f x)) \<Longrightarrow> yields (let x = v in f x)"
  by simp

lemma send_to_client_retry:
  "k_sendto K (tick s + 2 * k) \<noteq> - EAGAIN \<or> k_poll K (tick s + 2 * k + 1) \<le> 0 \<Longrightarrow>
   \<exists>y. send_to_client K i m len s = Some y"
proof (induction k arbitrary: s)
  case 0
  then show ?case
    by (subst send_to_client.simps)
      (auto simp: send_to_client_once_def emergency_wait_for_udp_fd_be_writable_def
        wait_for_fd_be_writable_def Let_def)
next
  case (Suc k)
  define s2 where "s2 = s\<lparr>io := io s @ [Sendto (addr (sess_arr s ! i)) (mem_read m 0 len) (- EAGAIN)],
      in_emergency := True, tick := tick s + 1 + 1\<rparr>"
  have "tick s2 + 2 * k = tick s + 2 * Suc k" by (simp add: s2_def)
  with Suc have "\<exists>y. send_to_client K i m len s2 = Some y" by metis
  then show ?case
    by (subst send_to_client.simps)
      (auto simp: send_to_client_once_def emergency_wait_for_udp_fd_be_writable_def
        wait_for_fd_be_writable_def Let_def s2_def)
qed

lemma tun_data_retry:
  "k_write K (tick s + 2 * k) \<noteq> - EAGAIN \<or> k_poll K (tick s + 2 * k + 1) \<le> 0 \<Longrightarrow>
   \<exists>y. handle_clpkt_tun_data K pkt s = Some y"
proof (induction k arbitrary: s)
  case 0
  then show ?case
    by (subst handle_clpkt_tun_data.simps)
      (auto simp: write_tun_data_def emergency_wait_for_tun_fd_be_writable_def
        wait_for_fd_be_writable_def Let_def)
next
  case (Suc k)
  define s2 where "s2 = s\<lparr>io := io s @ [Write (tun_fds s ! 0)
      (mem_read (raw pkt) 4 (unat (pkt_dlen (raw pkt)))) (- EAGAIN)], in_emergency := True,
      tick := tick s + 1 + 1\<rparr>"
  have "tick s2 + 2 * k = tick s + 2 * Suc k" by (simp add: s2_def)
  with Suc have "\<exists>y. handle_clpkt_tun_data K pkt s2 = Some y" by metis
  then show ?case
    by (subst handle_clpkt_tun_data.simps)
      (auto simp: write_tun_data_def emergency_wait_for_tun_fd_be_writable_def
        wait_for_fd_be_writable_def Let_def s2_def)
qed

lemma send_to_client_yields [yields_rules]: "prompt K \<Longrightarrow> yields (send_to_client K i m len s)"
  using send_to_client_retry [of K s _ i m len] by (metis prompt_def yields_def)

lemma tun_data_yields [yields_rules]: "prompt K \<Longrightarrow> yields (handle_clpkt_tun_data K pkt s)"
  using tun_data_retry [of K s _ pkt] by (metis prompt_def yields_def)

lemma close_yields [yields_rules]: "prompt K \<Longrightarrow> yields (close_udp_session K i pkt s)"
  unfolding close_udp_session_def by (intro yields_rules)

lemma send_handshake_yields [yields_rules]: "prompt K \<Longrightarrow> yields (send_handshake K i pkt s)"
  unfolding send_handshake_def by (intro yields_rules)

lemma send_handshake_reject_yields [yields_rules]: "prompt K \<Longrightarrow> yields (send_handshake_reject K i a b pkt s)"
  unfolding send_handshake_reject_def by (intro yields_rules)

lemma handshake_yields [yields_rules]: "prompt K \<Longrightarrow> yields (handle_client_handshake K i pkt s)"
  unfolding handle_client_handshake_def Let_def by (intro yields_rules)

lemma new_client_sess_yields [yields_rules]: "prompt K \<Longrightarrow> yields (handle_new_client_sess K i pkt s)"
  unfolding handle_new_client_sess_def by (intro yields_rules)

lemma new_client_yields [yields_rules]: "prompt K \<Longrightarrow> yields (handle_new_client K a port saddr pkt s)"
  unfolding handle_new_client_def by (intro yields_rules)

lemma auth_yields [yields_rules]: "prompt K \<Longrightarrow> yields (handle_clpkt_auth K i pkt s)"
  unfolding handle_clpkt_auth_def by (intro yields_rules)

lemma reqsync_yields [yields_rules]: "prompt K \<Longrightarrow> yields (handle_clpkt_reqsync K i pkt s)"
  unfolding handle_clpkt_reqsync_def by (intro yields_rules)

lemma clpkt_yields [yields_rules]: "prompt K \<Longrightarrow> yields (handle_clpkt K i pkt s)"
  unfolding handle_clpkt_def by (intro yields_rules)

lemma datagram_yields [yields_rules]: "prompt K \<Longrightarrow> yields (handle_datagram K saddr pkt s)"
  unfolding handle_datagram_def by (intro yields_rules)

lemma event_from_udp_yields [yields_rules]: "prompt K \<Longrightarrow> yields (handle_event_from_udp K pkt s)"
  unfolding handle_event_from_udp_def by (intro yields_rules)

lemma route_ipv4_yields [yields_rules]: "prompt K \<Longrightarrow> yields (route_ipv4_packet K dst len pkt s)"
  unfolding route_ipv4_packet_def by (intro yields_rules)

lemma broadcast_loop_yields [yields_rules]: "prompt K \<Longrightarrow> yields (broadcast_loop K is m len s)"
proof (induction "is" arbitrary: s)
  case (Cons i "is")
  then show ?case unfolding broadcast_loop.simps by (intro yields_rules)
qed (simp add: yields_def)

lemma broadcast_yields [yields_rules]: "prompt K \<Longrightarrow> yields (broadcast_packet K len pkt s)"
  unfolding broadcast_packet_def by (intro yields_rules)

lemma route_dst_yields [yields_rules]: "prompt K \<Longrightarrow> yields (route_packet_dst K len pkt s)"
  unfolding route_packet_dst_def by (intro yields_rules)

lemma route_packet_yields [yields_rules]: "prompt K \<Longrightarrow> yields (route_packet K n pkt s)"
  unfolding route_packet_def by (intro yields_rules)

lemma event_from_tun_yields [yields_rules]: "prompt K \<Longrightarrow> yields (handle_event_from_tun K pkt s)"
  unfolding handle_event_from_tun_def by (intro yields_rules)

lemma handle_event_yields [yields_rules]: "prompt K \<Longrightarrow> yields (handle_event K fd pkt s)"
  unfolding handle_event_def by (intro yields_rules)

section \<open>Properties\<close>

text \<open>
  C9: every event is handled in finite time.  If every full socket and device is eventually
  accepted, failed or timed out by the operating system, then \<open>handle_event\<close> returns on every
  descriptor, buffer and server state: none of its retry loops runs forever.
\<close>

theorem handle_event_returns:
  assumes "prompt K"
  shows "\<exists>ret pkt' s'. handle_event K fd pkt s = Some (ret, pkt', s')"
  using handle_event_yields [OF assms, of fd pkt s] by (auto simp: yields_def)

text \<open>Witness of C9: a device that accepts everything.\<close>

theorem handle_event_returns_witness:
  "\<exists>ret pkt' s'. handle_event silent_kernel 3 \<lparr>pkt_len = 0, raw = (\<lambda>_. 0)\<rparr> (fresh_table 2) = Some (ret, pkt', s')"
proof -
  have "prompt silent_kernel" by (simp add: prompt_def silent_kernel_def)
  from handle_event_returns [OF this] show ?thesis .
qed

end
