(* ===== verification/Srv_Inv.thy ===== *)
theory Srv_Inv
  imports Srv_Progress
begin

text \<open>
  The invariant of the running server and its preservation by every handler of
  \<open>Srv_Epoll\<close>: the session table is a finite map (\<open>sess_inv\<close>), only connected sessions are
  authenticated and have a private address, every session answers to the address it was
  created from, and the route table points to authenticated sessions only.
\<close>

section \<open>The invariant\<close>

definition auth_ok :: "srv_udp_state \<Rightarrow> bool" where
  "auth_ok s \<longleftrightarrow> (\<forall>i < length (sess_arr s).
     (is_authenticated (sess_arr s ! i) \<longrightarrow> is_connected (sess_arr s ! i))
     \<and> (\<not> is_authenticated (sess_arr s ! i) \<longrightarrow> ipv4_iff (sess_arr s ! i) = 0))"

definition peer_ok :: "srv_udp_state \<Rightarrow> bool" where
  "peer_ok s \<longleftrightarrow> (\<forall>i \<in> conn s. sess_key s i
     = (ntohl (sin_addr (addr (sess_arr s ! i))), ntohs (sin_port (addr (sess_arr s ! i)))))"

text \<open>
  A route entry holds a slot number plus one.  The entry of the addresses that end in two zero
  bytes is special: a session with the private address 0 leaves it behind when it closes.
\<close>

definition route_ok :: "srv_udp_state \<Rightarrow> bool" where
  "route_ok s \<longleftrightarrow> (\<forall>a b. ipv4_map s a b \<noteq> 0 \<longrightarrow>
     unat (ipv4_map s a b) \<le> length (sess_arr s)
     \<and> ((a, b) \<noteq> (0, 0) \<longrightarrow>
          is_authenticated (sess_arr s ! (unat (ipv4_map s a b) - 1))
          \<and> route_key (ipv4_iff (sess_arr s ! (unat (ipv4_map s a b) - 1))) = (a, b)))"

definition srv_inv :: "srv_udp_state \<Rightarrow> bool" where
  "srv_inv s \<longleftrightarrow> sess_inv s \<and> auth_ok s \<and> peer_ok s \<and> route_ok s"

section \<open>Input and output\<close>

text \<open>A part of a run that only does I/O: every traced event satisfies \<open>P\<close>.\<close>

definition io_only :: "(io \<Rightarrow> bool) \<Rightarrow> srv_udp_state \<Rightarrow> srv_udp_state \<Rightarrow> bool" where
  "io_only P s s' \<longleftrightarrow> (\<exists>log. list_all P log \<and> io s' = io s @ log) \<and> (stop s \<longrightarrow> stop s')
     \<and> s'\<lparr>in_emergency := in_emergency s, stop := stop s, tick := tick s, io := io s\<rparr> = s"

text \<open>What a handler may change besides the session table and the route table.\<close>

definition handled :: "(io \<Rightarrow> bool) \<Rightarrow> srv_udp_state \<Rightarrow> srv_udp_state \<Rightarrow> bool" where
  "handled P s s' \<longleftrightarrow> cfg s' = cfg s \<and> tun_fds s' = tun_fds s \<and> udp_fd s' = udp_fd s
     \<and> epl_threads s' = epl_threads s \<and> n_on_threads s' = n_on_threads s \<and> (stop s \<longrightarrow> stop s')
     \<and> zr_is_online s' = zr_is_online s \<and> (zr_pkt s' = None \<longleftrightarrow> zr_pkt s = None)
     \<and> threads_wont_exit s' = threads_wont_exit s
     \<and> length (sess_arr s') = length (sess_arr s) \<and> (\<exists>log. list_all P log \<and> io s' = io s @ log)"

lemma io_only_refl [simp]: "io_only P s s"
  by (simp add: io_only_def)

lemma io_only_quiet [simp]:
  "io_only P s (t\<lparr>in_emergency := e\<rparr>) = io_only P s t"
  "io_only P s (t\<lparr>tick := n\<rparr>) = io_only P s t"
  by (simp_all add: io_only_def)

lemma io_only_stop [simp]: "io_only P s t \<Longrightarrow> io_only P s (t\<lparr>stop := True\<rparr>)"
  by (simp add: io_only_def)

lemma io_only_event:
  "P x \<Longrightarrow> io_only P s (s\<lparr>tick := n, io := io s @ [x]\<rparr>)"
  by (simp add: io_only_def)

lemma io_only_trans:
  assumes "io_only P s t" and "io_only P t u"
  shows "io_only P s u"
proof -
  obtain l1 where "list_all P l1" "io t = io s @ l1" using assms(1) by (auto simp: io_only_def)
  moreover obtain l2 where "list_all P l2" "io u = io t @ l2" using assms(2) by (auto simp: io_only_def)
  ultimately have "list_all P (l1 @ l2) \<and> io u = io s @ (l1 @ l2)" by simp
  moreover have "u\<lparr>in_emergency := in_emergency s, stop := stop s, tick := tick s, io := io s\<rparr>
      = (u\<lparr>in_emergency := in_emergency t, stop := stop t, tick := tick t, io := io t\<rparr>)
          \<lparr>in_emergency := in_emergency s, stop := stop s, tick := tick s, io := io s\<rparr>" by simp
  ultimately show ?thesis using assms unfolding io_only_def by metis
qed

lemma io_only_mono: "io_only P s t \<Longrightarrow> (\<And>x. P x \<Longrightarrow> Q x) \<Longrightarrow> io_only Q s t"
  unfolding io_only_def by (metis (no_types, lifting) list.pred_mono_strong)

lemma io_only_fields:
  assumes "io_only P s s'"
  shows "sess_arr s' = sess_arr s" "sess_stk s' = sess_stk s" "sess_map s' = sess_map s"
    "n_on_sess s' = n_on_sess s" "cfg s' = cfg s" "ipv4_map s' = ipv4_map s"
    "tun_fds s' = tun_fds s" "udp_fd s' = udp_fd s" "epl_threads s' = epl_threads s"
    "n_on_threads s' = n_on_threads s" "zr_is_online s' = zr_is_online s" "zr_pkt s' = zr_pkt s"
    "threads_wont_exit s' = threads_wont_exit s"
proof -
  have e: "s = s'\<lparr>in_emergency := in_emergency s, stop := stop s, tick := tick s, io := io s\<rparr>"
    using assms by (simp add: io_only_def)
  show "sess_arr s' = sess_arr s" "sess_stk s' = sess_stk s" "sess_map s' = sess_map s"
    "n_on_sess s' = n_on_sess s" "cfg s' = cfg s" "ipv4_map s' = ipv4_map s"
    "tun_fds s' = tun_fds s" "udp_fd s' = udp_fd s" "epl_threads s' = epl_threads s"
    "n_on_threads s' = n_on_threads s" "zr_is_online s' = zr_is_online s" "zr_pkt s' = zr_pkt s"
    "threads_wont_exit s' = threads_wont_exit s"
    by (subst e, simp)+
qed

lemma srv_inv_cong:
  assumes "sess_arr s' = sess_arr s" "sess_stk s' = sess_stk s" "sess_map s' = sess_map s"
    "n_on_sess s' = n_on_sess s" "cfg s' = cfg s" "ipv4_map s' = ipv4_map s"
  shows "srv_inv s' \<longleftrightarrow> srv_inv s"
proof -
  have "same_table s s'" using assms by (simp add: same_table_def sess_key_def)
  then show ?thesis
    using assms same_table_inv same_table_conn
    by (simp add: srv_inv_def auth_ok_def peer_ok_def route_ok_def sess_key_def)
qed

lemma io_only_inv: "io_only P s s' \<Longrightarrow> srv_inv s' \<longleftrightarrow> srv_inv s"
  using srv_inv_cong [of s' s] io_only_fields by blast

lemma io_only_conn: "io_only P s s' \<Longrightarrow> conn s' = conn s"
  using io_only_fields(1) by (simp add: conn_def)

lemma io_only_handled:
  assumes "io_only P s s'"
  shows "handled P s s'"
proof -
  have "(\<exists>log. list_all P log \<and> io s' = io s @ log) \<and> (stop s \<longrightarrow> stop s')"
    using assms by (simp add: io_only_def)
  with io_only_fields [OF assms] show ?thesis by (simp add: handled_def)
qed

lemma handled_refl [simp]: "handled P s s"
  by (rule io_only_handled) simp

lemma handled_trans:
  assumes "handled P s t" and "handled P t u"
  shows "handled P s u"
proof -
  obtain l1 where "list_all P l1" "io t = io s @ l1" using assms(1) by (auto simp: handled_def)
  moreover obtain l2 where "list_all P l2" "io u = io t @ l2" using assms(2) by (auto simp: handled_def)
  ultimately have "list_all P (l1 @ l2) \<and> io u = io s @ (l1 @ l2)" by simp
  then show ?thesis using assms unfolding handled_def by metis
qed

lemma handled_mono: "handled P s t \<Longrightarrow> (\<And>x. P x \<Longrightarrow> Q x) \<Longrightarrow> handled Q s t"
  unfolding handled_def by (metis (no_types, lifting) list.pred_mono_strong)

subsection \<open>The two retry loops\<close>

text \<open>An event that sends the bytes to the address, whatever the result.\<close>

definition to_peer :: "sockaddr_in \<Rightarrow> io \<Rightarrow> bool" where
  "to_peer a x \<longleftrightarrow> (\<exists>bs r. x = Sendto a bs r)"

definition sends :: "sockaddr_in \<Rightarrow> u8 list \<Rightarrow> io \<Rightarrow> bool" where
  "sends a bs x \<longleftrightarrow> (\<exists>r. x = Sendto a bs r)"

definition writes :: "int \<Rightarrow> u8 list \<Rightarrow> io \<Rightarrow> bool" where
  "writes fd bs x \<longleftrightarrow> (\<exists>r. x = Write fd bs r)"

lemma sends_to_peer: "sends a bs x \<Longrightarrow> to_peer a x"
  by (auto simp: sends_def to_peer_def)

lemma emergency_udp_io [simp]: "io_only P s (snd (emergency_wait_for_udp_fd_be_writable K s))"
  by (simp add: emergency_wait_for_udp_fd_be_writable_def wait_for_fd_be_writable_def Let_def)

lemma emergency_tun_io [simp]: "io_only P s (snd (emergency_wait_for_tun_fd_be_writable K s))"
  by (simp add: emergency_wait_for_tun_fd_be_writable_def wait_for_fd_be_writable_def Let_def)

lemma send_once_io:
  "send_to_client_once K a m len s = (r, s') \<Longrightarrow> io_only (sends a (mem_read m 0 len)) s s'"
  by (auto simp: send_to_client_once_def sends_def Let_def intro!: io_only_event split: if_splits)

lemma write_once_io:
  "write_tun_data K fd m s = (r, s') \<Longrightarrow> io_only (writes fd (mem_read m 4 (unat (pkt_dlen m)))) s s'"
  by (auto simp: write_tun_data_def writes_def Let_def intro!: io_only_event split: if_splits)

lemma send_to_client_io:
  assumes "send_to_client K i m len s = Some (r, s')"
  shows "io_only (sends (addr (sess_arr s ! i)) (mem_read m 0 len)) s s'"
proof -
  have "io_only (sends (addr (sess_arr s ! i)) (mem_read m 0 len)) s (snd y)"
    if "send_to_client K i m len s = Some y" for y
    using that
  proof (rule send_to_client.raw_induct [where P =
        "\<lambda>K i m len s y. io_only (sends (addr (sess_arr s ! i)) (mem_read m 0 len)) s (snd y)", rotated])
    fix f and K :: kernel and i m len and s :: srv_udp_state and y
    let ?P = "sends (addr (sess_arr s ! i)) (mem_read m 0 len)"
    assume IH: "\<And>K i m len s y. f K i m len s = Some y \<Longrightarrow>
        io_only (sends (addr (sess_arr s ! i)) (mem_read m 0 len)) s (snd y)"
      and y: "(case send_to_client_once K (addr (sess_arr s ! i)) m len s of
          (send_ret, s1) \<Rightarrow>
            if send_ret < 0 then
              (if send_ret = - EAGAIN then
                 (case emergency_wait_for_udp_fd_be_writable K s1 of
                    (ret, s2) \<Rightarrow> if ret = 0 then f K i m len s2 else Some (ret, s2))
               else Some (send_ret, s1))
            else Some (send_ret, s1\<lparr>in_emergency := False\<rparr>)) = Some y"
    obtain send_ret s1 where 1: "send_to_client_once K (addr (sess_arr s ! i)) m len s = (send_ret, s1)" by fastforce
    obtain ret s2 where 2: "emergency_wait_for_udp_fd_be_writable K s1 = (ret, s2)" by fastforce
    have io1: "io_only ?P s s1" using 1 by (rule send_once_io)
    have "io_only ?P s1 s2" using emergency_udp_io [of ?P s1 K] 2 by simp
    with io1 have io2: "io_only ?P s s2" by (rule io_only_trans)
    have arr: "sess_arr s2 = sess_arr s" using io_only_fields [OF io2] by simp
    show "io_only ?P s (snd y)"
    proof (cases "send_ret = - EAGAIN \<and> ret = 0")
      case True
      with y 1 2 have "f K i m len s2 = Some y" by simp
      from IH [OF this] arr have "io_only ?P s2 (snd y)" by simp
      with io2 show ?thesis by (rule io_only_trans)
    next
      case False
      then show ?thesis using y io1 io2 unfolding 1 2 prod.case by (auto split: if_splits)
    qed
  qed
  with assms show ?thesis by fastforce
qed

lemma handle_clpkt_tun_data_io:
  assumes "handle_clpkt_tun_data K pkt s = Some (r, pkt', s')"
  shows "io_only (writes (tun_fds s ! 0) (mem_read (raw pkt) 4 (unat (pkt_dlen (raw pkt))))) s s' \<and> pkt' = pkt"
proof -
  let ?Q = "\<lambda>(K :: kernel) pkt (s :: srv_udp_state) y. io_only (writes (tun_fds s ! 0) (mem_read (raw pkt) 4 (unat (pkt_dlen (raw pkt))))) s
    (snd (snd y)) \<and> fst (snd y) = pkt"
  have "?Q K pkt s y" if "handle_clpkt_tun_data K pkt s = Some y" for y
    using that
  proof (rule handle_clpkt_tun_data.raw_induct [where P = ?Q, rotated])
    fix f and K :: kernel and pkt and s :: srv_udp_state and y
    let ?P = "writes (tun_fds s ! 0) (mem_read (raw pkt) 4 (unat (pkt_dlen (raw pkt))))"
    assume IH: "\<And>K pkt s y. f K pkt s = Some y \<Longrightarrow> ?Q K pkt s y"
      and y: "(case write_tun_data K (tun_fds s ! 0) (raw pkt) s of
          (write_ret, s1) \<Rightarrow>
            if write_ret < 0 then
              (if write_ret = - EAGAIN then
                 (case emergency_wait_for_tun_fd_be_writable K s1 of
                    (ret, s2) \<Rightarrow> if ret = 0 then f K pkt s2 else Some (ret, pkt, s2))
               else Some (write_ret, pkt, s1))
            else Some (0, pkt, s1)) = Some y"
    obtain write_ret s1 where 1: "write_tun_data K (tun_fds s ! 0) (raw pkt) s = (write_ret, s1)" by fastforce
    obtain ret s2 where 2: "emergency_wait_for_tun_fd_be_writable K s1 = (ret, s2)" by fastforce
    have io1: "io_only ?P s s1" using 1 by (rule write_once_io)
    have "io_only ?P s1 s2" using emergency_tun_io [of ?P s1 K] 2 by simp
    with io1 have io2: "io_only ?P s s2" by (rule io_only_trans)
    have fds: "tun_fds s2 = tun_fds s" using io_only_fields [OF io2] by simp
    show "?Q K pkt s y"
    proof (cases "write_ret = - EAGAIN \<and> ret = 0")
      case True
      with y 1 2 have "f K pkt s2 = Some y" by simp
      from IH [OF this] fds have "io_only ?P s2 (snd (snd y))" "fst (snd y) = pkt" by simp_all
      with io2 show ?thesis using io_only_trans by blast
    next
      case False
      then show ?thesis using y io1 io2 unfolding 1 2 prod.case by (auto split: if_splits)
    qed
  qed
  with assms show ?thesis by fastforce
qed

section \<open>Elementary updates\<close>

lemma upd_field: "(\<And>x. g (f x) = g x) \<Longrightarrow> g (xs[i := f (xs ! i)] ! j) = g (xs ! j)"
  by (cases "i = j"; cases "i < length xs") (auto simp: not_less list_update_beyond)

text \<open>Updates of session fields the invariant does not mention.\<close>

lemma srv_inv_upd_sess:
  assumes "srv_inv s"
    and "\<And>x. idx (f x) = idx x" "\<And>x. is_connected (f x) = is_connected x"
      "\<And>x. src_addr (f x) = src_addr x" "\<And>x. src_port (f x) = src_port x"
      "\<And>x. addr (f x) = addr x" "\<And>x. is_authenticated (f x) = is_authenticated x"
      "\<And>x. ipv4_iff (f x) = ipv4_iff x"
  shows "srv_inv (upd_sess i f s) \<and> conn (upd_sess i f s) = conn s \<and> handled P s (upd_sess i f s)"
proof -
  have st: "same_table s (upd_sess i f s)" using assms by (intro same_table_upd_sess)
  have g: "addr (sess_arr (upd_sess i f s) ! j) = addr (sess_arr s ! j)"
    "is_authenticated (sess_arr (upd_sess i f s) ! j) = is_authenticated (sess_arr s ! j)"
    "is_connected (sess_arr (upd_sess i f s) ! j) = is_connected (sess_arr s ! j)"
    "ipv4_iff (sess_arr (upd_sess i f s) ! j) = ipv4_iff (sess_arr s ! j)"
    "sess_key (upd_sess i f s) j = sess_key s j" for j
    unfolding sess_key_def upd_sess_arr by (subst upd_field; simp add: assms)+
  have c: "conn (upd_sess i f s) = conn s" using st by (rule same_table_conn)
  have a: "auth_ok (upd_sess i f s)" "peer_ok (upd_sess i f s)" "route_ok (upd_sess i f s)"
    using assms(1) by (simp_all add: srv_inv_def auth_ok_def peer_ok_def route_ok_def c upd_sess_frame
        g [unfolded upd_sess_arr])
  show ?thesis
    using a c same_table_inv [OF st] assms(1) by (simp add: srv_inv_def handled_def frame)
qed

lemma srv_inv_last_act:
  assumes "srv_inv s"
  shows "srv_inv (snd (udp_sess_update_last_act K i s)) \<and> conn (snd (udp_sess_update_last_act K i s)) = conn s
    \<and> handled P s (snd (udp_sess_update_last_act K i s))
    \<and> (\<forall>j. addr (sess_arr (snd (udp_sess_update_last_act K i s)) ! j) = addr (sess_arr s ! j))"
proof -
  define s1 where "s1 = s\<lparr>tick := tick s + 1\<rparr>"
  obtain t ret where u: "udp_sess_update_last_act K i s = (ret, upd_sess i (\<lambda>x. x\<lparr>last_act := t\<rparr>) s1)"
    using update_last_act_eq by (metis s1_def)
  have io: "io_only P s s1" by (simp add: s1_def)
  have "srv_inv s1" using io_only_inv [OF io] assms by simp
  from srv_inv_upd_sess [OF this, of "\<lambda>x. x\<lparr>last_act := t\<rparr>" i P]
  have i: "srv_inv (upd_sess i (\<lambda>x. x\<lparr>last_act := t\<rparr>) s1)"
      "conn (upd_sess i (\<lambda>x. x\<lparr>last_act := t\<rparr>) s1) = conn s1"
      "handled P s1 (upd_sess i (\<lambda>x. x\<lparr>last_act := t\<rparr>) s1)" by simp_all
  have "addr (sess_arr (upd_sess i (\<lambda>x. x\<lparr>last_act := t\<rparr>) s1) ! j) = addr (sess_arr s ! j)" for j
    unfolding upd_sess_arr by (subst upd_field) (simp_all add: s1_def)
  then show ?thesis
    using i io_only_conn [OF io] handled_trans [OF io_only_handled [OF io]] by (simp add: u)
qed

text \<open>Removing a route.\<close>

definition drop_route :: "nat \<Rightarrow> srv_udp_state \<Rightarrow> srv_udp_state" where
  "drop_route i s = (let a = ipv4_iff (sess_arr s ! i) in
     if a \<noteq> 0 then s\<lparr>ipv4_map := del_ipv4_route_map (ipv4_map s) a\<rparr> else s)"

definition unrouted :: "nat \<Rightarrow> srv_udp_state \<Rightarrow> bool" where
  "unrouted i s \<longleftrightarrow> (\<forall>a b. ipv4_map s a b \<noteq> 0 \<longrightarrow> (a, b) \<noteq> (0, 0) \<longrightarrow> unat (ipv4_map s a b) - 1 \<noteq> i)"

lemma route_key_zero [simp]: "route_key 0 = (0, 0)"
  by (simp add: route_key_def addr_byte0_def addr_byte1_def)

lemma del_route_apply:
  "del_ipv4_route_map m x a b = (if route_key x = (a, b) then 0 else m a b)"
  by (auto simp: del_ipv4_route_map_def route_key_def)

lemma add_route_apply:
  "add_ipv4_route_map m x k a b = (if route_key x = (a, b) then k + 1 else m a b)"
  by (auto simp: add_ipv4_route_map_def route_key_def)

lemma drop_route_fields [simp]:
  "sess_arr (drop_route i s) = sess_arr s" "sess_stk (drop_route i s) = sess_stk s"
  "sess_map (drop_route i s) = sess_map s" "n_on_sess (drop_route i s) = n_on_sess s"
  "cfg (drop_route i s) = cfg s" "io (drop_route i s) = io s" "tun_fds (drop_route i s) = tun_fds s"
  "udp_fd (drop_route i s) = udp_fd s" "epl_threads (drop_route i s) = epl_threads s"
  "n_on_threads (drop_route i s) = n_on_threads s" "stop (drop_route i s) = stop s"
  "zr_is_online (drop_route i s) = zr_is_online s" "zr_pkt (drop_route i s) = zr_pkt s"
  "threads_wont_exit (drop_route i s) = threads_wont_exit s"
  by (simp_all add: drop_route_def Let_def)

lemma drop_route_map:
  "ipv4_map (drop_route i s) a b
    = (if ipv4_iff (sess_arr s ! i) \<noteq> 0 \<and> route_key (ipv4_iff (sess_arr s ! i)) = (a, b) then 0
       else ipv4_map s a b)"
  by (auto simp: drop_route_def Let_def del_route_apply)

lemma drop_route_conn [simp]: "conn (drop_route i s) = conn s"
  by (simp add: conn_def)

lemma drop_route_inv:
  assumes "srv_inv s"
  shows "srv_inv (drop_route i s)" and "unrouted i (drop_route i s)"
proof -
  have r: "route_ok s" using assms by (simp add: srv_inv_def)
  have st: "same_table s (drop_route i s)" by (simp add: same_table_def sess_key_def)
  have "route_ok (drop_route i s)"
    using r unfolding route_ok_def by (simp add: drop_route_map)
  then show "srv_inv (drop_route i s)"
    using assms same_table_inv [OF st] by (simp add: srv_inv_def auth_ok_def peer_ok_def sess_key_def)
  show "unrouted i (drop_route i s)"
    unfolding unrouted_def
  proof (intro allI impI notI)
    fix a b
    assume n: "ipv4_map (drop_route i s) a b \<noteq> 0" and z: "(a, b) \<noteq> (0, 0)"
      and e: "unat (ipv4_map (drop_route i s) a b) - 1 = i"
    have m: "ipv4_map (drop_route i s) a b = ipv4_map s a b" using n by (simp add: drop_route_map split: if_splits)
    with r n z e have k: "route_key (ipv4_iff (sess_arr s ! i)) = (a, b)" by (metis route_ok_def)
    with z have "ipv4_iff (sess_arr s ! i) \<noteq> 0" by (metis route_key_zero)
    with k n show False by (simp add: drop_route_map)
  qed
qed

lemma delete_inv:
  assumes inv: "srv_inv s" and i: "i \<in> conn s" and u: "unrouted i s"
    and d: "delete_udp_session i s = (ret, s')"
  shows "srv_inv s' \<and> ret = 0 \<and> conn s' = conn s - {i} \<and> handled P s s'
    \<and> (\<forall>j. j \<noteq> i \<longrightarrow> sess_arr s' ! j = sess_arr s ! j) \<and> loop_c (sess_arr s' ! i) = 0"
proof -
  have si: "sess_inv s" using inv by (simp add: srv_inv_def)
  have s': "s' = snd (delete_udp_session i s)" "ret = fst (delete_udp_session i s)" using d by simp_all
  have sp: "ret = 0" "sess_inv s'" "conn s' = conn s - {i}" using delete_spec [OF si i] s' by simp_all
  have arr: "sess_arr s' = (sess_arr s)[i := reset_udp_session (idx (sess_arr s ! i))]"
    "ipv4_map s' = ipv4_map s" "cfg s' = cfg s" "io s' = io s" "tun_fds s' = tun_fds s" "udp_fd s' = udp_fd s"
    "epl_threads s' = epl_threads s" "n_on_threads s' = n_on_threads s" "stop s' = stop s"
    "zr_is_online s' = zr_is_online s" "zr_pkt s' = zr_pkt s" "threads_wont_exit s' = threads_wont_exit s"
    by (simp_all add: s'(1) frame)
  have other: "sess_arr s' ! j = sess_arr s ! j" if "j \<noteq> i" for j using that by (simp add: arr)
  have "auth_ok s'"
    using inv by (auto simp: srv_inv_def auth_ok_def arr nth_upd)
  moreover have "peer_ok s'"
    using inv other by (auto simp: srv_inv_def peer_ok_def sp(3) sess_key_def)
  moreover have "route_ok s'"
    unfolding route_ok_def
  proof (intro allI impI)
    fix a b assume n: "ipv4_map s' a b \<noteq> 0"
    let ?k = "unat (ipv4_map s a b) - 1"
    have ro: "unat (ipv4_map s a b) \<le> length (sess_arr s)"
      "(a, b) \<noteq> (0, 0) \<longrightarrow> is_authenticated (sess_arr s ! ?k) \<and> route_key (ipv4_iff (sess_arr s ! ?k)) = (a, b)"
      using inv n by (auto simp: srv_inv_def route_ok_def arr(2))
    have "(a, b) \<noteq> (0, 0) \<longrightarrow> ?k \<noteq> i" using u n by (simp add: unrouted_def arr(2))
    then show "unat (ipv4_map s' a b) \<le> length (sess_arr s') \<and> ((a, b) \<noteq> (0, 0) \<longrightarrow>
        is_authenticated (sess_arr s' ! (unat (ipv4_map s' a b) - 1))
        \<and> route_key (ipv4_iff (sess_arr s' ! (unat (ipv4_map s' a b) - 1))) = (a, b))"
      using ro other by (simp add: arr(2)) (simp add: arr(1))
  qed
  ultimately have "srv_inv s'" using sp(2) by (simp add: srv_inv_def)
  moreover have "handled P s s'" by (simp add: handled_def arr)
  moreover have "loop_c (sess_arr s' ! i) = 0"
    using conn_less [OF i] by (simp add: arr(1) reset_udp_session_def zero_sess_def)
  ultimately show ?thesis using sp other by simp
qed

section \<open>Closing a session\<close>

lemma close_eq: "close_udp_session K i pkt s =
   (case send_to_client K i (fst (srv_pprep (raw pkt) TSRV_PKT_CLOSE 0 0))
           (snd (srv_pprep (raw pkt) TSRV_PKT_CLOSE 0 0)) (drop_route i s) of
      None \<Rightarrow> None
    | Some (r, s2) \<Rightarrow> Some (fst (delete_udp_session i s2),
        pkt\<lparr>raw := fst (srv_pprep (raw pkt) TSRV_PKT_CLOSE 0 0)\<rparr>, snd (delete_udp_session i s2)))"
  by (simp add: close_udp_session_def drop_route_def Let_def split_def split: option.split)

text \<open>
  What a handler guarantees: the invariant holds again, the traced events satisfy \<open>P\<close>, and
  no connected session outside \<open>X\<close> is touched.
\<close>

definition step_ok :: "(io \<Rightarrow> bool) \<Rightarrow> nat set \<Rightarrow> srv_udp_state \<Rightarrow> srv_udp_state \<Rightarrow> bool" where
  "step_ok P X s s' \<longleftrightarrow> srv_inv s' \<and> handled P s s' \<and> conn s' \<subseteq> conn s \<union> X \<and> conn s - X \<subseteq> conn s'
     \<and> (\<forall>j \<in> conn s - X. sess_arr s' ! j = sess_arr s ! j)"

lemma step_ok_trans:
  assumes "step_ok P X s t" and "step_ok P X t u"
  shows "step_ok P X s u"
proof -
  have "handled P s u" using assms handled_trans [of P s t u] by (simp add: step_ok_def)
  moreover have "sess_arr u ! j = sess_arr s ! j" if "j \<in> conn s - X" for j
  proof -
    have "j \<in> conn t - X" "sess_arr t ! j = sess_arr s ! j" using that assms(1) by (auto simp: step_ok_def)
    then show ?thesis using assms(2) by (simp add: step_ok_def)
  qed
  ultimately show ?thesis using assms by (auto simp: step_ok_def)
qed

lemma step_ok_mono:
  "step_ok P X s t \<Longrightarrow> (\<And>x. P x \<Longrightarrow> Q x) \<Longrightarrow> X \<subseteq> Y \<Longrightarrow> step_ok Q Y s t"
  using handled_mono [of P s t Q] by (auto simp: step_ok_def)

lemma step_ok_io: "srv_inv s \<Longrightarrow> io_only P s s' \<Longrightarrow> step_ok P X s s'"
  using io_only_inv io_only_conn io_only_handled io_only_fields(1) by (auto simp: step_ok_def)

lemma step_ok_refl: "srv_inv s \<Longrightarrow> step_ok P X s s"
  by (rule step_ok_io) simp_all

lemma step_ok_upd:
  assumes "srv_inv s"
    and "\<And>x. idx (f x) = idx x" "\<And>x. is_connected (f x) = is_connected x"
      "\<And>x. src_addr (f x) = src_addr x" "\<And>x. src_port (f x) = src_port x"
      "\<And>x. addr (f x) = addr x" "\<And>x. is_authenticated (f x) = is_authenticated x"
      "\<And>x. ipv4_iff (f x) = ipv4_iff x"
  shows "step_ok P {i} s (upd_sess i f s)"
  using srv_inv_upd_sess [OF assms, of i P] by (auto simp: step_ok_def)

lemma step_ok_last_act:
  assumes "srv_inv s"
  shows "step_ok P {i} s (snd (udp_sess_update_last_act K i s))"
proof -
  obtain t ret where u: "udp_sess_update_last_act K i s
      = (ret, upd_sess i (\<lambda>x. x\<lparr>last_act := t\<rparr>) (s\<lparr>tick := tick s + 1\<rparr>))"
    using update_last_act_eq by blast
  then show ?thesis using srv_inv_last_act [OF assms, of K i P] by (auto simp: step_ok_def)
qed

text \<open>After a handler ran for session \<open>i\<close>: it is still there, or it was closed and its slot reset.\<close>

definition kept_or_closed :: "nat \<Rightarrow> srv_udp_state \<Rightarrow> srv_udp_state \<Rightarrow> bool" where
  "kept_or_closed i s s' \<longleftrightarrow>
     (if i \<in> conn s' then addr (sess_arr s' ! i) = addr (sess_arr s ! i) else loop_c (sess_arr s' ! i) = 0)"

lemma close_spec:
  assumes inv: "srv_inv s" and i: "i \<in> conn s"
    and c: "close_udp_session K i pkt s = Some (ret, pkt', s')"
  shows "step_ok (to_peer (addr (sess_arr s ! i))) {i} s s' \<and> ret = 0 \<and> conn s' = conn s - {i}
    \<and> loop_c (sess_arr s' ! i) = 0"
proof -
  let ?P = "to_peer (addr (sess_arr s ! i))"
  define m len where "m = fst (srv_pprep (raw pkt) TSRV_PKT_CLOSE 0 0)"
    and "len = snd (srv_pprep (raw pkt) TSRV_PKT_CLOSE 0 0)"
  obtain r s2 where s2: "send_to_client K i m len (drop_route i s) = Some (r, s2)"
      and d: "delete_udp_session i s2 = (ret, s')"
    using c unfolding close_eq m_def [symmetric] len_def [symmetric] by (auto split: option.splits)
  have "io_only (sends (addr (sess_arr (drop_route i s) ! i)) (mem_read m 0 len)) (drop_route i s) s2"
    by (rule send_to_client_io [OF s2])
  then have io: "io_only ?P (drop_route i s) s2" by (rule io_only_mono) (auto dest: sends_to_peer)
  note f = io_only_fields [OF io]
  have inv2: "srv_inv s2" using io_only_inv [OF io] drop_route_inv(1) [OF inv, of i] by simp
  have c2: "conn s2 = conn s" using io_only_conn [OF io] by simp
  have "unrouted i s2" using drop_route_inv(2) [OF inv, of i] f by (simp add: unrouted_def)
  from delete_inv [OF inv2 _ this d, of ?P] i c2
  have r: "srv_inv s'" "ret = 0" "conn s' = conn s - {i}" "handled ?P s2 s'"
      "\<forall>j. j \<noteq> i \<longrightarrow> sess_arr s' ! j = sess_arr s2 ! j" "loop_c (sess_arr s' ! i) = 0" by simp_all
  have "handled ?P s (drop_route i s)" by (simp add: handled_def)
  with io_only_handled [OF io] r(4) have "handled ?P s s'" by (blast intro: handled_trans)
  with r f show ?thesis by (auto simp: step_ok_def)
qed

section \<open>New clients\<close>

text \<open>
  States that agree on routes and on who is authenticated, where nobody lost the connection.
\<close>

lemma auth_route_transfer:
  assumes "auth_ok s" "route_ok s"
    and m: "ipv4_map s' = ipv4_map s" "length (sess_arr s') = length (sess_arr s)" "conn s \<subseteq> conn s'"
    and same: "\<And>j. j < length (sess_arr s) \<Longrightarrow> is_authenticated (sess_arr s' ! j) = is_authenticated (sess_arr s ! j)
      \<and> ipv4_iff (sess_arr s' ! j) = ipv4_iff (sess_arr s ! j)"
  shows "auth_ok s' \<and> route_ok s'"
proof
  have "is_connected (sess_arr s ! j) \<Longrightarrow> is_connected (sess_arr s' ! j)" if "j < length (sess_arr s)" for j
    using that m(3) by (auto simp: conn_def)
  then show "auth_ok s'" using assms(1) same by (simp add: auth_ok_def m)
  show "route_ok s'"
    unfolding route_ok_def m
  proof (intro allI impI)
    fix x y assume n: "ipv4_map s x y \<noteq> 0"
    then have r: "unat (ipv4_map s x y) \<le> length (sess_arr s)" "0 < unat (ipv4_map s x y)"
      using assms(2) by (auto simp: route_ok_def unat_gt_0)
    then have "unat (ipv4_map s x y) - 1 < length (sess_arr s)" by linarith
    then show "unat (ipv4_map s x y) \<le> length (sess_arr s) \<and> ((x, y) \<noteq> (0, 0) \<longrightarrow>
        is_authenticated (sess_arr s' ! (unat (ipv4_map s x y) - 1))
        \<and> route_key (ipv4_iff (sess_arr s' ! (unat (ipv4_map s x y) - 1))) = (x, y))"
      using assms(2) n same by (simp add: route_ok_def)
  qed
qed

lemma create_nomem_inv:
  assumes inv: "srv_inv s" and n: "create_nomem s (ret, err, s1)"
    and fr: "ipv4_map s1 = ipv4_map s"
  shows "srv_inv s1 \<and> conn s1 = conn s \<and> (\<forall>j \<in> conn s. sess_arr s1 ! j = sess_arr s ! j)"
proof -
  have st: "same_table s s1" and o: "\<forall>i \<in> conn s. sess_arr s1 ! i = sess_arr s ! i"
    "\<And>i. i < length (sess_arr s) \<Longrightarrow> is_authenticated (sess_arr s1 ! i) = is_authenticated (sess_arr s ! i)
      \<and> ipv4_iff (sess_arr s1 ! i) = ipv4_iff (sess_arr s ! i)"
    using n by (simp_all add: create_nomem_def)
  have cn: "conn s1 = conn s" using st by (rule same_table_conn)
  have l: "length (sess_arr s1) = length (sess_arr s)" using st by (simp add: same_table_def)
  have "auth_ok s1 \<and> route_ok s1"
    using inv auth_route_transfer [of s s1] fr l cn o(2) by (simp add: srv_inv_def)
  moreover have "peer_ok s1" using inv o(1) by (simp add: srv_inv_def peer_ok_def cn sess_key_def)
  ultimately show ?thesis using cn o(1) same_table_inv [OF st] inv by (simp add: srv_inv_def)
qed

lemma create_done_inv:
  assumes inv: "srv_inv s" and c: "create_done a p s i (ret, err, s1)"
    and a: "a = ntohl (sin_addr saddr)" "p = ntohs (sin_port saddr)"
    and s2: "s2 = upd_sess i (\<lambda>x. x\<lparr>addr := saddr\<rparr>) s1"
  shows "srv_inv s2 \<and> i \<notin> conn s \<and> conn s2 = insert i (conn s) \<and> addr (sess_arr s2 ! i) = saddr
    \<and> (\<forall>j \<in> conn s. sess_arr s2 ! j = sess_arr s ! j)"
proof -
  have d: "sess_inv s1" "i \<notin> conn s" "conn s1 = insert i (conn s)" "sess_key s1 i = (a, p)"
      "\<And>j. j < length (sess_arr s) \<Longrightarrow> j \<noteq> i \<Longrightarrow> sess_arr s1 ! j = sess_arr s ! j"
      "is_authenticated (sess_arr s1 ! i) = is_authenticated (sess_arr s ! i)"
      "ipv4_iff (sess_arr s1 ! i) = ipv4_iff (sess_arr s ! i)"
      "length (sess_arr s1) = length (sess_arr s)" "ipv4_map s1 = ipv4_map s"
    using c by (simp_all add: create_done_def)
  have il: "i < length (sess_arr s)" using d(3,8) conn_less [of i s1] by simp
  have st: "same_table s1 s2" unfolding s2 by (rule same_table_upd_sess) simp_all
  have cn: "conn s2 = insert i (conn s)" using same_table_conn [OF st] d(3) by simp
  have f2: "ipv4_map s2 = ipv4_map s" "length (sess_arr s2) = length (sess_arr s)"
    by (simp_all add: s2 frame d)
  have x: "sess_arr s2 ! j = sess_arr s ! j" if "j < length (sess_arr s)" "j \<noteq> i" for j
    using that d(5) by (simp add: s2)
  have xi: "sess_arr s2 ! i = (sess_arr s1 ! i)\<lparr>addr := saddr\<rparr>" using il d(8) by (simp add: s2)
  have "is_authenticated (sess_arr s2 ! j) = is_authenticated (sess_arr s ! j)
      \<and> ipv4_iff (sess_arr s2 ! j) = ipv4_iff (sess_arr s ! j)" if "j < length (sess_arr s)" for j
    using that x [of j] xi d(6,7) by (cases "j = i") simp_all
  then have "auth_ok s2 \<and> route_ok s2"
    using inv auth_route_transfer [of s s2] f2 cn by (auto simp: srv_inv_def)
  moreover have "peer_ok s2"
    unfolding peer_ok_def cn
  proof
    fix j assume "j \<in> insert i (conn s)"
    then show "sess_key s2 j = (ntohl (sin_addr (addr (sess_arr s2 ! j))), ntohs (sin_port (addr (sess_arr s2 ! j))))"
      using inv x [of j] conn_less [of j s] d(2,4) a xi
      by (cases "j = i") (auto simp: srv_inv_def peer_ok_def sess_key_def)
  qed
  ultimately have "srv_inv s2" using d(1) same_table_inv [OF st] by (simp add: srv_inv_def)
  moreover have "sess_arr s2 ! j = sess_arr s ! j" if "j \<in> conn s" for j
    using that x [of j] d(2) conn_less [of j s] by auto
  ultimately show ?thesis using d(2) cn xi by simp
qed

lemma create_inv:
  assumes inv: "srv_inv s" and l: "lookup_udp_sess s a p = None"
    and c: "create_udp_sess K a p s = (ret, err, s1)"
    and a: "a = ntohl (sin_addr saddr)" "p = ntohs (sin_port saddr)"
  shows "case ret of
     None \<Rightarrow> srv_inv s1 \<and> conn s1 = conn s \<and> handled P s s1 \<and> (\<forall>j \<in> conn s. sess_arr s1 ! j = sess_arr s ! j)
   | Some i \<Rightarrow> (let s2 = upd_sess i (\<lambda>x. x\<lparr>addr := saddr\<rparr>) s1 in
       srv_inv s2 \<and> i \<notin> conn s \<and> conn s2 = insert i (conn s) \<and> handled P s s2
       \<and> addr (sess_arr s2 ! i) = saddr
       \<and> (\<forall>j \<in> conn s. sess_arr s2 ! j = sess_arr s ! j))"
proof -
  have si: "sess_inv s" using inv by (simp add: srv_inv_def)
  have cs: "create_full s (ret, err, s1) \<or> create_nomem s (ret, err, s1) \<or> (\<exists>i. create_done a p s i (ret, err, s1))"
    using create_spec [OF si l, of K] c by simp
  note fr = create_frame [of K a p s, unfolded c snd_conv]
  have hd: "handled P s s1" by (simp add: handled_def fr)
  show ?thesis
  proof (cases ret)
    case None
    then have "s1 = s \<or> create_nomem s (ret, err, s1)"
      using cs by (auto simp: create_full_def create_done_def)
    then have "srv_inv s1 \<and> conn s1 = conn s \<and> (\<forall>j \<in> conn s. sess_arr s1 ! j = sess_arr s ! j)"
      using inv create_nomem_inv [OF inv _ fr(2)] by blast
    then show ?thesis using None hd by simp
  next
    case (Some i)
    have d: "create_done a p s i (ret, err, s1)"
      using cs Some by (auto simp: create_full_def create_nomem_def) (simp add: create_done_def)
    define s2 where "s2 = upd_sess i (\<lambda>x. x\<lparr>addr := saddr\<rparr>) s1"
    have "handled P s s2" using hd by (simp add: s2_def handled_def frame)
    then show ?thesis using Some create_done_inv [OF inv d a s2_def] by (simp add: s2_def [symmetric])
  qed
qed

lemma send_handshake_io:
  assumes "send_handshake K i pkt s = Some (ret, pkt', s')"
  shows "io_only (to_peer (addr (sess_arr s ! i))) s s'"
proof -
  obtain m len where mm: "srv_pprep_handshake (raw pkt) = (m, len)" by fastforce
  obtain r where "send_to_client K i m len s = Some (r, s')"
    using assms mm by (auto simp: send_handshake_def bind_eq_Some_conv)
  from send_to_client_io [OF this] show ?thesis by (rule io_only_mono) (rule sends_to_peer)
qed

lemma send_handshake_reject_io:
  assumes "send_handshake_reject K i reason msg pkt s = Some (ret, pkt', s')"
  shows "io_only (to_peer (addr (sess_arr s ! i))) s s'"
proof -
  obtain m len where mm: "srv_pprep_handshake_reject (raw pkt) reason (Some msg) = (m, len)" by fastforce
  obtain r where "send_to_client K i m len s = Some (r, s')"
    using assms mm by (auto simp: send_handshake_reject_def bind_eq_Some_conv)
  from send_to_client_io [OF this] show ?thesis by (rule io_only_mono) (rule sends_to_peer)
qed

lemma handle_client_handshake_io:
  assumes "handle_client_handshake K i pkt s = Some (ret, pkt', s')"
  shows "io_only (to_peer (addr (sess_arr s ! i))) s s'"
  using assms send_handshake_io send_handshake_reject_io
  by (auto simp: handle_client_handshake_def Let_def bind_eq_Some_conv split: if_splits)

lemma handle_new_client_sess_spec:
  assumes inv: "srv_inv s" and i: "i \<in> conn s"
    and h: "handle_new_client_sess K i pkt s = Some (ret, pkt', s')"
  shows "step_ok (to_peer (addr (sess_arr s ! i))) {i} s s'"
proof -
  let ?P = "to_peer (addr (sess_arr s ! i))"
  obtain r1 pkt1 s1 where 1: "handle_client_handshake K i pkt s = Some (r1, pkt1, s1)"
    and 2: "r1 = 0 \<and> s' = s1 \<or> (\<exists>r2 pkt2. close_udp_session K i pkt1 s1 = Some (r2, pkt2, s'))"
    using h by (auto simp: handle_new_client_sess_def bind_eq_Some_conv split: if_splits)
  note io = handle_client_handshake_io [OF 1]
  have s1: "srv_inv s1" "i \<in> conn s1" "sess_arr s1 = sess_arr s"
    using io_only_inv [OF io] io_only_conn [OF io] io_only_fields [OF io] inv i by simp_all
  have "step_ok ?P {i} s s1" using inv io by (rule step_ok_io)
  moreover have "step_ok ?P {i} s1 s'"
    using 2 close_spec [OF s1(1,2)] s1(3) step_ok_refl [OF s1(1)] by metis
  ultimately show ?thesis by (rule step_ok_trans)
qed

lemma handle_new_client_spec:
  assumes inv: "srv_inv s" and l: "lookup_udp_sess s a p = None"
    and a: "a = ntohl (sin_addr saddr)" "p = ntohs (sin_port saddr)"
    and h: "handle_new_client K a p saddr pkt s = Some (ret, pkt', s')"
  shows "step_ok (to_peer saddr) (- conn s) s s'"
proof (cases "skip_session_creation pkt")
  case True
  with h inv show ?thesis by (simp add: handle_new_client_def step_ok_refl)
next
  case False
  obtain r1 err s1 where c: "create_udp_sess K a p s = (r1, err, s1)" by (metis prod.exhaust)
  note ci = create_inv [OF inv l c a, of "to_peer saddr"]
  show ?thesis
  proof (cases r1)
    case None
    with h c ci False show ?thesis
      by (auto simp: handle_new_client_def step_ok_def)
  next
    case (Some i)
    define s2 where "s2 = upd_sess i (\<lambda>x. x\<lparr>addr := saddr\<rparr>) s1"
    from ci Some have s2: "srv_inv s2" "i \<notin> conn s" "conn s2 = insert i (conn s)" "handled (to_peer saddr) s s2"
        "addr (sess_arr s2 ! i) = saddr" "\<forall>j \<in> conn s. sess_arr s2 ! j = sess_arr s ! j"
      by (simp_all add: s2_def Let_def)
    have "handle_new_client_sess K i pkt s2 = Some (ret, pkt', s')"
      using h c Some False by (simp add: handle_new_client_def s2_def)
    from handle_new_client_sess_spec [OF s2(1) _ this] s2 have "step_ok (to_peer saddr) {i} s2 s'" by simp
    then have "step_ok (to_peer saddr) (- conn s) s2 s'" by (rule step_ok_mono) (use s2(2) in auto)
    moreover have "step_ok (to_peer saddr) (- conn s) s s2" using s2 by (auto simp: step_ok_def)
    ultimately show ?thesis by (blast intro: step_ok_trans)
  qed
qed

section \<open>Packets of a known session\<close>

text \<open>The state in which a session has become authenticated.\<close>

definition authenticate :: "nat \<Rightarrow> u32 \<Rightarrow> string \<Rightarrow> srv_udp_state \<Rightarrow> srv_udp_state" where
  "authenticate i a u s =
     (let s2 = upd_sess i (\<lambda>x. x\<lparr>ipv4_iff := a\<rparr>) s;
          s3 = s2\<lparr>ipv4_map := add_ipv4_route_map (ipv4_map s2) a (idx (sess_arr s2 ! i))\<rparr>
      in upd_sess i (\<lambda>x. x\<lparr>is_authenticated := True, username := u\<rparr>) s3)"

lemma authenticate_fields:
  assumes "i < length (sess_arr s)"
  shows "sess_arr (authenticate i a u s)
      = (sess_arr s)[i := (sess_arr s ! i)\<lparr>ipv4_iff := a, is_authenticated := True, username := u\<rparr>]"
    and "ipv4_map (authenticate i a u s) = add_ipv4_route_map (ipv4_map s) a (idx (sess_arr s ! i))"
    and "same_table s (authenticate i a u s)" and "handled P s (authenticate i a u s)"
proof -
  show arr: "sess_arr (authenticate i a u s)
      = (sess_arr s)[i := (sess_arr s ! i)\<lparr>ipv4_iff := a, is_authenticated := True, username := u\<rparr>]"
    and "ipv4_map (authenticate i a u s) = add_ipv4_route_map (ipv4_map s) a (idx (sess_arr s ! i))"
    using assms by (simp_all add: authenticate_def Let_def frame)
  have "sess_stk (authenticate i a u s) = sess_stk s" "sess_map (authenticate i a u s) = sess_map s"
    "n_on_sess (authenticate i a u s) = n_on_sess s" "cfg (authenticate i a u s) = cfg s"
    by (simp_all add: authenticate_def Let_def frame)
  then show "same_table s (authenticate i a u s)"
    by (simp add: same_table_def arr nth_upd sess_key_def)
  show "handled P s (authenticate i a u s)"
    by (simp add: handled_def arr) (simp add: authenticate_def Let_def frame)
qed

lemma authenticate_route:
  assumes inv: "srv_inv s" and il: "i < length (sess_arr s)" and na: "\<not> is_authenticated (sess_arr s ! i)"
  shows "route_ok (authenticate i a u s)"
proof -
  note f = authenticate_fields [OF il, where a = a and u = u]
  have ix: "idx (sess_arr s ! i) = word_of_nat i" and sl: "i < 65535"
    using inv il unsigned_less [of "max_sp (sess_stk s)", where 'a = nat]
    by (simp_all add: srv_inv_def sess_inv_def slots_ok_def)
  have u1: "unat (word_of_nat i + 1 :: u16) = i + 1"
    using sl by (simp add: unat_word_ariths unat_of_nat)
  have r: "unat (ipv4_map s x y) \<le> length (sess_arr s) \<and> ((x, y) \<noteq> (0, 0) \<longrightarrow>
      unat (ipv4_map s x y) - 1 \<noteq> i \<and> is_authenticated (sess_arr s ! (unat (ipv4_map s x y) - 1))
        \<and> route_key (ipv4_iff (sess_arr s ! (unat (ipv4_map s x y) - 1))) = (x, y))"
    if "ipv4_map s x y \<noteq> 0" for x y
    using inv that na unfolding srv_inv_def route_ok_def by blast
  show ?thesis
    unfolding route_ok_def
  proof (intro allI impI)
    fix x y
    assume n: "ipv4_map (authenticate i a u s) x y \<noteq> 0"
    show "unat (ipv4_map (authenticate i a u s) x y) \<le> length (sess_arr (authenticate i a u s)) \<and> ((x, y) \<noteq> (0, 0) \<longrightarrow>
      is_authenticated (sess_arr (authenticate i a u s) ! (unat (ipv4_map (authenticate i a u s) x y) - 1))
      \<and> route_key (ipv4_iff (sess_arr (authenticate i a u s) ! (unat (ipv4_map (authenticate i a u s) x y) - 1))) = (x, y))"
    proof (cases "route_key a = (x, y)")
      case True
      then show ?thesis using il u1 by (simp add: f(1,2) add_route_apply ix)
    next
      case False
      then have "ipv4_map (authenticate i a u s) x y = ipv4_map s x y" by (simp add: f(2) add_route_apply)
      then show ?thesis using r [of x y] n by (cases "(x, y) = (0, 0)") (simp_all add: f(1))
    qed
  qed
qed

lemma authenticate_inv:
  assumes inv: "srv_inv s" and i: "i \<in> conn s" and na: "\<not> is_authenticated (sess_arr s ! i)"
  shows "step_ok P {i} s (authenticate i a u s) \<and> conn (authenticate i a u s) = conn s
    \<and> addr (sess_arr (authenticate i a u s) ! i) = addr (sess_arr s ! i)"
proof -
  define s' where "s' = authenticate i a u s"
  have il: "i < length (sess_arr s)" using i by (rule conn_less)
  note f = authenticate_fields [OF il, where a = a and u = u, folded s'_def]
  have c: "conn s' = conn s" using f(3) by (rule same_table_conn)
  have "auth_ok s'"
    using inv i by (auto simp: srv_inv_def auth_ok_def f(1) nth_upd conn_def)
  moreover have "peer_ok s'"
    using inv il by (auto simp: srv_inv_def peer_ok_def c f(1) nth_upd sess_key_def conn_def)
  moreover have "route_ok s'" unfolding s'_def by (rule authenticate_route [OF inv il na])
  ultimately have "srv_inv s'" using inv same_table_inv [OF f(3)] by (simp add: srv_inv_def)
  moreover have "\<forall>j \<in> conn s - {i}. sess_arr s' ! j = sess_arr s ! j" by (simp add: f(1))
  ultimately have "step_ok P {i} s s'" using f(4) [of P] c by (auto simp: step_ok_def)
  then show ?thesis using c il unfolding s'_def [symmetric] by (simp add: f(1))
qed

text \<open>The operating system never answers \<^verbatim>\<open>sendto\<close> with \<^verbatim>\<open>EBADMSG\<close> (see \<^verbatim>\<open>sendto(2)\<close>).\<close>

definition sendto_errno :: "kernel \<Rightarrow> bool" where
  "sendto_errno K \<longleftrightarrow> (\<forall>n. k_sendto K n \<noteq> - EBADMSG)"

lemma send_once_ret:
  "sendto_errno K \<Longrightarrow> send_to_client_once K a m len s = (r, s') \<Longrightarrow> r \<noteq> - EBADMSG"
  by (auto simp: sendto_errno_def send_to_client_once_def Let_def split: if_splits)

lemma emergency_udp_ret: "fst (emergency_wait_for_udp_fd_be_writable K s) \<in> {0, - ENETDOWN}"
  by (simp add: emergency_wait_for_udp_fd_be_writable_def Let_def split: prod.split)

lemma send_to_client_ret:
  assumes "sendto_errno K" and "send_to_client K i m len s = Some (r, s')"
  shows "r \<noteq> - EBADMSG"
proof -
  have "sendto_errno K \<longrightarrow> fst y \<noteq> - EBADMSG" if "send_to_client K i m len s = Some y" for y
    using that
  proof (rule send_to_client.raw_induct [where P = "\<lambda>K i m len s y. sendto_errno K \<longrightarrow> fst y \<noteq> - EBADMSG", rotated])
    fix f and K :: kernel and i m len and s :: srv_udp_state and y
    assume IH: "\<And>K i m len s y. f K i m len s = Some y \<Longrightarrow> sendto_errno K \<longrightarrow> fst y \<noteq> - EBADMSG"
      and y: "(case send_to_client_once K (addr (sess_arr s ! i)) m len s of
          (send_ret, s1) \<Rightarrow>
            if send_ret < 0 then
              (if send_ret = - EAGAIN then
                 (case emergency_wait_for_udp_fd_be_writable K s1 of
                    (ret, s2) \<Rightarrow> if ret = 0 then f K i m len s2 else Some (ret, s2))
               else Some (send_ret, s1))
            else Some (send_ret, s1\<lparr>in_emergency := False\<rparr>)) = Some y"
    obtain send_ret s1 where 1: "send_to_client_once K (addr (sess_arr s ! i)) m len s = (send_ret, s1)" by fastforce
    obtain ret s2 where 2: "emergency_wait_for_udp_fd_be_writable K s1 = (ret, s2)" by fastforce
    show "sendto_errno K \<longrightarrow> fst y \<noteq> - EBADMSG"
      using y IH [of K i m len s2 y] send_once_ret [OF _ 1] emergency_udp_ret [of K s1] unfolding 1 2 prod.case
      by (auto split: if_splits)
  qed
  with assms show ?thesis by fastforce
qed

text \<open>The outcomes of an authentication packet of a session that is not authenticated yet.\<close>

abbreviation auth_result :: "kernel \<Rightarrow> sc_pkt \<Rightarrow> srv_udp_state \<Rightarrow> if_info option" where
  "auth_result K pkt s \<equiv> teavpn2_auth (k_fopen K (tick s)) (data_dir (cfg_sys (cfg s)))
     (auth_username (get_pkt_auth (raw pkt))) (auth_password (get_pkt_auth (raw pkt)))"

lemma auth_rejected:
  assumes "\<not> is_authenticated (sess_arr s ! i)" and "auth_result K pkt s = None"
    and "handle_clpkt_auth K i pkt s = Some (ret, pkt', s')"
  shows "\<exists>r s1 r2 q. send_to_client K i (fst (srv_pprep (raw pkt) TSRV_PKT_AUTH_REJECT 0 0)) 4 (s\<lparr>tick := tick s + 1\<rparr>)
      = Some (r, s1) \<and> close_udp_session K i q s1 = Some (r2, pkt', s') \<and> ret = (if r < 0 then r else 0)"
proof -
  define m s0 where "m = fst (srv_pprep (raw pkt) TSRV_PKT_AUTH_REJECT 0 0)" and "s0 = s\<lparr>tick := tick s + 1\<rparr>"
  have p: "srv_pprep (raw pkt) TSRV_PKT_AUTH_REJECT 0 0 = (m, 4)"
    by (simp add: m_def prod_eq_iff pprep_len)
  have "do {
      (send_ret, s1) \<leftarrow> send_to_client K i m 4 s0;
      (_, pkt2, s2) \<leftarrow> close_udp_session K i (pkt\<lparr>raw := m\<rparr>) s1;
      Some (if send_ret < 0 then send_ret else 0, pkt2, s2)
    } = Some (ret, pkt', s')"
    using assms by (simp add: handle_clpkt_auth_def Let_def p s0_def)
  then show ?thesis
    unfolding m_def [symmetric] s0_def [symmetric] by (auto simp: bind_eq_Some_conv split del: if_split)
qed

lemma auth_accepted:
  assumes "\<not> is_authenticated (sess_arr s ! i)" and "auth_result K pkt s = Some ifi"
    and "handle_clpkt_auth K i pkt s = Some (ret, pkt', s')"
    and m: "m = fst (srv_pprep (put_if_info (raw pkt) 6 ifi) TSRV_PKT_AUTH_OK (word_of_nat SZ_AUTH_RES) 0)"
  shows "\<exists>r s1. send_to_client K i m 88 (s\<lparr>tick := tick s + 1\<rparr>) = Some (r, s1)
    \<and> (r < 0 \<and> ret = r \<and> (\<exists>r2 q. close_udp_session K i q s1 = Some (r2, pkt', s'))
       \<or> \<not> r < 0 \<and> ret = 0 \<and> pkt' = pkt\<lparr>raw := m\<rparr>
         \<and> s' = authenticate i (ntohl (inet_addr (ipv4 (get_if_info m 6))))
                  (strncpy2 (auth_username (get_pkt_auth (raw pkt))) 256) s1)"
proof -
  define s0 where "s0 = s\<lparr>tick := tick s + 1\<rparr>"
  have p: "srv_pprep (put_if_info (raw pkt) 6 ifi) TSRV_PKT_AUTH_OK 84 0 = (m, 88)"
    by (simp add: m prod_eq_iff pprep_len)
  have "do {
      (send_ret, s1) \<leftarrow> send_to_client K i m 88 s0;
      if send_ret < 0 then do {
        (_, pkt2, s2) \<leftarrow> close_udp_session K i (pkt\<lparr>raw := m\<rparr>) s1;
        Some (send_ret, pkt2, s2)
      } else Some (0, pkt\<lparr>raw := m\<rparr>, authenticate i (ntohl (inet_addr (ipv4 (get_if_info m 6))))
                  (strncpy2 (auth_username (get_pkt_auth (raw pkt))) 256) s1)
    } = Some (ret, pkt', s')"
    using assms(1-3) unfolding authenticate_def handle_clpkt_auth_def Let_def by (simp add: p s0_def)
  then show ?thesis
    unfolding s0_def [symmetric] by (auto simp: bind_eq_Some_conv split: if_splits)
qed

lemma send_step:
  assumes "srv_inv s" "io_only P s s0" "send_to_client K i m len s0 = Some (r, s1)"
    and "\<And>x. to_peer (addr (sess_arr s ! i)) x \<Longrightarrow> P x"
  shows "step_ok P X s s1 \<and> srv_inv s1 \<and> conn s1 = conn s \<and> sess_arr s1 = sess_arr s"
proof -
  have "sess_arr s0 = sess_arr s" using io_only_fields [OF assms(2)] by simp
  then have "io_only P s0 s1"
    using io_only_mono [OF send_to_client_io [OF assms(3)], of P] assms(4) sends_to_peer by metis
  with assms(2) have io: "io_only P s s1" by (rule io_only_trans)
  then show ?thesis
    using step_ok_io [OF assms(1) io] io_only_inv [OF io] io_only_conn [OF io] io_only_fields [OF io] assms(1) by simp
qed

lemma send_close_step:
  assumes "srv_inv s" "i \<in> conn s" "io_only (to_peer (addr (sess_arr s ! i))) s s0"
    and "send_to_client K i m len s0 = Some (r, s1)" "close_udp_session K i q s1 = Some (r2, q2, s')"
  shows "step_ok (to_peer (addr (sess_arr s ! i))) {i} s s' \<and> kept_or_closed i s s'"
proof -
  note s1 = send_step [OF assms(1,3,4), of "{i}", simplified]
  have i1: "i \<in> conn s1" and inv1: "srv_inv s1" using s1 assms(2) by simp_all
  have "step_ok (to_peer (addr (sess_arr s ! i))) {i} s1 s'" "i \<notin> conn s'" "loop_c (sess_arr s' ! i) = 0"
    using close_spec [OF inv1 i1 assms(5)] s1 by simp_all
  then show ?thesis using s1 step_ok_trans by (auto simp: kept_or_closed_def)
qed

lemma handle_clpkt_auth_spec:
  assumes K: "sendto_errno K" and inv: "srv_inv s" and i: "i \<in> conn s"
    and h: "handle_clpkt_auth K i pkt s = Some (ret, pkt', s')"
  shows "step_ok (to_peer (addr (sess_arr s ! i))) {i} s s' \<and> kept_or_closed i s s' \<and> ret \<noteq> - EBADMSG"
proof (cases "is_authenticated (sess_arr s ! i)")
  case True
  with h inv i show ?thesis by (simp add: handle_clpkt_auth_def step_ok_refl kept_or_closed_def Let_def)
next
  case na: False
  let ?P = "to_peer (addr (sess_arr s ! i))"
  define s0 where "s0 = s\<lparr>tick := tick s + 1\<rparr>"
  have io: "io_only ?P s s0" by (simp add: s0_def)
  show ?thesis
  proof (cases "auth_result K pkt s")
    case None
    from auth_rejected [OF na None h, folded s0_def] obtain m len r s1 r2 q
      where c: "send_to_client K i m len s0 = Some (r, s1)" "close_udp_session K i q s1 = Some (r2, pkt', s')"
        and ret: "ret = (if r < 0 then r else 0)" by blast
    show ?thesis using send_close_step [OF inv i io c] send_to_client_ret [OF K c(1)] ret by simp
  next
    case (Some ifi)
    from auth_accepted [OF na Some h refl, folded s0_def] obtain m r s1 a u
      where c: "send_to_client K i m 88 s0 = Some (r, s1)"
        and o: "r < 0 \<and> ret = r \<and> (\<exists>r2 q. close_udp_session K i q s1 = Some (r2, pkt', s'))
          \<or> ret = 0 \<and> s' = authenticate i a u s1" by blast
    note s1 = send_step [OF inv io c, of "{i}", simplified]
    from o show ?thesis
    proof (elim disjE conjE exE)
      fix r2 q assume "ret = r" and cl: "close_udp_session K i q s1 = Some (r2, pkt', s')"
      then show ?thesis using send_close_step [OF inv i io c cl] send_to_client_ret [OF K c] by simp
    next
      assume ret: "ret = 0" and s': "s' = authenticate i a u s1"
      have "step_ok ?P {i} s1 s' \<and> conn s' = conn s1 \<and> addr (sess_arr s' ! i) = addr (sess_arr s1 ! i)"
        unfolding s' using authenticate_inv [of s1 i] s1 i na by simp
      then show ?thesis using s1 i ret step_ok_trans [of ?P "{i}" s s1 s'] by (simp add: kept_or_closed_def)
    qed
  qed
qed

text \<open>
  The events a datagram may cause: packets to its sender, and writes to the first TUN descriptor.
\<close>

definition udp_event :: "sockaddr_in \<Rightarrow> int \<Rightarrow> io \<Rightarrow> bool" where
  "udp_event a fd x \<longleftrightarrow> to_peer a x \<or> (\<exists>bs r. x = Write fd bs r)"

lemma kept_or_closed_io: "i \<in> conn s \<Longrightarrow> io_only P s s' \<Longrightarrow> kept_or_closed i s s'"
  using io_only_conn io_only_fields(1) by (auto simp: kept_or_closed_def)

lemma kept_last_act:
  assumes "srv_inv s" "i \<in> conn s"
  shows "kept_or_closed i s (snd (udp_sess_update_last_act K i s))"
  using srv_inv_last_act [OF assms(1), of K i "\<lambda>_. True"] assms(2) by (simp add: kept_or_closed_def)

lemma handle_clpkt_reqsync_io:
  assumes "handle_clpkt_reqsync K i pkt s = Some (ret, pkt', s')"
  shows "io_only (to_peer (addr (sess_arr s ! i))) s s'"
proof -
  obtain m len where mm: "srv_pprep_sync (raw pkt) = (m, len)" by fastforce
  obtain r where "send_to_client K i m len s = Some (r, s')"
    using assms mm by (auto simp: handle_clpkt_reqsync_def bind_eq_Some_conv)
  from send_to_client_io [OF this] show ?thesis by (rule io_only_mono) (rule sends_to_peer)
qed

lemma handle_clpkt_spec:
  assumes K: "sendto_errno K" and inv: "srv_inv s" and i: "i \<in> conn s"
    and h: "handle_clpkt K i pkt s = Some (ret, pkt', s')"
  shows "step_ok (udp_event (addr (sess_arr s ! i)) (tun_fds s ! 0)) {i} s s' \<and> kept_or_closed i s s'
    \<and> (ret = - EBADMSG \<longrightarrow> i \<in> conn s')"
proof -
  let ?E = "udp_event (addr (sess_arr s ! i)) (tun_fds s ! 0)"
  have lift: "step_ok (to_peer (addr (sess_arr s ! i))) {i} s t \<Longrightarrow> step_ok ?E {i} s t" for t
    by (erule step_ok_mono) (simp_all add: udp_event_def)
  have same: "step_ok ?E {i} s s \<and> kept_or_closed i s s"
    using inv i by (simp add: step_ok_refl kept_or_closed_def)
  consider (hs) "pkt_type (raw pkt) = TCLI_PKT_HANDSHAKE" | (auth) "pkt_type (raw pkt) = TCLI_PKT_AUTH"
    | (tun) "pkt_type (raw pkt) = TCLI_PKT_TUN_DATA" | (req) "pkt_type (raw pkt) = TCLI_PKT_REQSYNC"
    | (syn) "pkt_type (raw pkt) = TCLI_PKT_SYNC" | (cls) "pkt_type (raw pkt) = TCLI_PKT_CLOSE"
    | (bad) "pkt_type (raw pkt) \<notin> {0, 1, 2, 3, 4, 5}" by blast
  then show ?thesis
  proof cases
    case hs
    with h have "ret = 0" "s' = s" by (simp_all add: handle_clpkt_def)
    then show ?thesis using same i by simp
  next
    case auth
    with h have "handle_clpkt_auth K i pkt s = Some (ret, pkt', s')" by (simp add: handle_clpkt_def)
    from handle_clpkt_auth_spec [OF K inv i this] lift show ?thesis by blast
  next
    case tun
    with h have "handle_clpkt_tun_data K pkt s = Some (ret, pkt', s')" by (simp add: handle_clpkt_def)
    from conjunct1 [OF handle_clpkt_tun_data_io [OF this]] have io: "io_only ?E s s'"
      by (rule io_only_mono) (auto simp: udp_event_def writes_def)
    then show ?thesis
      using step_ok_io [OF inv io] kept_or_closed_io [OF i io] io_only_conn [OF io] i by simp
  next
    case req
    with h obtain s1 where "handle_clpkt_reqsync K i pkt s = Some (ret, pkt', s1)"
      and s': "s' = snd (udp_sess_update_last_act K i s1)"
      by (auto simp: handle_clpkt_def bind_eq_Some_conv)
    then have io: "io_only (to_peer (addr (sess_arr s ! i))) s s1" by (intro handle_clpkt_reqsync_io)
    have s1: "srv_inv s1" "i \<in> conn s1" "sess_arr s1 = sess_arr s"
      using io_only_inv [OF io] io_only_conn [OF io] io_only_fields [OF io] inv i by simp_all
    have "kept_or_closed i s1 s'" unfolding s' using s1 by (intro kept_last_act)
    moreover have "i \<in> conn s'" using srv_inv_last_act [OF s1(1), of K i ?E] s1(2) by (simp add: s')
    moreover have "step_ok ?E {i} s1 s'" unfolding s' by (rule step_ok_last_act [OF s1(1)])
    ultimately show ?thesis
      using lift [OF step_ok_io [OF inv io]] s1 step_ok_trans by (auto simp: kept_or_closed_def)
  next
    case syn
    then have r: "ret = 0" "s' = snd (udp_sess_update_last_act K i s)" using h by (simp_all add: handle_clpkt_def)
    show ?thesis unfolding r(2) using step_ok_last_act [OF inv] kept_last_act [OF inv i] r(1) by simp
  next
    case cls
    with h obtain r2 where ret: "ret = 0" and "close_udp_session K i pkt s = Some (r2, pkt', s')"
      by (auto simp: handle_clpkt_def bind_eq_Some_conv)
    from close_spec [OF inv i this(2)] lift ret show ?thesis by (simp add: kept_or_closed_def)
  next
    case bad
    with h have "s' = s" by (auto simp: handle_clpkt_def Let_def)
    then show ?thesis using same i by simp
  qed
qed

lemma peer_unique:
  assumes "srv_inv s" and "lookup_udp_sess s (ntohl (sin_addr saddr)) (ntohs (sin_port saddr)) = Some i"
  shows "i \<in> conn s \<and> addr (sess_arr s ! i) = saddr"
proof -
  have k: "i \<in> conn s" "sess_key s i = (ntohl (sin_addr saddr), ntohs (sin_port saddr))"
    using assms lookup_iff by (auto simp: srv_inv_def)
  then have "ntohl (sin_addr (addr (sess_arr s ! i))) = ntohl (sin_addr saddr)"
    "ntohs (sin_port (addr (sess_arr s ! i))) = ntohs (sin_port saddr)"
    using assms(1) by (auto simp: srv_inv_def peer_ok_def)
  then have "sin_addr (addr (sess_arr s ! i)) = sin_addr saddr" "sin_port (addr (sess_arr s ! i)) = sin_port saddr"
    by (metis bswap32_bswap32, metis bswap16_bswap16)
  then show ?thesis using k(1) by simp
qed

text \<open>The slots a datagram may touch: its sender's, or one that was free.\<close>

definition sender_slots :: "srv_udp_state \<Rightarrow> sockaddr_in \<Rightarrow> nat set" where
  "sender_slots s saddr = (case lookup_udp_sess s (ntohl (sin_addr saddr)) (ntohs (sin_port saddr)) of
     Some i \<Rightarrow> {i} | None \<Rightarrow> - conn s)"

text \<open>The end of the handler, where the session's packet counter decides about a sync packet.\<close>

lemma datagram_counted:
  assumes l: "lookup_udp_sess s (ntohl (sin_addr saddr)) (ntohs (sin_port saddr)) = Some i"
    and h: "handle_datagram K saddr pkt s = Some (ret, pkt', s')"
    and 1: "handle_clpkt K i pkt s = Some (r1, pkt1, s1)" "\<not> r1 < 0"
    and s2: "s2 = upd_sess i (\<lambda>x. x\<lparr>loop_c := loop_c x + 1\<rparr>) s1"
  shows "loop_c (sess_arr s2 ! i) mod 32 \<noteq> 0 \<and> s' = s2
    \<or> loop_c (sess_arr s2 ! i) mod 32 = 0
      \<and> (\<exists>m len r. send_to_client K i m len (snd (udp_sess_update_last_act K i s2)) = Some (r, s'))"
proof -
  obtain m len where m: "srv_pprep_sync (raw pkt1) = (m, len)" by fastforce
  have "(if loop_c (sess_arr s2 ! i) mod 32 = 0 then do {
      (_, s4) \<leftarrow> send_to_client K i m len (snd (udp_sess_update_last_act K i s2));
      Some (r1, pkt1\<lparr>raw := m\<rparr>, s4)
    } else Some (r1, pkt1, s2)) = Some (ret, pkt', s')"
    using h l 1 m unfolding handle_datagram_def s2 Let_def by (simp cong: if_cong)
  then show ?thesis by (auto simp: bind_eq_Some_conv split: if_splits)
qed

lemma datagram_counted_spec:
  assumes inv: "srv_inv s1" and il: "i < length (sess_arr s1)"
    and ka: "if i \<in> conn s1 then addr (sess_arr s1 ! i) = saddr else loop_c (sess_arr s1 ! i) = 0"
    and s2: "s2 = upd_sess i (\<lambda>x. x\<lparr>loop_c := loop_c x + 1\<rparr>) s1"
    and r: "loop_c (sess_arr s2 ! i) mod 32 \<noteq> 0 \<and> s' = s2
    \<or> loop_c (sess_arr s2 ! i) mod 32 = 0
      \<and> (\<exists>m len r. send_to_client K i m len (snd (udp_sess_update_last_act K i s2)) = Some (r, s'))"
  shows "step_ok (udp_event saddr fd) {i} s1 s'"
proof -
  let ?E = "udp_event saddr fd"
  have st2: "step_ok ?E {i} s1 s2" unfolding s2 by (rule step_ok_upd [OF inv]) simp_all
  then have inv2: "srv_inv s2" by (simp add: step_ok_def)
  from r show ?thesis
  proof (elim disjE conjE exE)
    fix m len r
    assume z: "loop_c (sess_arr s2 ! i) mod 32 = 0"
    define s3 where "s3 = snd (udp_sess_update_last_act K i s2)"
    assume "send_to_client K i m len (snd (udp_sess_update_last_act K i s2)) = Some (r, s')"
    then have c: "send_to_client K i m len s3 = Some (r, s')" by (simp add: s3_def)
    have "i \<in> conn s1"
    proof (rule ccontr)
      assume "i \<notin> conn s1"
      then have "loop_c (sess_arr s2 ! i) = 1" using ka il by (simp add: s2)
      then show False using z by simp
    qed
    then have "addr (sess_arr s2 ! i) = saddr" using ka il by (simp add: s2)
    then have a3: "addr (sess_arr s3 ! i) = saddr"
      using srv_inv_last_act [OF inv2, of K i ?E] by (simp add: s3_def)
    have st3: "step_ok ?E {i} s2 s3" unfolding s3_def by (rule step_ok_last_act [OF inv2])
    then have "srv_inv s3" by (simp add: step_ok_def)
    from send_step [OF this io_only_refl c, of ?E "{i}"] a3 have "step_ok ?E {i} s3 s'"
      by (simp add: udp_event_def)
    with st3 have "step_ok ?E {i} s2 s'" by (rule step_ok_trans)
    with st2 show ?thesis by (rule step_ok_trans)
  qed (use st2 in simp)
qed

lemma handle_datagram_known:
  assumes K: "sendto_errno K" and inv: "srv_inv s"
    and l: "lookup_udp_sess s (ntohl (sin_addr saddr)) (ntohs (sin_port saddr)) = Some i"
    and h: "handle_datagram K saddr pkt s = Some (ret, pkt', s')"
  shows "step_ok (udp_event saddr (tun_fds s ! 0)) {i} s s'"
proof -
  let ?E = "udp_event saddr (tun_fds s ! 0)"
  have i: "i \<in> conn s" and ad: "addr (sess_arr s ! i) = saddr" using peer_unique [OF inv l] by simp_all
  obtain r1 pkt1 s1 where 1: "handle_clpkt K i pkt s = Some (r1, pkt1, s1)"
    using h l by (auto simp: handle_datagram_def bind_eq_Some_conv)
  have s1: "step_ok ?E {i} s s1" "kept_or_closed i s s1" "r1 = - EBADMSG \<longrightarrow> i \<in> conn s1"
    using handle_clpkt_spec [OF K inv i 1] ad by simp_all
  have inv1: "srv_inv s1" using s1(1) by (simp add: step_ok_def)
  have "step_ok ?E {i} s1 s'"
  proof (cases "r1 < 0")
    case True
    show ?thesis
    proof (cases "r1 = - EBADMSG")
      case True
      then have "i \<in> conn s1" "addr (sess_arr s1 ! i) = saddr"
        using s1 ad by (simp_all add: kept_or_closed_def)
      moreover obtain r2 pkt2 where "close_udp_session K i pkt1 s1 = Some (r2, pkt2, s')"
        using h l 1 True by (auto simp: handle_datagram_def bind_eq_Some_conv)
      ultimately have "step_ok (to_peer saddr) {i} s1 s'" using close_spec [OF inv1] by metis
      then show ?thesis by (rule step_ok_mono) (simp_all add: udp_event_def)
    next
      case False
      with h l 1 True have "s' = s1" by (simp add: handle_datagram_def)
      then show ?thesis using inv1 by (simp add: step_ok_refl)
    qed
  next
    case False
    have il: "i < length (sess_arr s1)" using i conn_less [of i s] s1(1) by (simp add: step_ok_def handled_def)
    have ka: "if i \<in> conn s1 then addr (sess_arr s1 ! i) = saddr else loop_c (sess_arr s1 ! i) = 0"
      using s1(2) ad by (simp add: kept_or_closed_def)
    show ?thesis by (rule datagram_counted_spec [OF inv1 il ka refl datagram_counted [OF l h 1 False refl]])
  qed
  with s1(1) show ?thesis by (rule step_ok_trans)
qed

lemma handle_datagram_spec:
  assumes "sendto_errno K" and "srv_inv s" and "handle_datagram K saddr pkt s = Some (ret, pkt', s')"
  shows "step_ok (udp_event saddr (tun_fds s ! 0)) (sender_slots s saddr) s s'"
proof (cases "lookup_udp_sess s (ntohl (sin_addr saddr)) (ntohs (sin_port saddr))")
  case None
  with assms(3) have "handle_new_client K (ntohl (sin_addr saddr)) (ntohs (sin_port saddr)) saddr pkt s
      = Some (ret, pkt', s')" by (simp add: handle_datagram_def)
  from handle_new_client_spec [OF assms(2) None refl refl this]
  have "step_ok (udp_event saddr (tun_fds s ! 0)) (- conn s) s s'"
    by (rule step_ok_mono) (simp_all add: udp_event_def)
  with None show ?thesis by (simp add: sender_slots_def)
next
  case (Some i)
  from handle_datagram_known [OF assms(1,2) this assms(3)] Some show ?thesis by (simp add: sender_slots_def)
qed

section \<open>Properties\<close>

lemma handle_event_from_udp_spec:
  assumes "sendto_errno K" and "srv_inv s" and "k_recvfrom K (tick s) = (n, bs, saddr)"
    and "handle_event_from_udp K pkt s = Some (ret, pkt', s')"
  shows "step_ok (udp_event saddr (tun_fds s ! 0)) (sender_slots s saddr) s s'"
proof -
  define s1 where "s1 = s\<lparr>tick := tick s + 1\<rparr>"
  have io: "io_only P s s1" for P by (simp add: s1_def)
  have inv1: "srv_inv s1" using io_only_inv [OF io] assms(2) by blast
  have "lookup_udp_sess s1 = lookup_udp_sess s" "conn s1 = conn s"
    by (simp_all add: s1_def lookup_udp_sess_def smap_def conn_def fun_eq_iff)
  then have f: "tun_fds s1 = tun_fds s" "sender_slots s1 saddr = sender_slots s saddr"
    by (simp add: s1_def, simp add: sender_slots_def split: option.split)
  have "s' = s1 \<or> (\<exists>pkt1. handle_datagram K saddr pkt1 s1 = Some (ret, pkt', s'))"
    using assms(3,4) by (auto simp: handle_event_from_udp_def do_recv_from_def sys_recvfrom_def s1_def Let_def split: if_splits)
  then have "step_ok (udp_event saddr (tun_fds s ! 0)) (sender_slots s saddr) s1 s'"
    using handle_datagram_spec [OF assms(1) inv1, of saddr] step_ok_refl [OF inv1] f by auto
  with step_ok_io [OF assms(2) io] show ?thesis by (rule step_ok_trans)
qed

text \<open>
  C1: a datagram affects only its sender.  If the server's invariant holds and the operating
  system never fails a \<^verbatim>\<open>sendto\<close> with \<^verbatim>\<open>EBADMSG\<close>, then handling whatever datagram arrives
  keeps the invariant; every packet sent goes to the sender of the datagram and everything
  written goes to the first TUN descriptor; and no session of any other client is changed or
  closed.
\<close>

theorem udp_event_isolated:
  assumes "sendto_errno K" and "srv_inv s" and "k_recvfrom K (tick s) = (n, bs, saddr)"
    and "handle_event_from_udp K pkt s = Some (ret, pkt', s')"
  shows "srv_inv s' \<and> cfg s' = cfg s
    \<and> (\<exists>log. io s' = io s @ log \<and>
         (\<forall>x \<in> set log. (\<exists>bs r. x = Sendto saddr bs r) \<or> (\<exists>bs r. x = Write (tun_fds s ! 0) bs r)))
    \<and> (\<forall>j \<in> conn s. sess_key s j \<noteq> (ntohl (sin_addr saddr), ntohs (sin_port saddr)) \<longrightarrow>
         j \<in> conn s' \<and> sess_arr s' ! j = sess_arr s ! j)"
proof -
  have st: "step_ok (udp_event saddr (tun_fds s ! 0)) (sender_slots s saddr) s s'"
    by (rule handle_event_from_udp_spec [OF assms])
  have "j \<notin> sender_slots s saddr"
    if "j \<in> conn s" "sess_key s j \<noteq> (ntohl (sin_addr saddr), ntohs (sin_port saddr))" for j
    using that assms(2) lookup_iff [of s] by (auto simp: sender_slots_def srv_inv_def split: option.splits)
  then show ?thesis
    using st by (auto simp: step_ok_def handled_def udp_event_def to_peer_def list_all_iff)
qed

text \<open>Witness of C1: a handshake packet of a new client reaches a fresh server.\<close>

definition client_kernel :: kernel where
  "client_kernel = silent_kernel\<lparr>k_sendto := (\<lambda>_. 100),
     k_recvfrom := (\<lambda>_. (100, mem_read (fst (cli_pprep_handshake (\<lambda>_. 0))) 0 100,
        \<lparr>sin_port = 0x8813, sin_addr = 0x0100000a\<rparr>))\<rparr>"

lemma fresh_srv_inv: "srv_inv (fresh_table n)"
proof -
  have "conn (fresh_table n) = {}" by (auto simp: conn_def fresh_table_def)
  moreover have "auth_ok (fresh_table n)" by (simp add: auth_ok_def fresh_table_def)
  moreover have "route_ok (fresh_table n)" by (simp add: route_ok_def fresh_table_def)
  ultimately show ?thesis using fresh_table_inv by (simp add: srv_inv_def peer_ok_def)
qed

theorem udp_event_isolated_witness:
  "\<exists>ret pkt' s'. handle_event_from_udp client_kernel \<lparr>pkt_len = 0, raw = (\<lambda>_. 0)\<rparr> (fresh_table 2)
     = Some (ret, pkt', s') \<and> srv_inv s'"
proof -
  have K: "sendto_errno client_kernel" and p: "prompt client_kernel"
    by (simp_all add: sendto_errno_def prompt_def client_kernel_def silent_kernel_def)
  obtain n bs saddr where r: "k_recvfrom client_kernel (tick (fresh_table 2)) = (n, bs, saddr)"
    by (metis prod.exhaust)
  obtain ret pkt' s' where h: "handle_event_from_udp client_kernel \<lparr>pkt_len = 0, raw = (\<lambda>_. 0)\<rparr> (fresh_table 2)
      = Some (ret, pkt', s')"
    using event_from_udp_yields [OF p, of "\<lparr>pkt_len = 0, raw = (\<lambda>_. 0)\<rparr>" "fresh_table 2"]
    by (auto simp: yields_def)
  from udp_event_isolated [OF K fresh_srv_inv r h] h show ?thesis by blast
qed

end
