(* ===== verification/Srv_Routing.thy ===== *)
theory Srv_Routing
  imports Srv_Inv
begin

text \<open>
  Packets from the TUN device: the routing half of
  \<^verbatim>\<open>src/teavpn2/server/linux/udp_epoll.c\<close> (\<open>handle_event_from_tun\<close> and below).  A packet
  is encapsulated once and sent to the session its destination address is mapped to, or to
  all authenticated sessions when it is not mapped or not IPv4.
\<close>

section \<open>Who receives a packet\<close>

text \<open>An event that sends the bytes to the peer of an authenticated session of \<open>s\<close>.\<close>

definition to_authenticated :: "srv_udp_state \<Rightarrow> u8 list \<Rightarrow> io \<Rightarrow> bool" where
  "to_authenticated s bs x \<longleftrightarrow>
     (\<exists>i r. i \<in> conn s \<and> is_authenticated (sess_arr s ! i) \<and> x = Sendto (addr (sess_arr s ! i)) bs r)"

lemma broadcast_loop_io:
  assumes "broadcast_loop K is m len s = Some (ret, s')"
    and "\<And>i. i \<in> set is \<Longrightarrow> is_authenticated (sess_arr s ! i) \<Longrightarrow> P (addr (sess_arr s ! i))"
  shows "io_only (\<lambda>x. \<exists>a. P a \<and> sends a (mem_read m 0 len) x) s s'"
  using assms
proof (induction "is" arbitrary: s)
  case (Cons i "is")
  let ?Q = "\<lambda>x. \<exists>a. P a \<and> sends a (mem_read m 0 len) x"
  show ?case
  proof (cases "is_authenticated (sess_arr s ! i)")
    case True
    then obtain r s1 where 1: "send_to_client K i m len s = Some (r, s1)"
      and 2: "r < 0 \<and> s' = s1 \<or> broadcast_loop K is m len s1 = Some (ret, s')"
      using Cons.prems(1) by (auto simp: bind_eq_Some_conv split: if_splits)
    have "P (addr (sess_arr s ! i))" using Cons.prems(2) True by simp
    then have io: "io_only ?Q s s1" by (intro io_only_mono [OF send_to_client_io [OF 1]]) auto
    have arr: "sess_arr s1 = sess_arr s" using io_only_fields [OF io] by simp
    from 2 show ?thesis
    proof
      assume b: "broadcast_loop K is m len s1 = Some (ret, s')"
      have "io_only ?Q s1 s'" by (rule Cons.IH [OF b]) (use Cons.prems(2) arr in auto)
      with io show ?thesis by (rule io_only_trans)
    qed (use io in simp)
  next
    case False
    then show ?thesis using Cons.prems by (intro Cons.IH) auto
  qed
qed simp

lemma broadcast_io:
  assumes inv: "srv_inv s" and b: "broadcast_packet K len pkt s = Some (ret, s')"
  shows "io_only (to_authenticated s (mem_read (raw pkt) 0 len)) s s'"
proof -
  define P where "P = (\<lambda>a. \<exists>i \<in> conn s. is_authenticated (sess_arr s ! i) \<and> a = addr (sess_arr s ! i))"
  have l: "length (sess_arr s) = unat (max_conn (cfg_sock (cfg s)))"
    using inv by (simp add: srv_inv_def sess_inv_def slots_ok_def)
  have "io_only (\<lambda>x. \<exists>a. P a \<and> sends a (mem_read (raw pkt) 0 len) x) s s'"
  proof (rule broadcast_loop_io [OF b [unfolded broadcast_packet_def]])
    fix i assume "i \<in> set [0..<unat (max_conn (cfg_sock (cfg s)))]" "is_authenticated (sess_arr s ! i)"
    moreover from this have "i \<in> conn s"
      using inv l by (auto simp: srv_inv_def auth_ok_def conn_def)
    ultimately show "P (addr (sess_arr s ! i))" by (auto simp: P_def)
  qed
  then show ?thesis by (rule io_only_mono) (auto simp: P_def sends_def to_authenticated_def)
qed

text \<open>The slot a destination is mapped to.\<close>

lemma route_find:
  assumes inv: "srv_inv s" and f: "0 \<le> get_ipv4_route_map (ipv4_map s) dst" and z: "route_key dst \<noteq> (0, 0)"
  shows "\<exists>i. get_ipv4_route_map (ipv4_map s) dst = int i \<and> unat (word_of_int (int i) :: u16) = i
    \<and> i \<in> conn s \<and> is_authenticated (sess_arr s ! i)
    \<and> route_key (ipv4_iff (sess_arr s ! i)) = route_key dst"
proof -
  obtain a b where k: "route_key dst = (a, b)" by fastforce
  then have ab: "a = addr_byte0 dst" "b = addr_byte1 dst" by (simp_all add: route_key_def)
  define e where "e = ipv4_map s a b"
  have ne: "e \<noteq> 0" and g: "get_ipv4_route_map (ipv4_map s) dst = uint e - 1"
    using f by (auto simp: get_ipv4_route_map_def Let_def e_def ab split: if_splits)
  then have p: "0 < unat e" by (simp add: unat_gt_0)
  have r: "unat e \<le> length (sess_arr s)" "is_authenticated (sess_arr s ! (unat e - 1))"
    "route_key (ipv4_iff (sess_arr s ! (unat e - 1))) = (a, b)"
    using inv ne z unfolding srv_inv_def route_ok_def e_def k by blast+
  then have il: "unat e - 1 < length (sess_arr s)" using p by linarith
  have "unat e - 1 \<in> conn s" using inv r(2) il by (simp add: srv_inv_def auth_ok_def conn_def)
  moreover have "uint e - 1 = int (unat e - 1)" using p by (simp add: of_nat_diff)
  moreover have "unat (word_of_int (int (unat e - 1)) :: u16) = unat e - 1"
    using il inv sess_len_less [of s] by (simp add: srv_inv_def sess_inv_def unat_of_nat)
  ultimately show ?thesis using g r k by auto
qed

text \<open>An entry of the route table is a slot number of 16 bits.\<close>

lemma route_index:
  "0 \<le> get_ipv4_route_map mp d \<Longrightarrow> unat (word_of_int (get_ipv4_route_map mp d) :: u16) = nat (get_ipv4_route_map mp d)"
  using unsigned_less [of "mp (addr_byte0 d) (addr_byte1 d)", where 'a = int]
  by (simp add: get_ipv4_route_map_def unat_eq_nat_uint uint_word_of_int Let_def)

text \<open>
  An event that sends the bytes to the peer of an authenticated session of \<open>s\<close>, or to the slot of
  the route of the addresses that end in two zero bytes, which may be stale.
\<close>

definition routed_to :: "srv_udp_state \<Rightarrow> mem \<Rightarrow> u8 list \<Rightarrow> io \<Rightarrow> bool" where
  "routed_to s m bs x \<longleftrightarrow> to_authenticated s bs x
     \<or> iphdr_version m = 4 \<and> route_key (iphdr_daddr m) = (0, 0)
       \<and> (\<exists>i r. get_ipv4_route_map (ipv4_map s) (iphdr_daddr m) = int i \<and> x = Sendto (addr (sess_arr s ! i)) bs r)"

lemma route_dst_io:
  assumes inv: "srv_inv s" and h: "route_packet_dst K len pkt s = Some (ret, s')"
  shows "io_only (routed_to s (raw pkt) (mem_read (raw pkt) 0 len)) s s'"
proof (cases "iphdr_version (raw pkt) = 4")
  case False
  with h have "broadcast_packet K len pkt s = Some (ret, s')" by (simp add: route_packet_dst_def)
  from broadcast_io [OF inv this] show ?thesis by (rule io_only_mono) (simp add: routed_to_def)
next
  case True
  let ?P = "routed_to s (raw pkt) (mem_read (raw pkt) 0 len)" and ?dst = "iphdr_daddr (raw pkt)"
  obtain r1 s1 where 1: "route_ipv4_packet K ?dst len pkt s = Some (r1, s1)"
    and 2: "r1 \<noteq> - ENOENT \<and> s' = s1 \<or> r1 = - ENOENT \<and> broadcast_packet K len pkt s1 = Some (ret, s')"
    using h True by (auto simp: route_packet_dst_def bind_eq_Some_conv split: if_splits)
  have io: "io_only ?P s s1"
  proof (cases "get_ipv4_route_map (ipv4_map s) ?dst < 0")
    case True
    with 1 show ?thesis by (simp add: route_ipv4_packet_def)
  next
    case False
    define i where "i = nat (get_ipv4_route_map (ipv4_map s) ?dst)"
    have i: "get_ipv4_route_map (ipv4_map s) ?dst = int i" using False by (simp add: i_def)
    then obtain r where "send_to_client K i (raw pkt) len s = Some (r, s1)"
      using 1 False route_index [of "ipv4_map s" ?dst] by (auto simp: route_ipv4_packet_def bind_eq_Some_conv Let_def)
    from send_to_client_io [OF this] show ?thesis
      by (rule io_only_mono) (use i route_find [OF inv, of ?dst] True in
          \<open>auto simp: sends_def routed_to_def to_authenticated_def\<close>)
  qed
  have inv1: "srv_inv s1" using io_only_inv [OF io] inv by simp
  have same: "to_authenticated s1 = to_authenticated s"
    using io_only_conn [OF io] io_only_fields [OF io] by (simp add: to_authenticated_def fun_eq_iff)
  have "io_only ?P s1 s'" if "broadcast_packet K len pkt s1 = Some (ret, s')"
    using broadcast_io [OF inv1 that] by (rule io_only_mono) (simp add: routed_to_def same)
  with 2 io show ?thesis using io_only_trans by metis
qed

section \<open>What is sent\<close>

text \<open>The encapsulation of the \<open>n\<close> bytes that were read.\<close>

definition tun_packet :: "u8 list \<Rightarrow> u8 list" where
  "tun_packet bs = [TSRV_PKT_TUN_DATA, 0, ucast (drop_bit 8 (word_of_nat (length bs) :: u16)),
     ucast (word_of_nat (length bs) :: u16)] @ bs"

lemma tun_packet_bytes:
  assumes "length bs \<le> 4096"
  shows "mem_read (fst (srv_pprep (mem_write m 4 bs) TSRV_PKT_TUN_DATA (word_of_int (int (length bs))) 0)) 0
      (snd (srv_pprep (mem_write m 4 bs) TSRV_PKT_TUN_DATA (word_of_int (int (length bs))) 0)) = tun_packet bs"
proof -
  define m' where "m' = fst (srv_pprep (mem_write m 4 bs) TSRV_PKT_TUN_DATA (word_of_int (int (length bs))) 0)"
  have l: "snd (srv_pprep (mem_write m 4 bs) TSRV_PKT_TUN_DATA (word_of_int (int (length bs))) 0) = 4 + length bs"
    using assms by (simp add: srv_pprep_def unat_of_nat)
  have "mem_read m' 4 (length bs) = bs"
    by (simp add: m'_def pprep_read)
  moreover have "mem_read m' 0 4 = [TSRV_PKT_TUN_DATA, 0, ucast (drop_bit 8 (word_of_nat (length bs) :: u16)),
      ucast (word_of_nat (length bs) :: u16)]"
    by (simp add: mem_read_def m'_def srv_pprep_def put_be16_def upt_rec)
  ultimately show ?thesis
    using mem_read_split [of m' 0 4 "length bs"] unfolding l m'_def [symmetric] by (simp add: tun_packet_def)
qed

lemma iphdr_pprep [simp]:
  "iphdr_version (fst (srv_pprep m t n p)) = iphdr_version m"
  "iphdr_daddr (fst (srv_pprep m t n p)) = iphdr_daddr m"
  by (simp_all add: iphdr_version_def iphdr_daddr_def get_be32_def pprep_out)

lemma handle_event_from_tun_eq:
  assumes r: "k_read K (tick s) = (int (length bs), bs)" and l: "length bs \<le> 4096"
    and m: "m = fst (srv_pprep (mem_write (raw pkt) 4 bs) TSRV_PKT_TUN_DATA (word_of_int (int (length bs))) 0)"
    and len: "len = snd (srv_pprep (mem_write (raw pkt) 4 bs) TSRV_PKT_TUN_DATA (word_of_int (int (length bs))) 0)"
  shows "handle_event_from_tun K pkt s = do {
      (ret, s1) \<leftarrow> route_packet_dst K len (pkt\<lparr>pkt_len := length bs, raw := m\<rparr>) (s\<lparr>tick := tick s + 1\<rparr>);
      Some (ret, pkt\<lparr>pkt_len := length bs, raw := m\<rparr>, s1)
    }"
  unfolding m len by (simp add: handle_event_from_tun_def sys_read_whole [OF r] l route_packet_def Let_def split_def)

section \<open>Delivery\<close>

text \<open>A socket that accepts every datagram.\<close>

definition sends_ok :: "kernel \<Rightarrow> bool" where
  "sends_ok K \<longleftrightarrow> (\<forall>n. 0 < k_sendto K n)"

definition sent_to :: "io \<Rightarrow> (sockaddr_in \<times> u8 list) option" where
  "sent_to x = (case x of Sendto a bs r \<Rightarrow> Some (a, bs) | _ \<Rightarrow> None)"

text \<open>\<open>delivers xs s s'\<close>: exactly these datagrams are sent, and nothing else changes.\<close>

definition delivers :: "(sockaddr_in \<times> u8 list) list \<Rightarrow> srv_udp_state \<Rightarrow> srv_udp_state \<Rightarrow> bool" where
  "delivers xs s s' \<longleftrightarrow> io_only (\<lambda>_. True) s s' \<and> (\<exists>log. io s' = io s @ log \<and> map sent_to log = map Some xs)"

lemma delivers_Nil: "delivers [] s s"
  by (simp add: delivers_def)

lemma delivers_append:
  assumes "delivers xs s t" and "delivers ys t u"
  shows "delivers (xs @ ys) s u"
proof -
  obtain l1 where "io t = io s @ l1" "map sent_to l1 = map Some xs" using assms(1) by (auto simp: delivers_def)
  moreover obtain l2 where "io u = io t @ l2" "map sent_to l2 = map Some ys" using assms(2) by (auto simp: delivers_def)
  ultimately have "io u = io s @ (l1 @ l2) \<and> map sent_to (l1 @ l2) = map Some (xs @ ys)" by simp
  then show ?thesis using assms io_only_trans unfolding delivers_def by blast
qed

lemma delivers_arr: "delivers xs s s' \<Longrightarrow> sess_arr s' = sess_arr s \<and> ipv4_map s' = ipv4_map s \<and> cfg s' = cfg s"
  using io_only_fields by (auto simp: delivers_def)

lemma send_ok:
  assumes "sends_ok K" and "0 < len"
  shows "\<exists>r s'. send_to_client K i m len s = Some (r, s') \<and> 0 < r
    \<and> delivers [(addr (sess_arr s ! i), mem_read m 0 len)] s s'"
proof -
  have p: "0 < k_sendto K (tick s)" using assms(1) by (simp add: sends_ok_def)
  define s' where "s' = s\<lparr>tick := tick s + 1,
      io := io s @ [Sendto (addr (sess_arr s ! i)) (mem_read m 0 len) (k_sendto K (tick s))],
      in_emergency := False\<rparr>"
  have "send_to_client K i m len s = Some (k_sendto K (tick s), s')"
    using p assms(2) by (subst send_to_client.simps) (simp add: send_to_client_once_def Let_def s'_def)
  moreover have "delivers [(addr (sess_arr s ! i), mem_read m 0 len)] s s'"
    by (simp add: delivers_def s'_def sent_to_def io_only_def)
  ultimately show ?thesis using p by blast
qed

lemma broadcast_loop_delivers:
  assumes "sends_ok K" and "0 < len"
  shows "\<exists>s'. broadcast_loop K is m len s = Some (0, s') \<and>
    delivers (map (\<lambda>i. (addr (sess_arr s ! i), mem_read m 0 len))
      (filter (\<lambda>i. is_authenticated (sess_arr s ! i)) is)) s s'"
proof (induction "is" arbitrary: s)
  case Nil
  show ?case by (simp add: delivers_Nil)
next
  case (Cons i "is")
  show ?case
  proof (cases "is_authenticated (sess_arr s ! i)")
    case True
    obtain r s1 where s1: "send_to_client K i m len s = Some (r, s1)" "0 < r"
        "delivers [(addr (sess_arr s ! i), mem_read m 0 len)] s s1"
      using send_ok [OF assms] by blast
    have arr: "sess_arr s1 = sess_arr s" using delivers_arr [OF s1(3)] by simp
    obtain s' where "broadcast_loop K is m len s1 = Some (0, s')"
        "delivers (map (\<lambda>i. (addr (sess_arr s ! i), mem_read m 0 len))
          (filter (\<lambda>i. is_authenticated (sess_arr s ! i)) is)) s1 s'"
      using Cons.IH [of s1] arr by auto
    then show ?thesis using True s1 delivers_append [OF s1(3)] by auto
  next
    case False
    then show ?thesis using Cons.IH [of s] by simp
  qed
qed

text \<open>The slots a packet with this header goes to.\<close>

definition receivers :: "srv_udp_state \<Rightarrow> mem \<Rightarrow> nat list" where
  "receivers s m =
     (if iphdr_version m = 4 \<and> 0 \<le> get_ipv4_route_map (ipv4_map s) (iphdr_daddr m)
      then [nat (get_ipv4_route_map (ipv4_map s) (iphdr_daddr m))]
      else filter (\<lambda>i. is_authenticated (sess_arr s ! i)) [0..<unat (max_conn (cfg_sock (cfg s)))])"

lemma entry_pos: "e \<noteq> (0 :: u16) \<Longrightarrow> 1 \<le> uint e"
  using unsigned_greater_eq [of e, where 'a = int] unsigned_eq_0_iff [of e, where 'a = int] by linarith

lemma route_dst_delivers:
  assumes K: "sends_ok K" and len: "0 < len"
  shows "\<exists>s'. route_packet_dst K len pkt s = Some (0, s')
    \<and> delivers (map (\<lambda>i. (addr (sess_arr s ! i), mem_read (raw pkt) 0 len)) (receivers s (raw pkt))) s s'"
proof (cases "iphdr_version (raw pkt) = 4 \<and> 0 \<le> get_ipv4_route_map (ipv4_map s) (iphdr_daddr (raw pkt))")
  case True
  let ?g = "get_ipv4_route_map (ipv4_map s) (iphdr_daddr (raw pkt))"
  define i where "i = nat ?g"
  have u: "unat (word_of_int ?g :: u16) = i" using True route_index [of "ipv4_map s"] by (simp add: i_def)
  obtain r s' where "send_to_client K i (raw pkt) len s = Some (r, s')" "0 < r"
      "delivers [(addr (sess_arr s ! i), mem_read (raw pkt) 0 len)] s s'"
    using send_ok [OF K len] by blast
  then show ?thesis
    using True u by (simp add: route_packet_dst_def route_ipv4_packet_def receivers_def i_def [symmetric])
next
  case False
  obtain s' where "broadcast_packet K len pkt s = Some (0, s')"
      "delivers (map (\<lambda>i. (addr (sess_arr s ! i), mem_read (raw pkt) 0 len)) (receivers s (raw pkt))) s s'"
    using broadcast_loop_delivers [OF K len, of "[0..<unat (max_conn (cfg_sock (cfg s)))]" "raw pkt" s] False
    unfolding broadcast_packet_def receivers_def by (simp only: if_False) blast
  moreover have "get_ipv4_route_map (ipv4_map s) d < 0 \<Longrightarrow> get_ipv4_route_map (ipv4_map s) d = - ENOENT" for d
    using entry_pos [of "ipv4_map s (addr_byte0 d) (addr_byte1 d)"]
    by (auto simp: get_ipv4_route_map_def Let_def split: if_splits)
  ultimately show ?thesis
    using False by (auto simp: route_packet_dst_def route_ipv4_packet_def not_le)
qed

lemma tun_delivers:
  assumes K: "sends_ok K" and r: "k_read K (tick s) = (int (length bs), bs)" and l: "length bs \<le> 4096"
  shows "\<exists>pkt' s' log. handle_event_from_tun K pkt s = Some (0, pkt', s') \<and> io s' = io s @ log
    \<and> map sent_to log = map (\<lambda>i. Some (addr (sess_arr s ! i), tun_packet bs)) (receivers s (mem_write (raw pkt) 4 bs))"
proof -
  define m len where "m = fst (srv_pprep (mem_write (raw pkt) 4 bs) TSRV_PKT_TUN_DATA (word_of_int (int (length bs))) 0)"
    and "len = snd (srv_pprep (mem_write (raw pkt) 4 bs) TSRV_PKT_TUN_DATA (word_of_int (int (length bs))) 0)"
  define s0 p where "s0 = s\<lparr>tick := tick s + 1\<rparr>" and "p = pkt\<lparr>pkt_len := length bs, raw := m\<rparr>"
  have len: "0 < len" by (simp add: len_def pprep_len)
  have b: "mem_read m 0 len = tun_packet bs" unfolding m_def len_def by (rule tun_packet_bytes [OF l])
  obtain s' where s': "route_packet_dst K len p s0 = Some (0, s')"
      "delivers (map (\<lambda>i. (addr (sess_arr s0 ! i), mem_read (raw p) 0 len)) (receivers s0 (raw p))) s0 s'"
    using route_dst_delivers [OF K len] by blast
  have rc: "receivers s0 (raw p) = receivers s (mem_write (raw pkt) 4 bs)"
    by (simp add: receivers_def s0_def p_def m_def)
  obtain log where "io s' = io s @ log"
      "map sent_to log = map (\<lambda>i. Some (addr (sess_arr s ! i), tun_packet bs)) (receivers s (mem_write (raw pkt) 4 bs))"
    using s'(2) rc b by (auto simp: delivers_def s0_def p_def)
  moreover have "handle_event_from_tun K pkt s = Some (0, p, s')"
    using handle_event_from_tun_eq [OF r l m_def len_def] s'(1) by (simp add: s0_def p_def)
  ultimately show ?thesis by blast
qed

section \<open>Properties\<close>

text \<open>
  C2: packets from the tunnel reach authenticated clients only.  Whatever is read from a TUN
  descriptor, every packet sent while handling it is the encapsulation of exactly the bytes
  read and goes to the peer of a session that is connected and authenticated, with one
  exception: an IPv4 packet whose destination ends in two zero bytes goes to whatever slot the
  entry of the route table for these addresses names, because a user with the address 0.0.0.0
  leaves that entry behind.  No session and no route changes, and the invariant is kept.
\<close>

theorem tun_packets_to_authenticated:
  assumes inv: "srv_inv s" and r: "k_read K (tick s) = (int (length bs), bs)" and l: "length bs \<le> 4096"
    and h: "handle_event_from_tun K pkt s = Some (ret, pkt', s')"
  shows "srv_inv s' \<and> sess_arr s' = sess_arr s \<and> ipv4_map s' = ipv4_map s
    \<and> (\<exists>log. io s' = io s @ log \<and> (\<forall>x \<in> set log. \<exists>i res. x = Sendto (addr (sess_arr s ! i)) (tun_packet bs) res
         \<and> (i \<in> conn s \<and> is_authenticated (sess_arr s ! i)
            \<or> iphdr_version (mem_write (raw pkt) 4 bs) = 4 \<and> take_bit 16 (iphdr_daddr (mem_write (raw pkt) 4 bs)) = 0
              \<and> get_ipv4_route_map (ipv4_map s) (iphdr_daddr (mem_write (raw pkt) 4 bs)) = int i)))"
proof -
  define m len where "m = fst (srv_pprep (mem_write (raw pkt) 4 bs) TSRV_PKT_TUN_DATA (word_of_int (int (length bs))) 0)"
    and "len = snd (srv_pprep (mem_write (raw pkt) 4 bs) TSRV_PKT_TUN_DATA (word_of_int (int (length bs))) 0)"
  define s0 where "s0 = s\<lparr>tick := tick s + 1\<rparr>"
  define P where "P = routed_to s (mem_write (raw pkt) 4 bs) (tun_packet bs)"
  obtain ret1 where d: "route_packet_dst K len (pkt\<lparr>pkt_len := length bs, raw := m\<rparr>) s0 = Some (ret1, s')"
    using h handle_event_from_tun_eq [OF r l m_def len_def] by (auto simp: s0_def bind_eq_Some_conv)
  have io0: "io_only P s s0" for P by (simp add: s0_def)
  have inv0: "srv_inv s0" using io_only_inv [OF io0] inv by blast
  have b: "mem_read m 0 len = tun_packet bs" unfolding m_def len_def by (rule tun_packet_bytes [OF l])
  have same: "routed_to s0 m (tun_packet bs) = P"
    by (simp add: P_def routed_to_def to_authenticated_def s0_def m_def conn_def fun_eq_iff)
  from route_dst_io [OF inv0 d] b same have "io_only P s0 s'" by simp
  with io0 have io: "io_only P s s'" by (blast intro: io_only_trans)
  obtain log where log: "list_all P log" "io s' = io s @ log" using io by (auto simp: io_only_def)
  have k0: "route_key x = (0, 0) \<longleftrightarrow> take_bit 16 x = 0" for x using route_key_low16 [of x 0] by simp
  have "\<forall>x \<in> set log. \<exists>i res. x = Sendto (addr (sess_arr s ! i)) (tun_packet bs) res
         \<and> (i \<in> conn s \<and> is_authenticated (sess_arr s ! i)
            \<or> iphdr_version (mem_write (raw pkt) 4 bs) = 4 \<and> take_bit 16 (iphdr_daddr (mem_write (raw pkt) 4 bs)) = 0
              \<and> get_ipv4_route_map (ipv4_map s) (iphdr_daddr (mem_write (raw pkt) 4 bs)) = int i)"
    using log(1) unfolding list_all_iff P_def routed_to_def to_authenticated_def k0 by blast
  then show ?thesis
    using io_only_inv [OF io] io_only_fields [OF io] inv log(2) by blast
qed

text \<open>A system with one packet on the TUN device, and a packet to 10.5.5.9.\<close>

definition tun_kernel :: "u8 list \<Rightarrow> kernel" where
  "tun_kernel bs = silent_kernel\<lparr>k_read := (\<lambda>_. (int (length bs), bs)), k_sendto := (\<lambda>_. 24)\<rparr>"

definition sample_ip :: "u8 list" where
  "sample_ip = [0x45, 0, 0, 20, 0, 0, 0, 0, 64, 17, 0, 0, 10, 5, 5, 2, 10, 5, 5, 9]"

lemma sample_ip_hdr:
  "iphdr_version (mem_write m 4 sample_ip) = 4" "iphdr_daddr (mem_write m 4 sample_ip) = 0x0a050509"
  by (simp_all add: iphdr_version_def iphdr_daddr_def get_be32_def sample_ip_def)

text \<open>
  C3: delivery.  When the socket accepts every datagram, handling a packet read from a TUN
  descriptor returns 0 and sends its encapsulation exactly once to each receiver and to no one
  else, in slot order: to the one session the destination is mapped to if the packet is IPv4
  and mapped, and otherwise to every authenticated session.
\<close>

theorem tun_packet_delivery:
  assumes K: "sends_ok K" and r: "k_read K (tick s) = (int (length bs), bs)" and l: "length bs \<le> 4096"
  shows "\<exists>pkt' s' log. handle_event_from_tun K pkt s = Some (0, pkt', s') \<and> io s' = io s @ log
    \<and> map sent_to log = map (\<lambda>i. Some (addr (sess_arr s ! i), tun_packet bs))
        (if iphdr_version (mem_write (raw pkt) 4 bs) = 4
            \<and> 0 \<le> get_ipv4_route_map (ipv4_map s) (iphdr_daddr (mem_write (raw pkt) 4 bs))
         then [nat (get_ipv4_route_map (ipv4_map s) (iphdr_daddr (mem_write (raw pkt) 4 bs)))]
         else filter (\<lambda>i. is_authenticated (sess_arr s ! i)) [0..<unat (max_conn (cfg_sock (cfg s)))])"
  using tun_delivers [OF assms, of pkt] unfolding receivers_def .

text \<open>Witness of C3: the packet is not routed and goes to the one authenticated session.\<close>

theorem tun_packet_delivery_witness:
  "\<exists>pkt' s' r. handle_event_from_tun (tun_kernel sample_ip) \<lparr>pkt_len = 0, raw = (\<lambda>_. 0)\<rparr>
       (upd_sess 0 (\<lambda>x. x\<lparr>is_authenticated := True\<rparr>) (fresh_table 2)) = Some (0, pkt', s')
     \<and> io s' = [Sendto (addr (sess_arr (fresh_table 2) ! 0)) (tun_packet sample_ip) r]"
proof -
  define s where "s = upd_sess 0 (\<lambda>x. x\<lparr>is_authenticated := True\<rparr>) (fresh_table 2)"
  have K: "sends_ok (tun_kernel sample_ip)" by (simp add: sends_ok_def tun_kernel_def)
  have r: "k_read (tun_kernel sample_ip) (tick s) = (int (length sample_ip), sample_ip)" by (simp add: tun_kernel_def)
  have l: "length sample_ip \<le> 4096" by (simp add: sample_ip_def)
  have g: "get_ipv4_route_map (ipv4_map s) a = -2" for a
    by (simp add: s_def fresh_table_def get_ipv4_route_map_def frame)
  have f: "filter (\<lambda>i. is_authenticated (sess_arr s ! i)) [0..<unat (max_conn (cfg_sock (cfg s)))] = [0]"
    by (simp add: s_def fresh_table_def frame upt_rec zero_sess_def reset_udp_session_def no_cfg_def)
  have a: "addr (sess_arr s ! 0) = addr (sess_arr (fresh_table 2) ! 0)" "io s = []"
    by (simp_all add: s_def fresh_table_def frame)
  show ?thesis
    using tun_packet_delivery [OF K r l, of "\<lparr>pkt_len = 0, raw = (\<lambda>_. 0)\<rparr>"] unfolding g f s_def [symmetric]
    by (auto simp: a sent_to_def split: io.splits)
qed

end
