(* ===== verification/Srv_Reaper.thy ===== *)
theory Srv_Reaper
  imports Srv_Routing
begin

text \<open>
  The zombie reaper of \<^verbatim>\<open>src/teavpn2/server/linux/udp_epoll.c\<close>: a thread that scans the
  session array every five seconds, asks idle clients for a sign of life and closes the sessions
  that stay silent.  It has a packet buffer of its own, \<open>zr_pkt\<close>; a function that would
  dereference it while it is NULL gives \<open>None\<close>.
\<close>

section \<open>Definitions\<close>

definition UDP_SESS_TIMEOUT_NO_AUTH :: int where
  "UDP_SESS_TIMEOUT_NO_AUTH = 30"

definition UDP_SESS_TIMEOUT_AUTH :: int where
  "UDP_SESS_TIMEOUT_AUTH = 180"

definition zr_send_reqsync :: "kernel \<Rightarrow> nat \<Rightarrow> srv_udp_state \<Rightarrow> srv_udp_state option" where
  "zr_send_reqsync K i s = do {
     pkt \<leftarrow> zr_pkt s;
     let (m, send_len) = srv_pprep (raw pkt) TSRV_PKT_REQSYNC 0 0;
     (_, s1) \<leftarrow> send_to_client K i m send_len s;
     Some (s1\<lparr>zr_pkt := Some (pkt\<lparr>raw := m\<rparr>)\<rparr>)
   }"

definition zr_close_sess :: "kernel \<Rightarrow> nat \<Rightarrow> srv_udp_state \<Rightarrow> (int \<times> srv_udp_state) option" where
  "zr_close_sess K i s = do {
     pkt \<leftarrow> zr_pkt s;
     let iffa = ipv4_iff (sess_arr s ! i);
     let s1 = (if iffa \<noteq> 0 then s\<lparr>ipv4_map := del_ipv4_route_map (ipv4_map s) iffa\<rparr> else s);
     let (m, send_len) = srv_pprep (raw pkt) TSRV_PKT_CLOSE 0 0;
     (_, s2) \<leftarrow> send_to_client K i m send_len s1;
     let (ret, s3) = delete_udp_session i s2;
     Some (ret, s3\<lparr>zr_pkt := Some (pkt\<lparr>raw := m\<rparr>)\<rparr>)
   }"

text \<open>The loop \<^verbatim>\<open>while (i-- > 0)\<close> at the end of \<^verbatim>\<open>zr_chk_auth\<close>.\<close>

fun zr_reqsyncs :: "kernel \<Rightarrow> nat \<Rightarrow> nat \<Rightarrow> srv_udp_state \<Rightarrow> srv_udp_state option" where
  "zr_reqsyncs K i 0 s = Some s"
| "zr_reqsyncs K i (Suc n) s = do { s1 \<leftarrow> zr_send_reqsync K i s; zr_reqsyncs K i n s1 }"

definition zr_chk_auth :: "kernel \<Rightarrow> nat \<Rightarrow> int \<Rightarrow> srv_udp_state \<Rightarrow> srv_udp_state option" where
  "zr_chk_auth K i time_diff s =
     (let max_diff = UDP_SESS_TIMEOUT_AUTH in
      if time_diff > max_diff then do { (_, s1) \<leftarrow> zr_close_sess K i s; Some s1 }
      else if time_diff > (max_diff * 4) div 5 then zr_reqsyncs K i 7 s
      else if time_diff > (max_diff * 3) div 5 then zr_reqsyncs K i 5 s
      else if time_diff > (max_diff * 2) div 5 then zr_reqsyncs K i 3 s
      else if time_diff > (max_diff * 1) div 5 then zr_reqsyncs K i 1 s
      else Some s)"

definition zr_chk_no_auth :: "kernel \<Rightarrow> nat \<Rightarrow> int \<Rightarrow> srv_udp_state \<Rightarrow> srv_udp_state option" where
  "zr_chk_no_auth K i time_diff s =
     (if time_diff > UDP_SESS_TIMEOUT_NO_AUTH then do { (_, s1) \<leftarrow> zr_close_sess K i s; Some s1 }
      else Some s)"

text \<open>One round of the loop of \<^verbatim>\<open>zombie_reaper_do_scan\<close>, and the loop.\<close>

definition zr_visit :: "kernel \<Rightarrow> nat \<Rightarrow> srv_udp_state \<Rightarrow> srv_udp_state option" where
  "zr_visit K i s =
     (if \<not> is_connected (sess_arr s ! i) then Some s
      else case get_unix_time K 0 s of
        (_, now, s1) \<Rightarrow>
          let time_diff = now - last_act (sess_arr s1 ! i) in
          if is_authenticated (sess_arr s1 ! i) then zr_chk_auth K i time_diff s1
          else zr_chk_no_auth K i time_diff s1)"

fun zr_scan_loop :: "kernel \<Rightarrow> nat list \<Rightarrow> srv_udp_state \<Rightarrow> srv_udp_state option" where
  "zr_scan_loop K [] s = Some s"
| "zr_scan_loop K (i # is) s = do { s1 \<leftarrow> zr_visit K i s; zr_scan_loop K is s1 }"

definition zombie_reaper_do_scan :: "kernel \<Rightarrow> srv_udp_state \<Rightarrow> srv_udp_state option" where
  "zombie_reaper_do_scan K s =
     (if n_on_sess s = 0 then Some s
      else zr_scan_loop K [0..<unat (max_conn (cfg_sock (cfg s)))] s)"

section \<open>Closing a session from the reaper\<close>

lemma zr_close_eq:
  "zr_pkt s = Some pkt \<Longrightarrow> zr_close_sess K i s
    = map_option (\<lambda>(ret, pkt', s'). (ret, s'\<lparr>zr_pkt := Some pkt'\<rparr>)) (close_udp_session K i pkt s)"
  by (simp add: zr_close_sess_def close_udp_session_def Let_def split_def map_option_bind comp_def)

lemma srv_inv_zr_pkt [simp]: "srv_inv (s\<lparr>zr_pkt := p\<rparr>) = srv_inv s"
  by (rule srv_inv_cong) simp_all

lemma conn_zr_pkt [simp]: "conn (s\<lparr>zr_pkt := p\<rparr>) = conn s"
  by (simp add: conn_def)

lemma step_ok_zr_pkt: "step_ok P X s s' \<Longrightarrow> zr_pkt s \<noteq> None \<Longrightarrow> step_ok P X s (s'\<lparr>zr_pkt := Some p\<rparr>)"
  by (simp add: step_ok_def handled_def)

text \<open>A visit that leaves the session alone, and one that ends it.\<close>

definition zr_kept :: "nat \<Rightarrow> srv_udp_state \<Rightarrow> srv_udp_state \<Rightarrow> bool" where
  "zr_kept i s s' \<longleftrightarrow> step_ok (to_peer (addr (sess_arr s ! i))) {} s s' \<and> zr_pkt s' \<noteq> None"

definition zr_closed :: "nat \<Rightarrow> srv_udp_state \<Rightarrow> srv_udp_state \<Rightarrow> bool" where
  "zr_closed i s s' \<longleftrightarrow> step_ok (to_peer (addr (sess_arr s ! i))) {i} s s' \<and> conn s' = conn s - {i}
     \<and> zr_pkt s' \<noteq> None"

lemma zr_kept_refl: "srv_inv s \<Longrightarrow> zr_pkt s \<noteq> None \<Longrightarrow> zr_kept i s s"
  by (simp add: zr_kept_def step_ok_refl)

lemma zr_close_spec:
  assumes "srv_inv s" "i \<in> conn s" "zr_pkt s \<noteq> None" "zr_close_sess K i s = Some (r, s')"
  shows "zr_closed i s s'"
proof -
  obtain pkt where "zr_pkt s = Some pkt" using assms(3) by auto
  then obtain pkt' s1 where "close_udp_session K i pkt s = Some (r, pkt', s1)"
      and s': "s' = s1\<lparr>zr_pkt := Some pkt'\<rparr>"
    using assms(4) zr_close_eq by auto
  from close_spec [OF assms(1,2) this(1)] show ?thesis
    using step_ok_zr_pkt [OF _ assms(3)] by (simp add: zr_closed_def s')
qed

lemma zr_reqsync_kept:
  assumes "srv_inv s" "zr_pkt s \<noteq> None" "zr_send_reqsync K i s = Some s'"
  shows "zr_kept i s s'"
proof -
  obtain m len r s1 pkt' where "send_to_client K i m len s = Some (r, s1)" "s' = s1\<lparr>zr_pkt := Some pkt'\<rparr>"
    using assms(3) by (auto simp: zr_send_reqsync_def bind_eq_Some_conv split_def Let_def)
  then show ?thesis
    using send_step [OF assms(1) io_only_refl, of K i m len r s1 "to_peer (addr (sess_arr s ! i))" "{}"]
      step_ok_zr_pkt [OF _ assms(2)]
    by (simp add: zr_kept_def)
qed

lemma step_ok_empty_trans:
  "step_ok P {} s t \<Longrightarrow> step_ok P X t u \<Longrightarrow> step_ok P X s u"
  using step_ok_trans [OF step_ok_mono [of P "{}" s t P X]] by auto

lemma zr_reqsyncs_kept:
  "srv_inv s \<Longrightarrow> zr_pkt s \<noteq> None \<Longrightarrow> i \<in> conn s \<Longrightarrow> zr_reqsyncs K i n s = Some s' \<Longrightarrow> zr_kept i s s'"
proof (induction n arbitrary: s)
  case (Suc n)
  then obtain s1 where s1: "zr_send_reqsync K i s = Some s1" "zr_reqsyncs K i n s1 = Some s'"
    by (auto simp: bind_eq_Some_conv)
  have k: "zr_kept i s s1" by (rule zr_reqsync_kept [OF Suc.prems(1,2) s1(1)])
  then have "srv_inv s1" "zr_pkt s1 \<noteq> None" "i \<in> conn s1" "sess_arr s1 ! i = sess_arr s ! i"
    using Suc.prems(3) by (auto simp: zr_kept_def step_ok_def)
  with Suc.IH [of s1] s1(2) k show ?case
    using step_ok_trans by (auto simp: zr_kept_def)
qed (simp add: zr_kept_refl)

section \<open>A visit\<close>

definition sess_limit :: "udp_sess \<Rightarrow> int" where
  "sess_limit x = (if is_authenticated x then UDP_SESS_TIMEOUT_AUTH else UDP_SESS_TIMEOUT_NO_AUTH)"

text \<open>The clock as the reaper reads it: zero when the call fails.\<close>

definition clock :: "kernel \<Rightarrow> nat \<Rightarrow> int" where
  "clock K n = (case k_time K n of Inl e \<Rightarrow> 0 | Inr t \<Rightarrow> t)"

lemma get_unix_time_clock: "get_unix_time K 0 s = (r, t, s') \<Longrightarrow> t = clock K (tick s) \<and> s' = s\<lparr>tick := tick s + 1\<rparr>"
  by (auto simp: get_unix_time_def clock_def Let_def split: sum.splits)

lemma zr_chk_spec:
  assumes "srv_inv s" "zr_pkt s \<noteq> None" "i \<in> conn s"
    and "(if is_authenticated (sess_arr s ! i) then zr_chk_auth K i d s else zr_chk_no_auth K i d s) = Some s'"
  shows "if d > sess_limit (sess_arr s ! i) then zr_closed i s s' else zr_kept i s s'"
  using assms(4) zr_close_spec [OF assms(1,3,2)] zr_reqsyncs_kept [OF assms(1,2,3)] zr_kept_refl [OF assms(1,2)]
  by (auto simp: sess_limit_def zr_chk_auth_def zr_chk_no_auth_def bind_eq_Some_conv Let_def
      simp del: zr_reqsyncs.simps split: if_splits)

lemma zr_visit_spec:
  assumes inv: "srv_inv s" and p: "zr_pkt s \<noteq> None" and i: "i < length (sess_arr s)"
    and v: "zr_visit K i s = Some s'"
  shows "if i \<in> conn s \<and> clock K (tick s) - last_act (sess_arr s ! i) > sess_limit (sess_arr s ! i)
    then zr_closed i s s' else zr_kept i s s'"
proof (cases "i \<in> conn s")
  case False
  then show ?thesis using v i zr_kept_refl [OF inv p] by (auto simp: zr_visit_def conn_def)
next
  case True
  define s1 where "s1 = s\<lparr>tick := tick s + 1\<rparr>"
  have io: "io_only P s s1" for P by (simp add: s1_def)
  have 1: "srv_inv s1" "zr_pkt s1 \<noteq> None" "i \<in> conn s1" "sess_arr s1 = sess_arr s"
    using io_only_inv [OF io] io_only_conn [OF io] inv p True by (simp_all add: s1_def)
  let ?d = "clock K (tick s) - last_act (sess_arr s ! i)"
  have "(if is_authenticated (sess_arr s1 ! i) then zr_chk_auth K i ?d s1 else zr_chk_no_auth K i ?d s1) = Some s'"
    using v True get_unix_time_clock [of K s] 1(4)
    by (auto simp: zr_visit_def conn_def Let_def s1_def split: prod.splits)
  from zr_chk_spec [OF 1(1-3) this] show ?thesis
    using True 1(4) step_ok_empty_trans [OF step_ok_io [OF inv io]] io_only_conn [OF io]
    by (auto simp: zr_closed_def zr_kept_def split: if_splits)
qed

section \<open>A scan\<close>

definition to_connected :: "srv_udp_state \<Rightarrow> io \<Rightarrow> bool" where
  "to_connected s x \<longleftrightarrow> (\<exists>i \<in> conn s. to_peer (addr (sess_arr s ! i)) x)"

text \<open>What became of session \<open>j\<close>: ended because it was idle too long at some moment, or kept.\<close>

definition reaped :: "kernel \<Rightarrow> nat \<Rightarrow> srv_udp_state \<Rightarrow> srv_udp_state \<Rightarrow> bool" where
  "reaped K j s s' \<longleftrightarrow> (\<exists>n. clock K n - last_act (sess_arr s ! j) > sess_limit (sess_arr s ! j)) \<and> j \<notin> conn s'"

definition spared :: "kernel \<Rightarrow> nat \<Rightarrow> srv_udp_state \<Rightarrow> srv_udp_state \<Rightarrow> bool" where
  "spared K j s s' \<longleftrightarrow> (\<exists>n. clock K n - last_act (sess_arr s ! j) \<le> sess_limit (sess_arr s ! j))
     \<and> j \<in> conn s' \<and> sess_arr s' ! j = sess_arr s ! j"

definition scanned :: "kernel \<Rightarrow> nat set \<Rightarrow> srv_udp_state \<Rightarrow> srv_udp_state \<Rightarrow> bool" where
  "scanned K X s s' \<longleftrightarrow> step_ok (to_connected s) X s s' \<and> zr_pkt s' \<noteq> None \<and> conn s' \<subseteq> conn s
     \<and> (\<forall>j \<in> conn s \<inter> X. reaped K j s s' \<or> spared K j s s')"

lemma zr_visit_scanned:
  assumes "srv_inv s" "zr_pkt s \<noteq> None" "i < length (sess_arr s)" "zr_visit K i s = Some s'"
  shows "scanned K {i} s s'"
proof -
  note v = zr_visit_spec [OF assms]
  show ?thesis
  proof (cases "i \<in> conn s")
    case True
    then have m: "to_peer (addr (sess_arr s ! i)) x \<Longrightarrow> to_connected s x" for x by (auto simp: to_connected_def)
    show ?thesis
      using v True m step_ok_mono [of "to_peer (addr (sess_arr s ! i))" "{i}" s s' "to_connected s" "{i}"]
        step_ok_mono [of "to_peer (addr (sess_arr s ! i))" "{}" s s' "to_connected s" "{i}"]
      by (auto simp: scanned_def zr_closed_def zr_kept_def reaped_def spared_def step_ok_def not_less split: if_splits)
  next
    case False
    then have "s' = s" using assms(3,4) by (auto simp: zr_visit_def conn_def)
    then show ?thesis using False assms(1,2) by (auto simp: scanned_def step_ok_refl)
  qed
qed

lemma reaped_cong: "sess_arr t ! j = sess_arr s ! j \<Longrightarrow> reaped K j t u \<Longrightarrow> reaped K j s u"
  by (simp add: reaped_def)

lemma spared_cong: "sess_arr t ! j = sess_arr s ! j \<Longrightarrow> spared K j t u \<Longrightarrow> spared K j s u"
  by (simp add: spared_def)

lemma scanned_trans:
  assumes 1: "scanned K X s t" and 2: "scanned K Y t u" and d: "X \<inter> Y = {}"
  shows "scanned K (X \<union> Y) s u"
proof -
  have same: "sess_arr t ! j = sess_arr s ! j" if "j \<in> conn t" for j
    using that 1 by (cases "j \<in> X") (auto simp: scanned_def reaped_def spared_def step_ok_def)
  have "to_connected t x \<Longrightarrow> to_connected s x" for x
    using 1 same by (auto simp: to_connected_def scanned_def)
  then have "step_ok (to_connected s) (X \<union> Y) s t" "step_ok (to_connected s) (X \<union> Y) t u"
    using 1 2 step_ok_mono [of "to_connected t" Y t u "to_connected s" "X \<union> Y"]
      step_ok_mono [of "to_connected s" X s t "to_connected s" "X \<union> Y"] by (auto simp: scanned_def)
  then have st: "step_ok (to_connected s) (X \<union> Y) s u" by (rule step_ok_trans)
  have "reaped K j s u \<or> spared K j s u" if j: "j \<in> conn s \<inter> (X \<union> Y)" for j
  proof (cases "j \<in> X")
    case True
    then have "j \<notin> Y" using d by blast
    then have "j \<in> conn t \<longrightarrow> j \<in> conn u \<and> sess_arr u ! j = sess_arr t ! j" "j \<notin> conn t \<longrightarrow> j \<notin> conn u"
      using 2 by (auto simp: scanned_def step_ok_def)
    moreover have "reaped K j s t \<or> spared K j s t" using 1 j True by (auto simp: scanned_def)
    ultimately show ?thesis by (auto simp: reaped_def spared_def)
  next
    case False
    then have "j \<in> conn t" using 1 j by (auto simp: scanned_def step_ok_def)
    then have "reaped K j t u \<or> spared K j t u" using 2 j False by (auto simp: scanned_def)
    with same [OF \<open>j \<in> conn t\<close>] show ?thesis using reaped_cong spared_cong by blast
  qed
  with st show ?thesis using 1 2 by (auto simp: scanned_def)
qed

lemma zr_scan_loop_scanned:
  "srv_inv s \<Longrightarrow> zr_pkt s \<noteq> None \<Longrightarrow> distinct is \<Longrightarrow> set is \<subseteq> {0..<length (sess_arr s)}
    \<Longrightarrow> zr_scan_loop K is s = Some s' \<Longrightarrow> scanned K (set is) s s'"
proof (induction "is" arbitrary: s)
  case Nil
  then show ?case by (simp add: scanned_def step_ok_refl)
next
  case (Cons i "is")
  then obtain s1 where s1: "zr_visit K i s = Some s1" "zr_scan_loop K is s1 = Some s'"
    by (auto simp: bind_eq_Some_conv)
  have 1: "scanned K {i} s s1" using Cons.prems s1(1) by (auto intro: zr_visit_scanned)
  then have "srv_inv s1" "zr_pkt s1 \<noteq> None" "length (sess_arr s1) = length (sess_arr s)"
    by (auto simp: scanned_def step_ok_def handled_def)
  with Cons s1(2) have "scanned K (set is) s1 s'" by auto
  from scanned_trans [OF 1 this] show ?case using Cons.prems(3) by simp
qed

lemma zombie_scan_scanned:
  assumes inv: "srv_inv s" and p: "zr_pkt s \<noteq> None" and h: "zombie_reaper_do_scan K s = Some s'"
  shows "scanned K (conn s) s s'"
proof (cases "n_on_sess s = 0")
  case True
  then have "conn s = {}" using inv by (simp add: srv_inv_def sess_inv_def count_ok_def)
  then show ?thesis using True h inv p by (auto simp: zombie_reaper_do_scan_def scanned_def step_ok_refl)
next
  case False
  let ?n = "unat (max_conn (cfg_sock (cfg s)))"
  have n: "?n = length (sess_arr s)" using inv by (simp add: srv_inv_def sess_inv_def slots_ok_def)
  have "zr_scan_loop K [0..<?n] s = Some s'" using False h by (simp add: zombie_reaper_do_scan_def)
  then have sc: "scanned K {0..<?n} s s'" using zr_scan_loop_scanned [OF inv p, of "[0..<?n]"] n by simp
  have "conn s \<subseteq> {0..<?n}" using n by (auto simp: conn_def)
  then show ?thesis using sc by (auto simp: scanned_def step_ok_def)
qed

section \<open>Progress\<close>

lemma zr_send_reqsync_yields:
  "prompt K \<Longrightarrow> zr_pkt s \<noteq> None \<Longrightarrow> yields (zr_send_reqsync K i s)"
  unfolding zr_send_reqsync_def by (auto intro!: yields_rules)

lemma zr_close_yields: "prompt K \<Longrightarrow> zr_pkt s \<noteq> None \<Longrightarrow> yields (zr_close_sess K i s)"
  unfolding zr_close_sess_def by (auto intro!: yields_rules simp: Let_def split_def)

lemma zr_reqsyncs_yields:
  "prompt K \<Longrightarrow> zr_pkt s \<noteq> None \<Longrightarrow> yields (zr_reqsyncs K i n s)"
proof (induction n arbitrary: s)
  case (Suc n)
  obtain s1 where "zr_send_reqsync K i s = Some s1"
    using zr_send_reqsync_yields [OF Suc.prems] by (auto simp: yields_def)
  moreover from this have "zr_pkt s1 \<noteq> None"
    by (auto simp: zr_send_reqsync_def bind_eq_Some_conv Let_def split_def)
  ultimately show ?case using Suc by simp
qed (simp add: yields_def)

lemma zr_visit_yields: "prompt K \<Longrightarrow> zr_pkt s \<noteq> None \<Longrightarrow> yields (zr_visit K i s)"
proof -
  assume K: "prompt K" and p: "zr_pkt s \<noteq> None"
  define s1 where "s1 = s\<lparr>tick := tick s + 1\<rparr>"
  have p1: "zr_pkt s1 \<noteq> None" using p by (simp add: s1_def)
  have "yields (zr_chk_auth K i d s1)" for d
    unfolding zr_chk_auth_def Let_def
    by (intro yields_rules zr_reqsyncs_yields zr_close_yields K p1)
  moreover have "yields (zr_chk_no_auth K i d s1)" for d
    unfolding zr_chk_no_auth_def by (intro yields_rules zr_close_yields K p1)
  ultimately show ?thesis
    using get_unix_time_clock [of K s] unfolding zr_visit_def s1_def
    by (auto simp: Let_def yields_Some split: prod.split)
qed

lemma zr_scan_loop_yields:
  "prompt K \<Longrightarrow> srv_inv s \<Longrightarrow> zr_pkt s \<noteq> None \<Longrightarrow> set is \<subseteq> {0..<length (sess_arr s)}
    \<Longrightarrow> yields (zr_scan_loop K is s)"
proof (induction "is" arbitrary: s)
  case (Cons i "is")
  obtain s1 where s1: "zr_visit K i s = Some s1"
    using zr_visit_yields [OF Cons.prems(1,3)] by (auto simp: yields_def)
  have "scanned K {i} s s1" using zr_visit_scanned [OF Cons.prems(2,3) _ s1] Cons.prems(4) by simp
  then have "srv_inv s1" "zr_pkt s1 \<noteq> None" "length (sess_arr s1) = length (sess_arr s)"
    by (auto simp: scanned_def step_ok_def handled_def)
  with Cons s1 show ?case by simp
qed (simp add: yields_def)

lemma zombie_scan_yields:
  assumes "prompt K" "srv_inv s" "zr_pkt s \<noteq> None"
  shows "yields (zombie_reaper_do_scan K s)"
proof -
  have "unat (max_conn (cfg_sock (cfg s))) = length (sess_arr s)"
    using assms(2) by (simp add: srv_inv_def sess_inv_def slots_ok_def)
  then show ?thesis
    using zr_scan_loop_yields [OF assms, of "[0..<length (sess_arr s)]"]
    by (simp add: zombie_reaper_do_scan_def yields_Some)
qed

section \<open>Properties\<close>

text \<open>
  C14: the reaper closes dead sessions and only those.  A scan whose clock readings lie between
  \<open>lo\<close> and \<open>hi\<close> returns in a state that satisfies the invariant again; every session that was
  already silent for more than its limit (180 seconds when authenticated, 30 otherwise) at
  \<open>lo\<close> is closed, every session within its limit at \<open>hi\<close> is kept with its record unchanged, no
  session is created, and packets are sent to peers of connected sessions only.
\<close>

theorem zombie_scan_reaps:
  assumes K: "prompt K" and inv: "srv_inv s" and p: "zr_pkt s \<noteq> None"
    and clk: "\<forall>n. \<exists>t. k_time K n = Inr t \<and> lo \<le> t \<and> t \<le> hi"
  shows "\<exists>s'. zombie_reaper_do_scan K s = Some s' \<and> srv_inv s' \<and> conn s' \<subseteq> conn s
    \<and> (\<forall>j \<in> conn s. lo - last_act (sess_arr s ! j) > (if is_authenticated (sess_arr s ! j) then 180 else 30)
         \<longrightarrow> j \<notin> conn s')
    \<and> (\<forall>j \<in> conn s. hi - last_act (sess_arr s ! j) \<le> (if is_authenticated (sess_arr s ! j) then 180 else 30)
         \<longrightarrow> j \<in> conn s' \<and> sess_arr s' ! j = sess_arr s ! j)
    \<and> (\<exists>log. io s' = io s @ log \<and> (\<forall>x \<in> set log. \<exists>i \<in> conn s. \<exists>bs r. x = Sendto (addr (sess_arr s ! i)) bs r))"
proof -
  obtain s' where s': "zombie_reaper_do_scan K s = Some s'"
    using zombie_scan_yields [OF K inv p] by (auto simp: yields_def)
  have sc: "scanned K (conn s) s s'" by (rule zombie_scan_scanned [OF inv p s'])
  have c: "lo \<le> clock K n \<and> clock K n \<le> hi" for n
  proof -
    obtain t where "k_time K n = Inr t" "lo \<le> t" "t \<le> hi" using clk by blast
    then show ?thesis by (simp add: clock_def)
  qed
  have lim: "sess_limit x = (if is_authenticated x then 180 else 30)" for x
    by (simp add: sess_limit_def UDP_SESS_TIMEOUT_AUTH_def UDP_SESS_TIMEOUT_NO_AUTH_def)
  have rs: "reaped K j s s' \<or> spared K j s s'" if "j \<in> conn s" for j using sc that by (simp add: scanned_def)
  have "j \<notin> conn s'" if j: "j \<in> conn s" "lo - last_act (sess_arr s ! j) > sess_limit (sess_arr s ! j)" for j
  proof -
    have "\<not> spared K j s s'" using j(2) c unfolding spared_def by (smt (verit))
    with rs [OF j(1)] show ?thesis by (simp add: reaped_def)
  qed
  moreover have "j \<in> conn s' \<and> sess_arr s' ! j = sess_arr s ! j"
    if j: "j \<in> conn s" "hi - last_act (sess_arr s ! j) \<le> sess_limit (sess_arr s ! j)" for j
  proof -
    have "\<not> reaped K j s s'" using j(2) c unfolding reaped_def by (smt (verit))
    with rs [OF j(1)] show ?thesis by (simp add: spared_def)
  qed
  moreover obtain log where "io s' = io s @ log" "list_all (to_connected s) log"
    using sc by (auto simp: scanned_def step_ok_def handled_def)
  ultimately show ?thesis
    using sc s' by (auto simp: lim scanned_def step_ok_def list_all_iff to_connected_def to_peer_def)
qed

text \<open>A server with one client, 10.0.0.1:5000, which was last heard of when the clock read 0.\<close>

definition one_client :: srv_udp_state where
  "one_client = (upd_sess 0 (\<lambda>x. x\<lparr>addr := \<lparr>sin_port = 0x8813, sin_addr = 0x0100000a\<rparr>\<rparr>)
     (snd (snd (create_udp_sess silent_kernel 0x0a000001 5000 (fresh_table 2)))))
     \<lparr>zr_pkt := Some \<lparr>pkt_len = 0, raw = (\<lambda>_. 0)\<rparr>\<rparr>"

lemma one_client_last_act: "last_act (sess_arr one_client ! 0) = 0" "length (sess_arr one_client) = 2"
proof -
  have "bt_stack_pop (sess_stk (fresh_table 2)) = (0, (sess_stk (fresh_table 2))\<lparr>sp := 1\<rparr>)"
    "sess_map (fresh_table 2) = Some (\<lambda>_ _. Bucket None None)"
    "length (sess_arr (fresh_table 2)) = 2" "tick (fresh_table 2) = 0"
    by (simp_all add: fresh_table_def bt_stack_pop_def)
  then show "last_act (sess_arr one_client ! 0) = 0" "length (sess_arr one_client) = 2"
    by (simp_all add: one_client_def create_udp_sess_def map_insert_udp_sess_def smap_def Let_def frame
        udp_sess_update_last_act_def get_unix_time_def silent_kernel_def split: prod.splits)
qed

lemma one_client_inv: "srv_inv one_client" "conn one_client = {0}"
proof -
  define saddr :: sockaddr_in where "saddr = \<lparr>sin_port = 0x8813, sin_addr = 0x0100000a\<rparr>"
  obtain err s1 where c: "create_udp_sess silent_kernel 0x0a000001 5000 (fresh_table 2) = (Some 0, err, s1)"
    using fresh_create by (metis prod.exhaust fst_conv)
  have a: "0x0a000001 = ntohl (sin_addr saddr)" "5000 = ntohs (sin_port saddr)"
    by (simp_all add: saddr_def bswap32_def bswap16_def)
  have e: "conn (fresh_table 2) = {}" by (auto simp: conn_def fresh_table_def)
  from create_inv [OF fresh_srv_inv fresh_lookup c a]
  show "srv_inv one_client" "conn one_client = {0}"
    by (simp_all add: one_client_def c saddr_def Let_def e)
qed

text \<open>Witness of C14: after 1000 seconds of silence the client is gone.\<close>

theorem zombie_scan_reaps_witness:
  "\<exists>s'. zombie_reaper_do_scan (silent_kernel\<lparr>k_time := (\<lambda>_. Inr 1000)\<rparr>) one_client = Some s' \<and> conn s' = {}"
proof -
  let ?K = "silent_kernel\<lparr>k_time := (\<lambda>_. Inr 1000)\<rparr>"
  have "prompt ?K" by (simp add: prompt_def silent_kernel_def)
  moreover have "zr_pkt one_client \<noteq> None" by (simp add: one_client_def)
  moreover have "\<forall>n. \<exists>t. k_time ?K n = Inr t \<and> 1000 \<le> t \<and> t \<le> 1000" by simp
  ultimately have "\<exists>s'. zombie_reaper_do_scan ?K one_client = Some s' \<and> srv_inv s' \<and> conn s' \<subseteq> {0}
      \<and> (\<forall>j \<in> {0}. 1000 - last_act (sess_arr one_client ! j)
          > (if is_authenticated (sess_arr one_client ! j) then 180 else 30) \<longrightarrow> j \<notin> conn s')"
    using zombie_scan_reaps [OF _ one_client_inv(1), unfolded one_client_inv(2)] by meson
  then show ?thesis by (auto simp: one_client_last_act split: if_splits)
qed

section \<open>The messages of a scan\<close>

definition sent :: "(sockaddr_in \<times> u8 list) list \<Rightarrow> srv_udp_state \<Rightarrow> srv_udp_state \<Rightarrow> bool" where
  "sent xs s s' \<longleftrightarrow> (\<exists>log. io s' = io s @ log \<and> map sent_to log = map Some xs)"

lemma sent_Nil [simp]: "io s' = io s \<Longrightarrow> sent [] s s'"
  by (simp add: sent_def)

lemma sent_append: "sent xs s t \<Longrightarrow> sent ys t u \<Longrightarrow> sent (xs @ ys) s u"
  unfolding sent_def by (metis append.assoc map_append)

lemma ctl_bytes: "mem_read (fst (srv_pprep m t 0 0)) 0 4 = [t, 0, 0, 0]"
  by (simp add: srv_pprep_def put_be16_def mem_read_def numeral_eq_Suc)

lemma send_ctl_sent:
  assumes "sends_ok K" "send_to_client K i (fst (srv_pprep m t 0 0)) (snd (srv_pprep m t 0 0)) s = Some (r, s')"
  shows "sent [(addr (sess_arr s ! i), [t, 0, 0, 0])] s s' \<and> sess_arr s' = sess_arr s"
proof -
  have "delivers [(addr (sess_arr s ! i), [t, 0, 0, 0])] s s'"
    using send_ok [OF assms(1), of 4 i "fst (srv_pprep m t 0 0)" s] assms(2) by (simp add: pprep_len ctl_bytes)
  then show ?thesis using delivers_arr [of "[(addr (sess_arr s ! i), [t, 0, 0, 0])]" s s']
    by (auto simp: sent_def delivers_def)
qed

lemma zr_reqsyncs_sent:
  "sends_ok K \<Longrightarrow> zr_reqsyncs K i n s = Some s'
    \<Longrightarrow> sent (replicate n (addr (sess_arr s ! i), [TSRV_PKT_REQSYNC, 0, 0, 0])) s s'"
proof (induction n arbitrary: s)
  case (Suc n)
  then obtain s1 where z: "zr_send_reqsync K i s = Some s1" and s1: "zr_reqsyncs K i n s1 = Some s'"
    by (auto simp: bind_eq_Some_conv)
  obtain m r s0 pkt where "send_to_client K i (fst (srv_pprep m TSRV_PKT_REQSYNC 0 0))
      (snd (srv_pprep m TSRV_PKT_REQSYNC 0 0)) s = Some (r, s0)" and s0: "s1 = s0\<lparr>zr_pkt := pkt\<rparr>"
    using z unfolding zr_send_reqsync_def Let_def split_def bind_eq_Some_conv by (metis option.inject prod.collapse)
  then have "sent [(addr (sess_arr s ! i), [TSRV_PKT_REQSYNC, 0, 0, 0])] s s0" "sess_arr s0 = sess_arr s"
    using send_ctl_sent [OF Suc.prems(1)] by blast+
  then have a: "sent [(addr (sess_arr s ! i), [TSRV_PKT_REQSYNC, 0, 0, 0])] s s1" "sess_arr s1 = sess_arr s"
    using s0 by (simp_all add: sent_def)
  show ?case using sent_append [OF a(1) Suc.IH [OF Suc.prems(1) s1]] a(2) by simp
qed simp

lemma zr_close_sent:
  assumes "sends_ok K" "zr_close_sess K i s = Some (r, s')"
  shows "sent [(addr (sess_arr s ! i), [TSRV_PKT_CLOSE, 0, 0, 0])] s s'"
proof -
  obtain pkt where p: "zr_pkt s = Some pkt" using assms(2) by (auto simp: zr_close_sess_def bind_eq_Some_conv)
  let ?q = "srv_pprep (raw pkt) TSRV_PKT_CLOSE 0 0"
  obtain r1 s2 where s2: "send_to_client K i (fst ?q) (snd ?q) (drop_route i s) = Some (r1, s2)"
      "io s' = io (snd (delete_udp_session i s2))"
    using assms(2) by (auto simp: zr_close_eq [OF p] close_eq split: option.splits)
  then show ?thesis
    using send_ctl_sent [OF assms(1) s2(1)] by (simp add: sent_def frame)
qed

text \<open>The packets a session gets when the clock reads \<open>now\<close>.\<close>

definition zr_messages :: "int \<Rightarrow> udp_sess \<Rightarrow> (sockaddr_in \<times> u8 list) list" where
  "zr_messages now x =
     (let d = now - last_act x in
      if \<not> is_connected x then []
      else if d > (if is_authenticated x then 180 else 30) then [(addr x, [TSRV_PKT_CLOSE, 0, 0, 0])]
      else if \<not> is_authenticated x then []
      else replicate (if d > 144 then 7 else if d > 108 then 5 else if d > 72 then 3 else if d > 36 then 1 else 0)
             (addr x, [TSRV_PKT_REQSYNC, 0, 0, 0]))"

lemma zr_visit_sent:
  assumes K: "sends_ok K" and clk: "\<forall>n. k_time K n = Inr now" and v: "zr_visit K i s = Some s'"
  shows "sent (zr_messages now (sess_arr s ! i)) s s'"
proof (cases "is_connected (sess_arr s ! i)")
  case False
  then show ?thesis using v by (simp add: zr_visit_def zr_messages_def)
next
  case True
  define s1 where "s1 = s\<lparr>tick := tick s + 1\<rparr>"
  let ?d = "now - last_act (sess_arr s ! i)"
  have s1: "sess_arr s1 = sess_arr s" "io s1 = io s" by (simp_all add: s1_def)
  have "(if is_authenticated (sess_arr s1 ! i) then zr_chk_auth K i ?d s1 else zr_chk_no_auth K i ?d s1) = Some s'"
    using v True clk s1 by (simp add: zr_visit_def get_unix_time_def Let_def s1_def cong: if_cong)
  then have "sent (zr_messages now (sess_arr s ! i)) s1 s'"
    using True zr_close_sent [OF K, of i s1] zr_reqsyncs_sent [OF K, of i _ s1] s1
    by (auto simp: zr_messages_def zr_chk_auth_def zr_chk_no_auth_def bind_eq_Some_conv Let_def
        UDP_SESS_TIMEOUT_AUTH_def UDP_SESS_TIMEOUT_NO_AUTH_def
        simp del: zr_reqsyncs.simps replicate_Suc split: if_splits)
  then show ?thesis by (simp add: sent_def s1)
qed

lemma zr_scan_loop_sent:
  assumes K: "sends_ok K" and clk: "\<forall>n. k_time K n = Inr now"
  shows "srv_inv s \<Longrightarrow> zr_pkt s \<noteq> None \<Longrightarrow> distinct is \<Longrightarrow> set is \<subseteq> {0..<length (sess_arr s)}
    \<Longrightarrow> zr_scan_loop K is s = Some s' \<Longrightarrow> sent (concat (map (\<lambda>i. zr_messages now (sess_arr s ! i)) is)) s s'"
proof (induction "is" arbitrary: s)
  case (Cons i "is")
  then obtain s1 where s1: "zr_visit K i s = Some s1" "zr_scan_loop K is s1 = Some s'"
    by (auto simp: bind_eq_Some_conv)
  have sc: "scanned K {i} s s1" using Cons.prems s1(1) by (auto intro: zr_visit_scanned)
  have l: "length (sess_arr s1) = length (sess_arr s)" using sc by (auto simp: scanned_def step_ok_def handled_def)
  have "zr_messages now (sess_arr s1 ! j) = zr_messages now (sess_arr s ! j)" if "j \<in> set is" for j
  proof (cases "j \<in> conn s")
    case True
    then have "j \<in> conn s - {i}" using that Cons.prems(3) by auto
    then show ?thesis using sc by (auto simp: scanned_def step_ok_def)
  next
    case False
    then have "j \<notin> conn s1" using sc by (auto simp: scanned_def)
    with False that Cons.prems(4) l show ?thesis by (auto simp: zr_messages_def conn_def)
  qed
  then have eq: "map (\<lambda>i. zr_messages now (sess_arr s1 ! i)) is = map (\<lambda>i. zr_messages now (sess_arr s ! i)) is"
    by simp
  have "sent (concat (map (\<lambda>i. zr_messages now (sess_arr s1 ! i)) is)) s1 s'"
    using sc Cons s1(2) l by (auto simp: scanned_def step_ok_def)
  with sent_append [OF zr_visit_sent [OF K clk s1(1)]] show ?case by (simp add: eq)
qed simp

text \<open>
  C15: the messages of a scan.  At time \<open>now\<close>, over a socket that accepts every datagram, a
  scan sends, slot by slot, one close packet to each session it ends, and to an authenticated
  session that is silent for more than 36, 72, 108 or 144 seconds one, three, five or seven
  requests for synchronisation; nothing else is sent, whatever sessions end on the way.
\<close>

theorem zombie_scan_messages:
  assumes K: "sends_ok K" and clk: "\<forall>n. k_time K n = Inr now"
    and inv: "srv_inv s" and p: "zr_pkt s \<noteq> None" and h: "zombie_reaper_do_scan K s = Some s'"
  shows "\<exists>log. io s' = io s @ log \<and> map sent_to log
    = map Some (concat (map (\<lambda>i. zr_messages now (sess_arr s ! i)) [0..<length (sess_arr s)]))"
proof (cases "n_on_sess s = 0")
  case True
  then have "conn s = {}" using inv by (simp add: srv_inv_def sess_inv_def count_ok_def)
  then have "zr_messages now (sess_arr s ! i) = []" if "i < length (sess_arr s)" for i
    using that by (auto simp: conn_def zr_messages_def)
  moreover have "s' = s" using True h by (simp add: zombie_reaper_do_scan_def)
  ultimately show ?thesis by (simp add: concat_eq_Nil_conv)
next
  case False
  have n: "unat (max_conn (cfg_sock (cfg s))) = length (sess_arr s)"
    using inv by (simp add: srv_inv_def sess_inv_def slots_ok_def)
  have "sent (concat (map (\<lambda>i. zr_messages now (sess_arr s ! i)) [0..<length (sess_arr s)])) s s'"
    using zr_scan_loop_sent [OF K clk inv p, of "[0..<length (sess_arr s)]"] False h n
    by (simp add: zombie_reaper_do_scan_def)
  then show ?thesis by (simp add: sent_def)
qed

text \<open>Witness of C15: the silent client of C5 gets exactly one close packet.\<close>

theorem zombie_scan_messages_witness:
  "\<exists>s' log. zombie_reaper_do_scan (silent_kernel\<lparr>k_time := (\<lambda>_. Inr 1000), k_sendto := (\<lambda>_. 4)\<rparr>) one_client = Some s'
     \<and> io s' = io one_client @ log
     \<and> map sent_to log = [Some (addr (sess_arr one_client ! 0), [TSRV_PKT_CLOSE, 0, 0, 0])]"
proof -
  let ?K = "silent_kernel\<lparr>k_time := (\<lambda>_. Inr 1000), k_sendto := (\<lambda>_. 4)\<rparr>"
  have K: "sends_ok ?K" "prompt ?K" "\<forall>n. k_time ?K n = Inr 1000"
    by (simp_all add: sends_ok_def prompt_def silent_kernel_def)
  have p: "zr_pkt one_client \<noteq> None" by (simp add: one_client_def)
  obtain s' where s': "zombie_reaper_do_scan ?K one_client = Some s'"
    using zombie_scan_yields [OF K(2) one_client_inv(1) p] by (auto simp: yields_def)
  have c: "0 \<in> conn one_client" "1 \<notin> conn one_client" using one_client_inv(2) by simp_all
  have 0: "zr_messages 1000 (sess_arr one_client ! 0) = [(addr (sess_arr one_client ! 0), [TSRV_PKT_CLOSE, 0, 0, 0])]"
    using c(1) by (simp add: zr_messages_def one_client_last_act conn_def)
  have 1: "zr_messages 1000 (sess_arr one_client ! 1) = []"
    using c(2) by (simp add: zr_messages_def one_client_last_act conn_def)
  have "[0..<length (sess_arr one_client)] = [0, 1]" by (simp add: one_client_last_act upt_rec)
  with zombie_scan_messages [OF K(1,3) one_client_inv(1) p s'] s' 0 1 show ?thesis by simp
qed

end
