(* ===== verification/Srv_Loop.thy ===== *)
theory Srv_Loop
  imports Srv_Reaper "HOL-Library.Multiset"
begin

text \<open>
  The event loop of a thread, its start-up and its shut-down, the rest of the sequential code of
  \<^verbatim>\<open>src/teavpn2/server/linux/udp_epoll.c\<close>.  A thread is its position in \<open>epl_threads\<close>; the
  field \<open>epoll_set\<close> holds the descriptors registered with its epoll instance, in order.  The
  start-up calls take their answers from \<open>k_sys\<close>.  Dereferencing a packet buffer that is NULL
  gives \<open>None\<close>.
\<close>

section \<open>Start-up\<close>

definition EPOLL_TIMEOUT :: int where
  "EPOLL_TIMEOUT = 10000"

definition upd_thread :: "nat \<Rightarrow> (epl_thread \<Rightarrow> epl_thread) \<Rightarrow> srv_udp_state \<Rightarrow> srv_udp_state" where
  "upd_thread t f s = s\<lparr>epl_threads := (epl_threads s)[t := f (epl_threads s ! t)]\<rparr>"

text \<open>A call whose answer is read from \<open>k_sys\<close>.\<close>

definition sys_call :: "kernel \<Rightarrow> srv_udp_state \<Rightarrow> int \<times> srv_udp_state" where
  "sys_call K s = (k_sys K (tick s), s\<lparr>tick := tick s + 1\<rparr>)"

definition create_epoll_fd :: "kernel \<Rightarrow> srv_udp_state \<Rightarrow> int \<times> srv_udp_state" where
  "create_epoll_fd K s = sys_call K s"

definition epoll_add :: "kernel \<Rightarrow> nat \<Rightarrow> int \<Rightarrow> srv_udp_state \<Rightarrow> int \<times> srv_udp_state" where
  "epoll_add K t fd s =
     (let (ret, s1) = sys_call K s in
      if ret < 0 then (ret, s1)
      else (ret, upd_thread t (\<lambda>x. x\<lparr>epoll_set := epoll_set x @ [fd]\<rparr>) s1))"

definition init_epoll_fd_add :: "kernel \<Rightarrow> nat \<Rightarrow> srv_udp_state \<Rightarrow> int \<times> srv_udp_state" where
  "init_epoll_fd_add K t s =
     (let nn = thread_num (cfg_sys (cfg s));
          i = th_idx (epl_threads s ! t)
      in
      if i = 0 then
        let (ret, s1) = epoll_add K t (udp_fd s) s in
        if ret \<noteq> 0 then (ret, s1)
        else if nn = 1 then
          let (ret, s2) = epoll_add K t (tun_fds s ! 0) s1 in
          if ret \<noteq> 0 then (ret, s2) else (0, s2)
        else (0, s1)
      else
        let (ret, s1) = epoll_add K t (tun_fds s ! unat i) s in
        if ret \<noteq> 0 then (ret, s1)
        else if i = 1 then
          let (ret, s2) = epoll_add K t (tun_fds s ! 0) s1 in
          if ret \<noteq> 0 then (ret, s2) else (0, s2)
        else (0, s1))"

definition init_epoll_thread :: "kernel \<Rightarrow> nat \<Rightarrow> srv_udp_state \<Rightarrow> int \<times> srv_udp_state" where
  "init_epoll_thread K t s =
     (let (ret, s1) = create_epoll_fd K s in
      if ret < 0 then (ret, s1)
      else init_epoll_fd_add K t
             (upd_thread t (\<lambda>x. x\<lparr>epoll_fd := ret, epoll_timeout := EPOLL_TIMEOUT\<rparr>) s1))"

text \<open>The zeroed page of \<^verbatim>\<open>al4096_malloc_mmap\<close>.\<close>

definition zero_pkt :: sc_pkt where
  "zero_pkt = \<lparr>pkt_len = 0, raw = (\<lambda>_. 0)\<rparr>"

fun init_threads_loop :: "kernel \<Rightarrow> nat list \<Rightarrow> srv_udp_state \<Rightarrow> int \<times> srv_udp_state" where
  "init_threads_loop K [] s = (0, s)"
| "init_threads_loop K (t # ts) s =
     (case init_epoll_thread K t s of
        (ret, s1) \<Rightarrow>
          if ret \<noteq> 0 then (ret, s1)
          else case sys_call K s1 of
            (ret, s2) \<Rightarrow>
              if ret < 0 then (ret, s2)
              else init_threads_loop K ts (upd_thread t (\<lambda>x. x\<lparr>th_pkt := Some zero_pkt\<rparr>) s2))"

text \<open>\<open>None\<close> is the panic on a thread number below one.\<close>

definition init_epoll_thread_array :: "kernel \<Rightarrow> srv_udp_state \<Rightarrow> (int \<times> srv_udp_state) option" where
  "init_epoll_thread_array K s =
     (let nn = thread_num (cfg_sys (cfg s));
          s0 = s\<lparr>epl_threads := [], tick := tick s + 1\<rparr>
      in
      if nn < 1 then None
      else if \<not> k_malloc K (tick s) then Some (- ENOMEM, s0)
      else Some (init_threads_loop K [0..<unat nn]
             (s0\<lparr>epl_threads := map (\<lambda>i. \<lparr>th_idx = word_of_nat i, epoll_fd = -1, epoll_timeout = 0,
                epoll_set = [], th_is_online = False, th_pkt = None\<rparr>) [0..<unat nn]\<rparr>)))"

section \<open>The event loop\<close>

definition do_epoll_wait :: "kernel \<Rightarrow> srv_udp_state \<Rightarrow> int \<times> int list \<times> srv_udp_state" where
  "do_epoll_wait K s =
     (case k_epoll_wait K (tick s) of
        (ret, evs) \<Rightarrow>
          let s' = s\<lparr>tick := tick s + 1\<rparr> in
          if ret < 0 then (if ret = - EINTR then (0, evs, s') else (ret, evs, s'))
          else (ret, evs, s'))"

fun handle_events :: "kernel \<Rightarrow> nat \<Rightarrow> int list \<Rightarrow> srv_udp_state \<Rightarrow> (int \<times> srv_udp_state) option" where
  "handle_events K t [] s = Some (0, s)"
| "handle_events K t (fd # fds) s = do {
     pkt \<leftarrow> th_pkt (epl_threads s ! t);
     (tmp, pkt', s1) \<leftarrow> handle_event K fd pkt s;
     let s2 = upd_thread t (\<lambda>x. x\<lparr>th_pkt := Some pkt'\<rparr>) s1;
     if tmp \<noteq> 0 then Some (tmp, s2) else handle_events K t fds s2
   }"

text \<open>\<^verbatim>\<open>__run_event_loop\<close>\<close>

definition run_event_loop_once :: "kernel \<Rightarrow> nat \<Rightarrow> srv_udp_state \<Rightarrow> (int \<times> srv_udp_state) option" where
  "run_event_loop_once K t s =
     (case do_epoll_wait K s of
        (ret, evs, s1) \<Rightarrow> if ret < 0 then Some (ret, s1) else handle_events K t (take (nat ret) evs) s1)"

section \<open>Shut-down\<close>

definition close_fd :: "int \<Rightarrow> srv_udp_state \<Rightarrow> srv_udp_state" where
  "close_fd fd s = s\<lparr>io := io s @ [Close fd]\<rparr>"

definition close_epoll_fds :: "srv_udp_state \<Rightarrow> srv_udp_state" where
  "close_epoll_fds s =
     fold (\<lambda>x s. if epoll_fd x = -1 then s else close_fd (epoll_fd x) s) (epl_threads s) s"

fun close_sess_loop :: "kernel \<Rightarrow> nat list \<Rightarrow> srv_udp_state \<Rightarrow> srv_udp_state option" where
  "close_sess_loop K [] s = Some s"
| "close_sess_loop K (i # is) s =
     (if \<not> is_connected (sess_arr s ! i) then close_sess_loop K is s
      else do {
        pkt \<leftarrow> th_pkt (epl_threads s ! 0);
        (_, pkt', s1) \<leftarrow> close_udp_session K i pkt s;
        close_sess_loop K is (upd_thread 0 (\<lambda>x. x\<lparr>th_pkt := Some pkt'\<rparr>) s1)
      })"

definition close_client_sess :: "kernel \<Rightarrow> srv_udp_state \<Rightarrow> srv_udp_state option" where
  "close_client_sess K s =
     (if sess_arr s = [] then Some s
      else close_sess_loop K [0..<unat (max_conn (cfg_sock (cfg s)))] s)"

definition free_pkt_buffer :: "srv_udp_state \<Rightarrow> srv_udp_state" where
  "free_pkt_buffer s = s\<lparr>epl_threads := map (\<lambda>x. x\<lparr>th_pkt := None\<rparr>) (epl_threads s)\<rparr>"

text \<open>
  The part of \<^verbatim>\<open>destroy_epoll\<close> after the threads have exited, and the part taken when they
  do not.
\<close>

definition destroy_epoll :: "kernel \<Rightarrow> bool \<Rightarrow> srv_udp_state \<Rightarrow> srv_udp_state option" where
  "destroy_epoll K exited s =
     (if \<not> exited then Some (s\<lparr>threads_wont_exit := True\<rparr>)
      else do {
        s1 \<leftarrow> close_client_sess K (close_epoll_fds s);
        Some ((free_pkt_buffer s1)\<lparr>epl_threads := []\<rparr>)
      })"

section \<open>Start-up: who watches what\<close>

text \<open>The descriptors thread \<open>t\<close> of \<open>n\<close> has to watch.\<close>

definition watch :: "srv_udp_state \<Rightarrow> nat \<Rightarrow> nat \<Rightarrow> int list" where
  "watch s n t =
     (if t = 0 then udp_fd s # (if n = 1 then [tun_fds s ! 0] else [])
      else tun_fds s ! t # (if t = 1 then [tun_fds s ! 0] else []))"

lemma upd_thread_fields [simp]:
  "udp_fd (upd_thread t f s) = udp_fd s" "tun_fds (upd_thread t f s) = tun_fds s"
  "cfg (upd_thread t f s) = cfg s" "tick (upd_thread t f s) = tick s"
  "epl_threads (upd_thread t f s) = (epl_threads s)[t := f (epl_threads s ! t)]"
  "sess_arr (upd_thread t f s) = sess_arr s" "stop (upd_thread t f s) = stop s"
  "n_on_threads (upd_thread t f s) = n_on_threads s" "zr_pkt (upd_thread t f s) = zr_pkt s"
  "zr_is_online (upd_thread t f s) = zr_is_online s" "io (upd_thread t f s) = io s"
  "threads_wont_exit (upd_thread t f s) = threads_wont_exit s"
  by (simp_all add: upd_thread_def)

text \<open>A start-up step changes nothing but the threads and the call counter.\<close>

definition threads_only :: "srv_udp_state \<Rightarrow> srv_udp_state \<Rightarrow> bool" where
  "threads_only s s' \<longleftrightarrow> s'\<lparr>epl_threads := epl_threads s, tick := tick s\<rparr> = s"

lemma threads_only_refl [simp]: "threads_only s s"
  by (simp add: threads_only_def)

lemma threads_only_upd [simp]:
  "threads_only s (upd_thread t f s') = threads_only s s'" "threads_only s (s'\<lparr>tick := n\<rparr>) = threads_only s s'"
  by (simp_all add: threads_only_def upd_thread_def)

lemma threads_only_trans:
  assumes "threads_only s t" "threads_only t u"
  shows "threads_only s u"
proof -
  have "u\<lparr>epl_threads := epl_threads s, tick := tick s\<rparr>
      = (u\<lparr>epl_threads := epl_threads t, tick := tick t\<rparr>)\<lparr>epl_threads := epl_threads s, tick := tick s\<rparr>" by simp
  also have "\<dots> = s" using assms unfolding threads_only_def by metis
  finally show ?thesis by (simp add: threads_only_def)
qed

lemma threads_only_fields:
  assumes "threads_only s s'"
  shows "udp_fd s' = udp_fd s" "tun_fds s' = tun_fds s" "cfg s' = cfg s"
proof -
  have e: "s = s'\<lparr>epl_threads := epl_threads s, tick := tick s\<rparr>" using assms by (simp add: threads_only_def)
  show "udp_fd s' = udp_fd s" "tun_fds s' = tun_fds s" "cfg s' = cfg s" by (subst e, simp)+
qed

lemma watch_cong: "threads_only s s' \<Longrightarrow> watch s' n t = watch s n t"
  using threads_only_fields by (simp add: watch_def)

lemma epoll_add_ok:
  assumes "epoll_add K t fd s = (ret, s')" and "ret = 0"
  shows "threads_only s s' \<and> epl_threads s' =
    (epl_threads s)[t := (epl_threads s ! t)\<lparr>epoll_set := epoll_set (epl_threads s ! t) @ [fd]\<rparr>]"
  using assms by (auto simp: epoll_add_def sys_call_def Let_def split: if_splits)

lemma init_epoll_fd_add_ok:
  assumes "init_epoll_fd_add K t s = (0, s')" "t < length (epl_threads s)"
    and "th_idx (epl_threads s ! t) = word_of_nat t" "t < 256"
    and n: "unat (thread_num (cfg_sys (cfg s))) = n"
  shows "threads_only s s' \<and> epl_threads s' = (epl_threads s)[t := (epl_threads s ! t)
    \<lparr>epoll_set := epoll_set (epl_threads s ! t) @ watch s n t\<rparr>]"
proof -
  have t: "(word_of_nat t = (0 :: u16)) = (t = 0)" "(word_of_nat t = (1 :: u16)) = (t = 1)"
      "unat (word_of_nat t :: u16) = t"
    using assms(4) by (simp_all add: word_unat_eq_iff unat_of_nat)
  have n1: "(thread_num (cfg_sys (cfg s)) = 1) = (n = 1)"
    using n by (simp add: word_unat_eq_iff)
  obtain r1 s1 where 1: "epoll_add K t (if t = 0 then udp_fd s else tun_fds s ! t) s = (r1, s1)" by fastforce
  obtain r2 s2 where 2: "epoll_add K t (tun_fds s ! 0) s1 = (r2, s2)" by fastforce
  have r1: "r1 = 0" and s': "s' = (if t = 0 \<and> n = 1 \<or> t = 1 then s2 else s1)"
      and r2: "t = 0 \<and> n = 1 \<or> t = 1 \<longrightarrow> r2 = 0"
    using assms(1) 1 2 unfolding init_epoll_fd_add_def Let_def assms(3) t n1
    by (auto split: if_splits)
  note a1 = epoll_add_ok [OF 1 r1]
  show ?thesis
  proof (cases "t = 0 \<and> n = 1 \<or> t = 1")
    case True
    then have "r2 = 0" using r2 by blast
    note a2 = epoll_add_ok [OF 2 this]
    have "threads_only s s2" using a1 a2 threads_only_trans by blast
    then show ?thesis using a1 a2 True s' assms(2) by (auto simp: watch_def)
  next
    case False
    then show ?thesis using a1 s' assms(2) by (auto simp: watch_def)
  qed
qed

lemma init_epoll_thread_ok:
  assumes "init_epoll_thread K t s = (0, s')" "t < length (epl_threads s)"
    and "th_idx (epl_threads s ! t) = word_of_nat t" "t < 256"
    and n: "unat (thread_num (cfg_sys (cfg s))) = n"
  shows "threads_only s s' \<and> (\<exists>fd \<ge> 0. epl_threads s' = (epl_threads s)[t := (epl_threads s ! t)
    \<lparr>epoll_fd := fd, epoll_timeout := EPOLL_TIMEOUT, epoll_set := epoll_set (epl_threads s ! t) @ watch s n t\<rparr>])"
proof -
  define fd where "fd = k_sys K (tick s)"
  define s1 where "s1 = upd_thread t (\<lambda>x. x\<lparr>epoll_fd := fd, epoll_timeout := EPOLL_TIMEOUT\<rparr>) (s\<lparr>tick := tick s + 1\<rparr>)"
  have fd: "fd \<ge> 0" and a: "init_epoll_fd_add K t s1 = (0, s')"
    using assms(1) by (auto simp: init_epoll_thread_def create_epoll_fd_def sys_call_def Let_def fd_def s1_def split: if_splits)
  have f: "threads_only s s1" "t < length (epl_threads s1)" "th_idx (epl_threads s1 ! t) = word_of_nat t"
      "unat (thread_num (cfg_sys (cfg s1))) = n"
    using assms by (simp_all add: s1_def)
  from init_epoll_fd_add_ok [OF a f(2,3) assms(4) f(4)] show ?thesis
    using fd threads_only_trans [OF f(1)] watch_cong [OF f(1)] assms(2) by (auto simp: s1_def)
qed

lemma epoll_add_threads: "threads_only s (snd (epoll_add K t fd s))"
  by (simp add: epoll_add_def sys_call_def)

lemma epoll_add_two_threads:
  assumes "epoll_add K t fd s = (ret, s1)"
  shows "threads_only s (snd (if ret \<noteq> 0 then (ret, s1) else if c then (let (ret, s2) = epoll_add K t fd' s1 in
      if ret \<noteq> 0 then (ret, s2) else (0, s2)) else (0, s1)))"
proof -
  have 1: "threads_only s s1" using epoll_add_threads [of s K t fd] assms by simp
  then have "threads_only s (snd (epoll_add K t fd' s1))" using epoll_add_threads threads_only_trans by blast
  with 1 show ?thesis by (auto split: prod.split)
qed

lemma init_epoll_fd_add_threads: "threads_only s (snd (init_epoll_fd_add K t s))"
proof (cases "th_idx (epl_threads s ! t) = 0")
  case True
  obtain ret s1 where "epoll_add K t (udp_fd s) s = (ret, s1)" by fastforce
  from epoll_add_two_threads [OF this] this True show ?thesis
    unfolding init_epoll_fd_add_def Let_def by (simp only: refl if_True prod.case)
next
  case False
  obtain ret s1 where "epoll_add K t (tun_fds s ! unat (th_idx (epl_threads s ! t))) s = (ret, s1)" by fastforce
  from epoll_add_two_threads [OF this] this False show ?thesis
    unfolding init_epoll_fd_add_def Let_def by (simp only: if_False prod.case)
qed

lemma init_epoll_thread_threads: "threads_only s (snd (init_epoll_thread K t s))"
proof -
  define s1 where "s1 = upd_thread t (\<lambda>x. x\<lparr>epoll_fd := k_sys K (tick s), epoll_timeout := EPOLL_TIMEOUT\<rparr>) (s\<lparr>tick := tick s + 1\<rparr>)"
  have "threads_only s s1" by (simp add: s1_def)
  then have "threads_only s (snd (init_epoll_fd_add K t s1))"
    using init_epoll_fd_add_threads threads_only_trans by blast
  then show ?thesis by (simp add: init_epoll_thread_def create_epoll_fd_def sys_call_def s1_def)
qed

lemma init_threads_loop_threads: "threads_only s (snd (init_threads_loop K ts s))"
proof (induction ts arbitrary: s)
  case (Cons t ts)
  obtain r s1 where 1: "init_epoll_thread K t s = (r, s1)" by fastforce
  then have t1: "threads_only s s1" using init_epoll_thread_threads [of s K t] by simp
  define s2 where "s2 = upd_thread t (\<lambda>x. x\<lparr>th_pkt := Some zero_pkt\<rparr>) (s1\<lparr>tick := tick s1 + 1\<rparr>)"
  have "threads_only s s2" using t1 by (simp add: s2_def)
  then have "threads_only s (snd (init_threads_loop K ts s2))" using Cons.IH threads_only_trans by blast
  with t1 show ?case by (simp add: 1 sys_call_def s2_def)
qed simp

lemma init_array_threads:
  assumes "init_epoll_thread_array K s = Some (r, s')"
  shows "threads_only s s' \<and> 1 \<le> unat (thread_num (cfg_sys (cfg s)))"
proof -
  define s0 where "s0 = s\<lparr>tick := tick s + 1, epl_threads := map (\<lambda>i. \<lparr>th_idx = word_of_nat i, epoll_fd = -1,
    epoll_timeout = 0, epoll_set = [], th_is_online = False, th_pkt = None\<rparr>) [0..<unat (thread_num (cfg_sys (cfg s)))]\<rparr>"
  have t0: "threads_only s s0" by (simp add: s0_def threads_only_def)
  have "threads_only s (s\<lparr>epl_threads := [], tick := tick s + 1\<rparr>)" by (simp add: threads_only_def)
  moreover have "threads_only s (snd (init_threads_loop K ts s0))" for ts
    using init_threads_loop_threads t0 threads_only_trans by blast
  ultimately show ?thesis
    using assms by (auto simp: init_epoll_thread_array_def Let_def s0_def word_less_nat_alt split: if_splits)
      (metis snd_conv)+
qed

lemma threads_only_inv:
  assumes "threads_only s s'"
  shows "srv_inv s' = srv_inv s" "n_on_threads s' = n_on_threads s"
proof -
  have e: "s = s'\<lparr>epl_threads := epl_threads s, tick := tick s\<rparr>" using assms by (simp add: threads_only_def)
  show "srv_inv s' = srv_inv s" by (rule srv_inv_cong; subst e; simp)
  show "n_on_threads s' = n_on_threads s" by (subst e) simp
qed

definition thread_ready :: "srv_udp_state \<Rightarrow> nat \<Rightarrow> nat \<Rightarrow> epl_thread \<Rightarrow> bool" where
  "thread_ready s n t x \<longleftrightarrow> th_idx x = word_of_nat t \<and> 0 \<le> epoll_fd x \<and> epoll_timeout x = EPOLL_TIMEOUT
     \<and> epoll_set x = watch s n t \<and> th_pkt x = Some zero_pkt \<and> \<not> th_is_online x"

definition thread_fresh :: "nat \<Rightarrow> epl_thread \<Rightarrow> bool" where
  "thread_fresh t x \<longleftrightarrow> th_idx x = word_of_nat t \<and> epoll_set x = [] \<and> \<not> th_is_online x"

lemma init_threads_loop_ok:
  assumes "init_threads_loop K [k..<n] s = (0, s')" "length (epl_threads s) = n" "n < 256" "k \<le> n"
    and n: "unat (thread_num (cfg_sys (cfg s))) = n"
    and "\<forall>t < k. thread_ready s n t (epl_threads s ! t)" "\<forall>t. k \<le> t \<and> t < n \<longrightarrow> thread_fresh t (epl_threads s ! t)"
  shows "threads_only s s' \<and> length (epl_threads s') = n \<and> (\<forall>t < n. thread_ready s n t (epl_threads s' ! t))"
  using assms(1,2,4-)
proof (induction "n - k" arbitrary: k s)
  case 0
  then show ?case by simp
next
  case (Suc d)
  then have k: "k < n" and upt: "[k..<n] = k # [Suc k..<n]" by (simp_all add: upt_conv_Cons)
  obtain r1 s1 where 1: "init_epoll_thread K k s = (r1, s1)" by fastforce
  define s2 where "s2 = upd_thread k (\<lambda>x. x\<lparr>th_pkt := Some zero_pkt\<rparr>) (s1\<lparr>tick := tick s1 + 1\<rparr>)"
  have r1: "r1 = 0" and l: "init_threads_loop K [Suc k..<n] s2 = (0, s')"
    using Suc.prems(1) unfolding upt by (auto simp: 1 sys_call_def s2_def split: if_splits)
  have fr: "thread_fresh k (epl_threads s ! k)" using Suc.prems(6) k by blast
  obtain fd where fd: "fd \<ge> 0" "threads_only s s1" "epl_threads s1 = (epl_threads s)[k := (epl_threads s ! k)
    \<lparr>epoll_fd := fd, epoll_timeout := EPOLL_TIMEOUT, epoll_set := epoll_set (epl_threads s ! k) @ watch s n k\<rparr>]"
    using init_epoll_thread_ok [OF 1 [unfolded r1]] k Suc.prems(2,4) fr assms(3) by (auto simp: thread_fresh_def)
  have t2: "threads_only s s2" using fd(2) by (simp add: s2_def)
  have th2: "epl_threads s2 ! t = (if t = k then (epl_threads s ! k)\<lparr>epoll_fd := fd, epoll_timeout := EPOLL_TIMEOUT,
      epoll_set := epoll_set (epl_threads s ! k) @ watch s n k, th_pkt := Some zero_pkt\<rparr> else epl_threads s ! t)"
    if "t < n" for t using that fd(3) Suc.prems(2) k by (simp add: s2_def nth_list_update)
  have rd: "thread_ready s2 n t x = thread_ready s n t x" for t x
    using watch_cong [OF t2] by (simp add: thread_ready_def)
  have "\<forall>t < Suc k. thread_ready s2 n t (epl_threads s2 ! t)"
    unfolding rd using Suc.prems(5) fr k fd(1) th2
    by (auto simp: less_Suc_eq thread_ready_def thread_fresh_def)
  moreover have "\<forall>t. Suc k \<le> t \<and> t < n \<longrightarrow> thread_fresh t (epl_threads s2 ! t)"
    using Suc.prems(6) th2 by auto
  moreover have "length (epl_threads s2) = n" using fd(3) Suc.prems(2) by (simp add: s2_def)
  moreover have "unat (thread_num (cfg_sys (cfg s2))) = n"
    using threads_only_fields(3) [OF t2] Suc.prems(4) by simp
  ultimately have "threads_only s2 s' \<and> length (epl_threads s') = n \<and> (\<forall>t < n. thread_ready s2 n t (epl_threads s' ! t))"
    using Suc.hyps(1) [of "Suc k" s2] l k Suc.hyps(2) by simp
  then show ?case using threads_only_trans [OF t2] by (simp add: rd)
qed

lemma init_array_ok:
  assumes "init_epoll_thread_array K s = Some (0, s')" and n: "unat (thread_num (cfg_sys (cfg s))) = n"
  shows "1 \<le> n \<and> threads_only s s' \<and> length (epl_threads s') = n
    \<and> (\<forall>t < n. thread_ready s n t (epl_threads s' ! t))"
proof -
  define s0 where "s0 = s\<lparr>tick := tick s + 1, epl_threads := map (\<lambda>i. \<lparr>th_idx = word_of_nat i, epoll_fd = -1,
    epoll_timeout = 0, epoll_set = [], th_is_online = False, th_pkt = None\<rparr>) [0..<n]\<rparr>"
  have n1: "1 \<le> n" and l: "init_threads_loop K [0..<n] s0 = (0, s')"
    using assms by (auto simp: init_epoll_thread_array_def Let_def s0_def word_less_nat_alt split: if_splits)
  have n2: "n < 256" using n unsigned_less [of "thread_num (cfg_sys (cfg s))", where 'a = nat] by simp
  have t0: "threads_only s s0" by (simp add: s0_def threads_only_def)
  have "threads_only s0 s' \<and> length (epl_threads s') = n \<and> (\<forall>t < n. thread_ready s0 n t (epl_threads s' ! t))"
    by (rule init_threads_loop_ok [OF l _ n2]) (simp_all add: s0_def n thread_fresh_def)
  then show ?thesis
    using n1 threads_only_trans [OF t0] watch_cong [OF t0] by (auto simp: thread_ready_def)
qed

lemma watch_partition:
  assumes "1 \<le> n" "length (tun_fds s) = n"
  shows "mset (concat (map (watch s n) [0..<n])) = mset (udp_fd s # tun_fds s)"
proof -
  have tl: "map (watch s n) [k..<n] = map (\<lambda>t. [tun_fds s ! t]) [k..<n]" if "2 \<le> k" for k
    using that by (auto simp: watch_def)
  have ds: "map (\<lambda>t. tun_fds s ! t) [0..<n] = tun_fds s"
    using assms(2) by (metis map_nth)
  show ?thesis
  proof (cases "n = 1")
    case True
    then have "tun_fds s = [tun_fds s ! 0]" using assms(2) by (cases "tun_fds s") auto
    then show ?thesis using True by (simp add: watch_def)
  next
    case False
    then have u: "[0..<n] = 0 # 1 # [2..<n]" using assms(1) by (simp add: upt_conv_Cons numeral_2_eq_2)
    have "concat (map (\<lambda>t. [tun_fds s ! t]) [2..<n]) = map (\<lambda>t. tun_fds s ! t) [2..<n]" by (simp add: concat_map_singleton)
    then have "concat (map (watch s n) [0..<n])
        = udp_fd s # tun_fds s ! 1 # tun_fds s ! 0 # map (\<lambda>t. tun_fds s ! t) [2..<n]"
      unfolding u list.map tl [OF order_refl] using False by (simp add: watch_def)
    moreover have "tun_fds s = tun_fds s ! 0 # tun_fds s ! 1 # map (\<lambda>t. tun_fds s ! t) [2..<n]"
      using ds unfolding u by simp
    ultimately show ?thesis by (metis add_mset_commute mset.simps(2))
  qed
qed

section \<open>The event loop keeps the invariant\<close>

lemma broadcast_loop_any_io:
  "broadcast_loop K is m len s = Some (ret, s') \<Longrightarrow> io_only (\<lambda>_. True) s s'"
  using broadcast_loop_io [of K "is" m len s ret s' "\<lambda>_. True"] by (auto elim: io_only_mono)

lemma route_dst_any_io:
  assumes "route_packet_dst K len pkt s = Some (ret, s')"
  shows "io_only (\<lambda>_. True) s s'"
proof -
  have r: "io_only (\<lambda>_. True) s s1" if "route_ipv4_packet K d len pkt s = Some (r1, s1)" for d r1 s1
    using that io_only_mono [OF send_to_client_io, of K _ _ _ s _ s1 "\<lambda>_. True"]
    by (auto simp: route_ipv4_packet_def Let_def bind_eq_Some_conv split: if_splits)
  then show ?thesis
    using assms broadcast_loop_any_io io_only_trans
    unfolding route_packet_dst_def broadcast_packet_def
    by (fastforce simp: bind_eq_Some_conv split: if_splits)
qed

lemma tun_event_io:
  assumes "handle_event_from_tun K pkt s = Some (ret, pkt', s')"
  shows "io_only (\<lambda>_. True) s s'"
proof -
  define s1 where "s1 = s\<lparr>tick := tick s + 1\<rparr>"
  have io: "io_only (\<lambda>_. True) s s1" by (simp add: s1_def)
  have "s' = s1 \<or> (\<exists>r len p. route_packet_dst K len p s1 = Some (r, s'))"
    using assms by (auto simp: handle_event_from_tun_def sys_read_def route_packet_def Let_def s1_def bind_eq_Some_conv
        split: prod.splits if_splits)
  then show ?thesis using io route_dst_any_io io_only_trans by blast
qed

lemma handle_event_inv:
  assumes "sendto_errno K" "srv_inv s" "handle_event K fd pkt s = Some (ret, pkt', s')"
  shows "srv_inv s' \<and> handled (\<lambda>_. True) s s'"
proof (cases "fd = udp_fd s")
  case True
  obtain n bs saddr where "k_recvfrom K (tick s) = (n, bs, saddr)" by (metis prod.exhaust)
  from handle_event_from_udp_spec [OF assms(1,2) this] assms(3) True
  have "srv_inv s'" "handled (udp_event saddr (tun_fds s ! 0)) s s'"
    by (auto simp: handle_event_def step_ok_def)
  then show ?thesis using handled_mono [of "udp_event saddr (tun_fds s ! 0)" s s' "\<lambda>_. True"] by simp
next
  case False
  then have "io_only (\<lambda>_. True) s s'" using assms(3) by (auto simp: handle_event_def intro: tun_event_io)
  then show ?thesis using io_only_inv io_only_handled assms(2) by blast
qed

text \<open>What a round of a thread's loop leaves alone.\<close>

definition round_ok :: "nat \<Rightarrow> srv_udp_state \<Rightarrow> srv_udp_state \<Rightarrow> bool" where
  "round_ok t s s' \<longleftrightarrow> srv_inv s' \<and> cfg s' = cfg s \<and> n_on_threads s' = n_on_threads s \<and> (stop s \<longrightarrow> stop s')
     \<and> zr_is_online s' = zr_is_online s \<and> (zr_pkt s' = None \<longleftrightarrow> zr_pkt s = None)
     \<and> threads_wont_exit s' = threads_wont_exit s
     \<and> (\<exists>pkt. epl_threads s' = (epl_threads s)[t := (epl_threads s ! t)\<lparr>th_pkt := pkt\<rparr>]
          \<and> (pkt = None \<longleftrightarrow> th_pkt (epl_threads s ! t) = None))"

lemma srv_inv_upd_thread [simp]: "srv_inv (upd_thread t f s) = srv_inv s"
  by (rule srv_inv_cong) (simp_all add: upd_thread_def)

lemma conn_upd_thread [simp]: "conn (upd_thread t f s) = conn s"
  by (simp add: conn_def)

lemma round_ok_refl: "srv_inv s \<Longrightarrow> round_ok t s s"
  by (auto simp: round_ok_def intro!: exI [of _ "th_pkt (epl_threads s ! t)"])

lemma round_ok_trans:
  assumes 1: "round_ok t s s1" and 2: "round_ok t s1 s2"
  shows "round_ok t s s2"
proof -
  let ?upd = "\<lambda>(s :: srv_udp_state) pkt. (epl_threads s)[t := (epl_threads s ! t)\<lparr>th_pkt := pkt\<rparr>]"
  obtain p where p: "epl_threads s1 = ?upd s p" "p = None \<longleftrightarrow> th_pkt (epl_threads s ! t) = None"
    using 1 by (auto simp: round_ok_def)
  obtain q where q: "epl_threads s2 = ?upd s1 q" "q = None \<longleftrightarrow> th_pkt (epl_threads s1 ! t) = None"
    using 2 by (auto simp: round_ok_def)
  have "epl_threads s2 = ?upd s q"
    by (cases "t < length (epl_threads s)") (use p q in \<open>auto simp: list_update_beyond\<close>)
  moreover have "q = None \<longleftrightarrow> th_pkt (epl_threads s ! t) = None"
    using p q by (cases "t < length (epl_threads s)") (auto simp: list_update_beyond)
  ultimately show ?thesis using 1 2 unfolding round_ok_def by metis
qed

lemma handled_round:
  assumes "handled P s s1" "srv_inv s1" "th_pkt (epl_threads s ! t) \<noteq> None"
  shows "round_ok t s (upd_thread t (\<lambda>x. x\<lparr>th_pkt := Some p\<rparr>) s1)"
  using assms unfolding round_ok_def handled_def by (auto intro!: exI [of _ "Some p"])

lemma handle_events_round:
  "sendto_errno K \<Longrightarrow> srv_inv s \<Longrightarrow> handle_events K t fds s = Some (r, s') \<Longrightarrow> round_ok t s s'"
proof (induction fds arbitrary: s)
  case Nil
  then show ?case by (simp add: round_ok_refl)
next
  case (Cons fd fds)
  obtain pkt tmp pkt' s1 where 1: "th_pkt (epl_threads s ! t) = Some pkt"
      "handle_event K fd pkt s = Some (tmp, pkt', s1)"
    using Cons.prems(3) by (auto simp: bind_eq_Some_conv)
  define s2 where "s2 = upd_thread t (\<lambda>x. x\<lparr>th_pkt := Some pkt'\<rparr>) s1"
  have rest: "s' = s2 \<or> handle_events K t fds s2 = Some (r, s')"
    using Cons.prems(3) 1 by (auto simp: Let_def s2_def split: if_splits)
  have "round_ok t s s2"
    using handle_event_inv [OF Cons.prems(1,2) 1(2)] handled_round 1(1) unfolding s2_def by blast
  moreover from this have "round_ok t s2 s'"
    using rest Cons.IH [OF Cons.prems(1)] round_ok_refl by (auto simp: round_ok_def)
  ultimately show ?case by (rule round_ok_trans)
qed

lemma run_once_round:
  assumes "sendto_errno K" "srv_inv s" "run_event_loop_once K t s = Some (r, s')"
  shows "round_ok t s s'"
proof -
  define s1 where "s1 = s\<lparr>tick := tick s + 1\<rparr>"
  have io: "io_only (\<lambda>_. True) s s1" by (simp add: s1_def)
  have 1: "srv_inv s1" using io_only_inv [OF io] assms(2) by simp
  have r: "round_ok t s s1" using 1 by (auto simp: round_ok_def s1_def intro!: exI [of _ "th_pkt (epl_threads s ! t)"])
  have "s' = s1 \<or> (\<exists>evs. handle_events K t evs s1 = Some (r, s'))"
    using assms(3) by (auto simp: run_event_loop_once_def do_epoll_wait_def Let_def s1_def split: prod.splits if_splits)
  then show ?thesis using r round_ok_trans [OF r] handle_events_round [OF assms(1) 1] by blast
qed

lemma handle_events_yields:
  assumes "prompt K" "sendto_errno K"
  shows "srv_inv s \<Longrightarrow> t < length (epl_threads s) \<Longrightarrow> th_pkt (epl_threads s ! t) \<noteq> None \<Longrightarrow> yields (handle_events K t fds s)"
proof (induction fds arbitrary: s)
  case (Cons fd fds)
  obtain pkt where p: "th_pkt (epl_threads s ! t) = Some pkt" using Cons.prems by auto
  obtain tmp pkt' s1 where h: "handle_event K fd pkt s = Some (tmp, pkt', s1)"
    using handle_event_yields [OF assms(1), of fd pkt s] by (auto simp: yields_def)
  note hi = handle_event_inv [OF assms(2) Cons.prems(1) h]
  have "yields (handle_events K t fds (upd_thread t (\<lambda>x. x\<lparr>th_pkt := Some pkt'\<rparr>) s1))"
    using hi Cons.prems by (intro Cons.IH) (auto simp: handled_def)
  then show ?case by (simp add: p h Let_def yields_Some)
qed (simp add: yields_def)

section \<open>Shut-down closes every session\<close>

lemma close_sess_loop_spec:
  "srv_inv s \<Longrightarrow> set is \<subseteq> {0..<length (sess_arr s)} \<Longrightarrow> close_sess_loop K is s = Some s'
    \<Longrightarrow> srv_inv s' \<and> conn s' = conn s - set is \<and> length (sess_arr s') = length (sess_arr s)"
proof (induction "is" arbitrary: s)
  case (Cons i "is")
  show ?case
  proof (cases "is_connected (sess_arr s ! i)")
    case False
    then have "i \<notin> conn s" by (simp add: conn_def)
    then show ?thesis using False Cons by auto
  next
    case True
    then have i: "i \<in> conn s" using Cons.prems(2) by (auto simp: conn_def)
    obtain pkt r pkt' s1 where c: "close_udp_session K i pkt s = Some (r, pkt', s1)"
      and l: "close_sess_loop K is (upd_thread 0 (\<lambda>x. x\<lparr>th_pkt := Some pkt'\<rparr>) s1) = Some s'"
      using Cons.prems(3) True by (auto simp: bind_eq_Some_conv)
    have s1: "srv_inv s1" "conn s1 = conn s - {i}" "length (sess_arr s1) = length (sess_arr s)"
      using close_spec [OF Cons.prems(1) i c] by (auto simp: step_ok_def handled_def)
    show ?thesis using Cons.IH [OF _ _ l] s1 Cons.prems(2) by auto
  qed
qed simp

lemma close_client_sess_spec:
  assumes "srv_inv s" "close_client_sess K s = Some s'"
  shows "srv_inv s' \<and> conn s' = {}"
proof (cases "sess_arr s = []")
  case True
  then show ?thesis using assms by (simp add: close_client_sess_def conn_def)
next
  case False
  have "unat (max_conn (cfg_sock (cfg s))) = length (sess_arr s)"
    using assms(1) by (simp add: srv_inv_def sess_inv_def slots_ok_def)
  then have "srv_inv s' \<and> conn s' = conn s - {0..<length (sess_arr s)}"
    using close_sess_loop_spec [OF assms(1), of "[0..<length (sess_arr s)]" K s'] assms(2) False
    by (simp add: close_client_sess_def)
  moreover have "conn s \<subseteq> {0..<length (sess_arr s)}" by (auto simp: conn_def)
  ultimately show ?thesis by auto
qed

lemma close_sess_loop_yields:
  assumes "prompt K"
  shows "th_pkt (epl_threads s ! 0) \<noteq> None \<Longrightarrow> epl_threads s \<noteq> [] \<Longrightarrow> set is \<subseteq> {0..<length (sess_arr s)} \<Longrightarrow> srv_inv s
    \<Longrightarrow> yields (close_sess_loop K is s)"
proof (induction "is" arbitrary: s)
  case (Cons i "is")
  show ?case
  proof (cases "is_connected (sess_arr s ! i)")
    case True
    then have i: "i \<in> conn s" using Cons.prems(3) by (auto simp: conn_def)
    obtain pkt where p: "th_pkt (epl_threads s ! 0) = Some pkt" using Cons.prems(1) by auto
    obtain r pkt' s1 where c: "close_udp_session K i pkt s = Some (r, pkt', s1)"
      using close_yields [OF assms, of i pkt s] by (auto simp: yields_def)
    have "yields (close_sess_loop K is (upd_thread 0 (\<lambda>x. x\<lparr>th_pkt := Some pkt'\<rparr>) s1))"
      using close_spec [OF Cons.prems(4) i c] Cons.prems by (intro Cons.IH) (auto simp: step_ok_def handled_def)
    then show ?thesis using True p c by simp
  qed (use Cons in auto)
qed (simp add: yields_def)

section \<open>Properties\<close>

text \<open>
  C16: every descriptor has exactly one watcher.  When the thread array is set up successfully,
  the epoll sets of the threads together hold the UDP socket and every TUN descriptor exactly
  once; thread 0 watches the socket, no TUN descriptor is on thread 0 unless it is the only
  thread, and every thread has its index, an epoll instance, the timeout and a packet buffer.
\<close>

theorem epoll_partition:
  assumes init: "init_epoll_thread_array K s = Some (0, s')"
    and tun: "length (tun_fds s) = unat (thread_num (cfg_sys (cfg s)))"
  shows "mset (concat (map epoll_set (epl_threads s'))) = mset (udp_fd s # tun_fds s)
    \<and> hd (epoll_set (epl_threads s' ! 0)) = udp_fd s
    \<and> (1 < length (tun_fds s) \<longrightarrow> epoll_set (epl_threads s' ! 0) = [udp_fd s])
    \<and> length (epl_threads s') = length (tun_fds s)
    \<and> (\<forall>t < length (epl_threads s'). th_idx (epl_threads s' ! t) = word_of_nat t
         \<and> 0 \<le> epoll_fd (epl_threads s' ! t) \<and> epoll_timeout (epl_threads s' ! t) = 10000
         \<and> th_pkt (epl_threads s' ! t) \<noteq> None)"
proof -
  define n where "n = length (tun_fds s)"
  have i: "1 \<le> n" "length (epl_threads s') = n" "\<forall>t < n. thread_ready s n t (epl_threads s' ! t)"
    using init_array_ok [OF init] tun by (simp_all add: n_def)
  have "map epoll_set (epl_threads s') = map (watch s n) [0..<n]"
    using i(2,3) by (intro nth_equalityI) (simp_all add: thread_ready_def)
  then have "mset (concat (map epoll_set (epl_threads s'))) = mset (udp_fd s # tun_fds s)"
    using watch_partition [OF i(1)] n_def by simp
  moreover have "epoll_set (epl_threads s' ! 0) = watch s n 0"
    using i(1,3) by (simp add: thread_ready_def)
  ultimately show ?thesis
    using i by (auto simp: thread_ready_def n_def watch_def EPOLL_TIMEOUT_def)
qed

text \<open>Witness of C16: a server with three threads.\<close>

definition three_threads :: srv_udp_state where
  "three_threads = (fresh_table 2)\<lparr>tun_fds := [4, 5, 6],
     cfg := (cfg (fresh_table 2))\<lparr>cfg_sys := (cfg_sys (cfg (fresh_table 2)))\<lparr>thread_num := 3\<rparr>\<rparr>\<rparr>"

lemma quiet_init:
  assumes "\<forall>n. k_sys K n = 0" "\<forall>n. k_malloc K n" "thread_num (cfg_sys (cfg s)) \<noteq> 0"
  shows "\<exists>s'. init_epoll_thread_array K s = Some (0, s')"
proof -
  have z: "sys_call K s = (0, s\<lparr>tick := tick s + 1\<rparr>)" for s
    using assms(1) by (simp add: sys_call_def)
  have a: "epoll_add K t fd s
      = (0, upd_thread t (\<lambda>x. x\<lparr>epoll_set := epoll_set x @ [fd]\<rparr>) (s\<lparr>tick := tick s + 1\<rparr>))" for t fd s
    by (simp add: epoll_add_def z)
  have "fst (init_epoll_fd_add K t s) = 0" for t s
    by (simp add: init_epoll_fd_add_def a Let_def)
  then have i: "fst (init_epoll_thread K t s) = 0" for t s
    by (simp add: init_epoll_thread_def create_epoll_fd_def z Let_def)
  have "fst (init_threads_loop K ts s) = 0" for ts s
    by (induction ts arbitrary: s) (simp_all add: z i split: prod.split, metis fst_conv i)
  then show ?thesis
    using assms(2,3) unfolding init_epoll_thread_array_def Let_def by (simp add: prod_eq_iff not_less)
qed

lemma three_threads_init: "\<exists>s'. init_epoll_thread_array silent_kernel three_threads = Some (0, s')"
  by (rule quiet_init) (simp_all add: three_threads_def silent_kernel_def)

lemma recfg_inv:
  assumes "srv_inv s"
  shows "srv_inv (s\<lparr>tun_fds := fds, cfg := (cfg s)\<lparr>cfg_sys := sys\<rparr>\<rparr>)"
proof -
  let ?s = "s\<lparr>tun_fds := fds, cfg := (cfg s)\<lparr>cfg_sys := sys\<rparr>\<rparr>"
  have "sess_inv ?s = sess_inv s" by (rule same_table_inv) (simp add: same_table_def sess_key_def)
  moreover have "conn ?s = conn s" by (simp add: conn_def)
  ultimately show ?thesis using assms by (simp add: srv_inv_def auth_ok_def peer_ok_def route_ok_def sess_key_def)
qed

theorem epoll_partition_witness:
  "\<exists>s'. init_epoll_thread_array silent_kernel three_threads = Some (0, s')
     \<and> mset (concat (map epoll_set (epl_threads s'))) = {#3, 4, 5, 6#}"
proof -
  obtain s' where s': "init_epoll_thread_array silent_kernel three_threads = Some (0, s')"
    using three_threads_init by blast
  have t: "udp_fd three_threads = 3" "tun_fds three_threads = [4, 5, 6]"
      "length (tun_fds three_threads) = unat (thread_num (cfg_sys (cfg three_threads)))"
    by (simp_all add: three_threads_def) (simp_all add: fresh_table_def)
  from epoll_partition [OF s' t(3)] s' show ?thesis by (auto simp: t(1,2))
qed

text \<open>
  C17: shut-down closes every session.  Whenever the loop that closes the client sessions ends,
  no session is connected, the online counter is zero, every slot is free again and the
  invariant holds; and the loop ends whenever the sockets answer and thread 0 has its buffer.
\<close>

theorem close_client_sess_all:
  assumes inv: "srv_inv s" and K: "prompt K"
    and th: "epl_threads s \<noteq> []" "th_pkt (epl_threads s ! 0) \<noteq> None"
  shows "\<exists>s'. close_client_sess K s = Some s' \<and> srv_inv s' \<and> conn s' = {} \<and> n_on_sess s' = 0
    \<and> unat ` set (stk_list (sess_stk s')) = {i. i < length (sess_arr s')}"
proof -
  have n: "unat (max_conn (cfg_sock (cfg s))) = length (sess_arr s)"
    using inv by (simp add: srv_inv_def sess_inv_def slots_ok_def)
  have "yields (close_client_sess K s)"
    using close_sess_loop_yields [OF K th(2,1) _ inv, of "[0..<length (sess_arr s)]"]
    by (simp add: close_client_sess_def n yields_Some)
  then obtain s' where s': "close_client_sess K s = Some s'" by (auto simp: yields_def)
  have c: "srv_inv s'" "conn s' = {}" using close_client_sess_spec [OF inv s'] by simp_all
  moreover have "n_on_sess s' = 0" using c by (simp add: srv_inv_def sess_inv_def count_ok_def unsigned_eq_0_iff)
  ultimately show ?thesis using s' by (simp add: srv_inv_def sess_inv_def slots_ok_def)
qed

text \<open>Witness of C17: the server with one client.\<close>

theorem close_client_sess_all_witness:
  "\<exists>s'. close_client_sess silent_kernel (one_client\<lparr>epl_threads := [\<lparr>th_idx = 0, epoll_fd = 7, epoll_timeout = 10000,
     epoll_set = [3, 4], th_is_online = False, th_pkt = Some zero_pkt\<rparr>]\<rparr>) = Some s' \<and> conn s' = {}"
proof -
  define s where "s = one_client\<lparr>epl_threads := [\<lparr>th_idx = 0, epoll_fd = 7, epoll_timeout = 10000,
     epoll_set = [3, 4], th_is_online = False, th_pkt = Some zero_pkt\<rparr>]\<rparr>"
  have "srv_inv s = srv_inv one_client" by (rule srv_inv_cong) (simp_all add: s_def)
  moreover have "prompt silent_kernel" by (simp add: prompt_def silent_kernel_def)
  ultimately show ?thesis
    using close_client_sess_all [of s silent_kernel] one_client_inv(1) unfolding s_def by auto
qed

end
