(* ===== verification/Threads.thy ===== *)
theory Threads
  imports Prelude
begin

text \<open>
  The worker threads that client and server share in structure (both \<^verbatim>\<open>udp_epoll.c\<close>): the
  positions of a worker, and an abstract specification of the whole pool: workers announce
  themselves, wait until the main thread has counted all of them, handle events until told to
  stop, and sign off; the main thread frees the shared memory only when nobody is counted.
\<close>

section \<open>Positions\<close>

text \<open>
  A worker (thread 0 is the main thread): created, \<open>is_online\<close> stored, counted and in
  \<open>thread_wait\<close>, in its loop, out of the loop with its result, \<open>is_online\<close> cleared, and
  no longer counted.
\<close>

datatype thread_pc = Unspawned | Spawned | Marked | Waiting | Looping | Leaving int | Unmarked int | Exited int

definition counted :: "thread_pc \<Rightarrow> bool" where
  "counted p \<longleftrightarrow> (case p of Waiting \<Rightarrow> True | Looping \<Rightarrow> True | Leaving r \<Rightarrow> True | Unmarked r \<Rightarrow> True | _ \<Rightarrow> False)"

definition exited :: "thread_pc \<Rightarrow> bool" where
  "exited p \<longleftrightarrow> (case p of Exited r \<Rightarrow> True | _ \<Rightarrow> False)"

lemma counted_simps [simp]:
  "\<not> counted Unspawned" "\<not> counted Spawned" "\<not> counted Marked" "counted Waiting" "counted Looping"
  "counted (Leaving r)" "counted (Unmarked r)" "\<not> counted (Exited r)"
  by (simp_all add: counted_def)

lemma exited_simps [simp]:
  "\<not> exited Unspawned" "\<not> exited Spawned" "\<not> exited Marked" "\<not> exited Waiting" "\<not> exited Looping"
  "\<not> exited (Leaving r)" "\<not> exited (Unmarked r)" "exited (Exited r)"
  by (simp_all add: exited_def)

lemma count_update:
  "t < length xs \<Longrightarrow> length (filter P (xs[t := y])) + (if P (xs ! t) then 1 else 0)
    = length (filter P xs) + (if P y then 1 else 0)"
proof (induction xs arbitrary: t)
  case (Cons x xs)
  show ?case
  proof (cases t)
    case (Suc k)
    then show ?thesis using Cons.IH [of k] Cons.prems by simp
  qed simp
qed simp

lemma exited_not_counted: "exited p \<Longrightarrow> \<not> counted p"
  by (cases p) simp_all

lemma u8_u16: "unat (ucast (x :: u8) :: u16) = unat x"
  using unsigned_less [of x, where 'a = nat]
  by (simp add: unsigned_ucast_eq take_bit_nat_eq_self)

section \<open>The pool\<close>

text \<open>
  The main thread: spawning worker \<open>i\<close> next, running as worker 0, waiting for the others,
  and done, with or without freeing the memory.
\<close>

datatype pool_main = Starting nat | Serving | Stopping | Freed | Gave_Up

record pool =
  p_pc :: "thread_pc list"
  p_cnt :: nat
  p_rel :: bool
  p_stop :: bool
  p_main :: pool_main

abbreviation pool_set :: "nat \<Rightarrow> thread_pc \<Rightarrow> pool \<Rightarrow> pool" where
  "pool_set t p q \<equiv> q\<lparr>p_pc := (p_pc q)[t := p]\<rparr>"

inductive pool_step :: "pool \<Rightarrow> pool \<Rightarrow> bool" where
  mark: "t < length (p_pc q) \<Longrightarrow> p_pc q ! t = Spawned \<Longrightarrow> pool_step q (pool_set t Marked q)"
| count: "t < length (p_pc q) \<Longrightarrow> p_pc q ! t = Marked \<Longrightarrow>
    pool_step q ((pool_set t Waiting q)\<lparr>p_cnt := p_cnt q + 1\<rparr>)"
| go: "t < length (p_pc q) \<Longrightarrow> p_pc q ! t = Waiting \<Longrightarrow> p_rel q \<or> p_stop q \<Longrightarrow>
    pool_step q (pool_set t Looping q)"
| release: "p_pc q \<noteq> [] \<Longrightarrow> p_pc q ! 0 = Waiting \<Longrightarrow> p_cnt q = length (p_pc q) \<Longrightarrow>
    pool_step q ((pool_set 0 Looping q)\<lparr>p_rel := True\<rparr>)"
| leave: "t < length (p_pc q) \<Longrightarrow> p_pc q ! t = Looping \<Longrightarrow> pool_step q (pool_set t (Leaving r) q)"
| unmark: "t < length (p_pc q) \<Longrightarrow> p_pc q ! t = Leaving r \<Longrightarrow> pool_step q (pool_set t (Unmarked r) q)"
| uncount: "t < length (p_pc q) \<Longrightarrow> p_pc q ! t = Unmarked r \<Longrightarrow>
    pool_step q ((pool_set t (Exited r) q)\<lparr>p_cnt := p_cnt q - 1\<rparr>)"
| spawn: "p_main q = Starting i \<Longrightarrow> i < length (p_pc q) \<Longrightarrow> mn \<in> {Starting (i + 1), Stopping} \<Longrightarrow>
    pool_step q ((pool_set i Spawned q)\<lparr>p_main := mn\<rparr>)"
| serve: "p_main q = Starting i \<Longrightarrow> \<not> i < length (p_pc q) \<Longrightarrow>
    pool_step q ((pool_set 0 Spawned q)\<lparr>p_main := Serving\<rparr>)"
| spawn_fail: "p_main q = Starting i \<Longrightarrow> pool_step q (q\<lparr>p_main := Stopping\<rparr>)"
| served: "p_main q = Serving \<Longrightarrow> exited (p_pc q ! 0) \<Longrightarrow> pool_step q (q\<lparr>p_main := Stopping\<rparr>)"
| free: "p_main q = Stopping \<Longrightarrow> p_cnt q = 0 \<Longrightarrow> pool_step q (q\<lparr>p_main := Freed\<rparr>)"
| give_up: "p_main q = Stopping \<Longrightarrow> pool_step q (q\<lparr>p_main := Gave_Up\<rparr>)"
| stop_all: "pool_step q (q\<lparr>p_stop := True\<rparr>)"

inductive_cases pool_stepE: "pool_step q q'"

text \<open>The pool before the first worker exists.\<close>

definition pool_init :: "nat \<Rightarrow> pool \<Rightarrow> bool" where
  "pool_init n q \<longleftrightarrow> 1 \<le> n \<and> p_pc q = replicate n Unspawned \<and> p_cnt q = 0 \<and> \<not> p_rel q \<and> p_main q \<in> {Starting 1, Stopping}"

section \<open>Its invariant\<close>

definition pool_inv :: "pool \<Rightarrow> bool" where
  "pool_inv q \<longleftrightarrow> p_pc q \<noteq> [] \<and> p_cnt q = length (filter counted (p_pc q))
     \<and> (p_rel q \<longrightarrow> (\<forall>p \<in> set (p_pc q). counted p \<or> exited p))
     \<and> (Looping \<in> set (p_pc q) \<longrightarrow> p_rel q \<or> p_stop q)
     \<and> (\<forall>i. p_main q = Starting i \<longrightarrow> 1 \<le> i \<and> p_pc q ! 0 = Unspawned
          \<and> (\<forall>t. i \<le> t \<and> t < length (p_pc q) \<longrightarrow> p_pc q ! t = Unspawned))
     \<and> (p_main q \<in> {Stopping, Freed, Gave_Up} \<longrightarrow> p_pc q ! 0 = Unspawned \<or> exited (p_pc q ! 0))
     \<and> (p_main q = Freed \<and> p_rel q \<longrightarrow> (\<forall>p \<in> set (p_pc q). exited p))"

lemma pool_init_inv: "pool_init n q \<Longrightarrow> pool_inv q"
  by (auto simp: pool_init_def pool_inv_def)

lemma all_filtered: "length (filter P xs) = length xs \<Longrightarrow> \<forall>x \<in> set xs. P x"
  by (metis length_filter_less less_irrefl)
text \<open>A worker moves on.\<close>

lemma pool_worker:
  assumes inv: "pool_inv q" and t: "t < length (p_pc q)" "p_pc q ! t \<noteq> Unspawned" "\<not> exited (p_pc q ! t)"
    and c: "counted (p_pc q ! t) \<longrightarrow> counted p \<or> exited p" "cnt = length (filter counted ((p_pc q)[t := p]))"
    and r: "p_rel q \<longrightarrow> rel" "rel \<longrightarrow> p_rel q \<or> (\<forall>p \<in> set (p_pc q). counted p) \<and> counted p"
    and l: "p = Looping \<longrightarrow> rel \<or> p_stop q"
  shows "pool_inv (q\<lparr>p_pc := (p_pc q)[t := p], p_cnt := cnt, p_rel := rel\<rparr>)"
proof -
  have mem: "p_pc q ! t \<in> set (p_pc q)" using t(1) by simp
  have sub: "p' \<in> set ((p_pc q)[t := p]) \<Longrightarrow> p' = p \<or> p' \<in> set (p_pc q)" for p'
    using set_update_subset_insert by fastforce
  have "\<forall>p' \<in> set ((p_pc q)[t := p]). counted p' \<or> exited p'" if "rel"
  proof (cases "p_rel q")
    case True
    then have a: "\<forall>p \<in> set (p_pc q). counted p \<or> exited p" using inv by (simp add: pool_inv_def)
    then have "counted p \<or> exited p" using mem c(1) t(3) by blast
    then show ?thesis using sub a by blast
  next
    case False
    then show ?thesis using r(2) that sub by blast
  qed
  moreover have "rel \<or> p_stop q" if "Looping \<in> set ((p_pc q)[t := p])"
  proof -
    have "Looping \<in> set (p_pc q) \<longrightarrow> p_rel q \<or> p_stop q" using inv by (simp add: pool_inv_def)
    then show ?thesis using sub [OF that] l r(1) by blast
  qed
  moreover have "1 \<le> i \<and> (p_pc q)[t := p] ! 0 = Unspawned
      \<and> (\<forall>u. i \<le> u \<and> u < length (p_pc q) \<longrightarrow> (p_pc q)[t := p] ! u = Unspawned)" if "p_main q = Starting i" for i
  proof -
    have i: "1 \<le> i" "p_pc q ! 0 = Unspawned" "\<forall>u. i \<le> u \<and> u < length (p_pc q) \<longrightarrow> p_pc q ! u = Unspawned"
      using inv that by (auto simp: pool_inv_def)
    then show ?thesis using t by (auto simp: nth_list_update)
  qed
  moreover have old: "p_pc q ! 0 = Unspawned \<or> exited (p_pc q ! 0)" if "p_main q \<in> {Stopping, Freed, Gave_Up}"
    using inv that by (auto simp: pool_inv_def)
  then have "(p_pc q)[t := p] ! 0 = Unspawned \<or> exited ((p_pc q)[t := p] ! 0)" if "p_main q \<in> {Stopping, Freed, Gave_Up}"
    using that t by (auto simp: nth_list_update)
  moreover have "\<not> (p_main q = Freed \<and> rel)"
  proof
    assume f: "p_main q = Freed \<and> rel"
    have "\<not> p_rel q" using f inv t(3) mem by (auto simp: pool_inv_def)
    moreover have "p_pc q ! 0 \<in> set (p_pc q)" using t(1) by (intro nth_mem) linarith
    ultimately have "counted (p_pc q ! 0)" using r(2) f by blast
    then show False using old f exited_not_counted by auto
  qed
  moreover have "p_pc q \<noteq> []" using inv by (simp add: pool_inv_def)
  ultimately show ?thesis using c(2) unfolding pool_inv_def by simp blast
qed

text \<open>The main thread starts a worker.\<close>

lemma pool_spawned:
  assumes inv: "pool_inv q" and u: "p_main q = Starting i" "u < length (p_pc q)" "p_pc q ! u = Unspawned"
    and mn: "mn = Starting (i + 1) \<and> 0 < u \<and> u < i + 1 \<or> mn = Serving \<or> mn = Stopping \<and> 0 < u"
  shows "pool_inv ((pool_set u Spawned q)\<lparr>p_main := mn\<rparr>)"
proof -
  have mem: "Unspawned \<in> set (p_pc q)" using u(2,3) by (metis nth_mem)
  then have nr: "\<not> p_rel q" using inv by (force simp: pool_inv_def)
  have sub: "p' \<in> set ((p_pc q)[u := Spawned]) \<Longrightarrow> p' = Spawned \<or> p' \<in> set (p_pc q)" for p'
    using set_update_subset_insert by fastforce
  have i: "1 \<le> i" "p_pc q ! 0 = Unspawned" "\<forall>t. i \<le> t \<and> t < length (p_pc q) \<longrightarrow> p_pc q ! t = Unspawned"
    using inv u(1) by (auto simp: pool_inv_def)
  have "p_cnt q = length (filter counted ((p_pc q)[u := Spawned]))"
    using count_update [OF u(2), of counted Spawned] u(3) inv by (simp add: pool_inv_def)
  moreover have "Looping \<in> set ((p_pc q)[u := Spawned]) \<longrightarrow> p_stop q" using sub inv nr by (auto simp: pool_inv_def)
  ultimately show ?thesis using inv nr i mn by (auto simp: pool_inv_def nth_list_update)
qed

lemma pool_step_inv:
  assumes "pool_step q q'" and inv: "pool_inv q"
  shows "pool_inv q'"
  using assms(1)
proof cases
  case (mark t)
  then show ?thesis using pool_worker [OF inv, of t Marked "p_cnt q" "p_rel q"] count_update [of t "p_pc q" counted Marked] inv
    by (simp add: pool_inv_def)
next
  case (count t)
  then show ?thesis
    using pool_worker [OF inv, of t Waiting "p_cnt q + 1" "p_rel q"] count_update [of t "p_pc q" counted Waiting] inv
    by (simp add: pool_inv_def)
next
  case (go t)
  then show ?thesis
    using pool_worker [OF inv, of t Looping "p_cnt q" "p_rel q"] count_update [of t "p_pc q" counted Looping] inv
    by (simp add: pool_inv_def)
next
  case release
  then have "\<forall>p \<in> set (p_pc q). counted p" using inv all_filtered by (metis pool_inv_def)
  then show ?thesis
    using release pool_worker [OF inv, of 0 Looping "p_cnt q" True] count_update [of 0 "p_pc q" counted Looping] inv
    by (simp add: pool_inv_def)
next
  case (leave t r)
  then show ?thesis
    using pool_worker [OF inv, of t "Leaving r" "p_cnt q" "p_rel q"] count_update [of t "p_pc q" counted "Leaving r"] inv
    by (simp add: pool_inv_def)
next
  case (unmark t r)
  then show ?thesis
    using pool_worker [OF inv, of t "Unmarked r" "p_cnt q" "p_rel q"] count_update [of t "p_pc q" counted "Unmarked r"] inv
    by (simp add: pool_inv_def)
next
  case (uncount t r)
  then show ?thesis
    using pool_worker [OF inv, of t "Exited r" "p_cnt q - 1" "p_rel q"] count_update [of t "p_pc q" counted "Exited r"] inv
    by (simp add: pool_inv_def)
next
  case (spawn i mn)
  then have "p_pc q ! i = Unspawned" "1 \<le> i" using inv by (auto simp: pool_inv_def)
  then show ?thesis using spawn pool_spawned [OF inv spawn(2,3), of mn] by auto
next
  case (serve i)
  then have "p_pc q ! 0 = Unspawned" "0 < length (p_pc q)" using inv by (auto simp: pool_inv_def)
  then show ?thesis using serve pool_spawned [OF inv serve(2), of 0 Serving] by auto
next
  case free
  then have "\<forall>p \<in> set (p_pc q). \<not> counted p" using inv by (simp add: pool_inv_def filter_empty_conv)
  then show ?thesis using inv free by (auto simp: pool_inv_def)
qed (use inv in \<open>auto simp: pool_inv_def\<close>)
section \<open>What the pool promises\<close>

text \<open>
  A program whose threads refine the pool: every step of the machine is a sequence of pool
  steps on the abstraction, as long as the abstraction satisfies the invariant.
\<close>

locale worker_pool =
  fixes pool_of :: "'m \<Rightarrow> pool"
    and wf :: "'m \<Rightarrow> bool"
    and init :: "'m \<Rightarrow> bool"
    and step :: "'m \<Rightarrow> 'm \<Rightarrow> bool"
  assumes init_pool: "init m \<Longrightarrow> wf m \<and> pool_init (length (p_pc (pool_of m))) (pool_of m)"
    and step_pool: "wf m \<Longrightarrow> pool_inv (pool_of m) \<Longrightarrow> step m m' \<Longrightarrow>
      wf m' \<and> pool_step\<^sup>*\<^sup>* (pool_of m) (pool_of m')"
begin

lemma pool_steps_inv: "pool_step\<^sup>*\<^sup>* q q' \<Longrightarrow> pool_inv q \<Longrightarrow> pool_inv q'"
  by (induction rule: rtranclp_induct) (auto intro: pool_step_inv)

end

text \<open>Such a program simulates the pool.\<close>

sublocale worker_pool \<subseteq> sim: simulation step pool_step "\<lambda>m q. wf m \<and> q = pool_of m \<and> pool_inv q"
  by unfold_locales (use step_pool pool_steps_inv in blast)

context worker_pool begin

text \<open>The refinement, along a whole run.\<close>

lemma run_refines:
  assumes "step\<^sup>*\<^sup>* m0 m" "init m0"
  shows "wf m \<and> pool_inv (pool_of m) \<and> pool_step\<^sup>*\<^sup>* (pool_of m0) (pool_of m)"
  using sim.run_simulates [OF assms(1), of "pool_of m0"] init_pool [OF assms(2)] pool_init_inv by blast

lemmas reach_inv = run_refines [THEN conjunct2, THEN conjunct1]

text \<open>No worker handles events before all are counted, unless the program is stopping.\<close>

lemma barrier:
  assumes "step\<^sup>*\<^sup>* m0 m" "init m0" "Looping \<in> set (p_pc (pool_of m))" "\<not> p_stop (pool_of m)"
  shows "\<forall>p \<in> set (p_pc (pool_of m)). counted p \<or> exited p"
  using reach_inv [OF assms(1,2)] assms(3,4) by (auto simp: pool_inv_def)

text \<open>Once the workers were released, memory is freed only after every one of them has exited.\<close>

lemma freed_exited:
  assumes "step\<^sup>*\<^sup>* m0 m" "init m0" "p_main (pool_of m) = Freed" "p_rel (pool_of m)"
  shows "\<forall>p \<in> set (p_pc (pool_of m)). exited p"
  using reach_inv [OF assms(1,2)] assms(3,4) by (auto simp: pool_inv_def)

end

end
