(* ===== verification/Srv_Machine.thy ===== *)
theory Srv_Machine
  imports Srv_Loop Threads
begin

text \<open>
  The threads of the server: \<open>run_event_loop\<close>, the life of a worker thread, the zombie reaper
  and the shut-down of \<^verbatim>\<open>src/teavpn2/server/linux/udp_epoll.c\<close>, together with the signal
  handler of \<^verbatim>\<open>udp.c\<close>, as a step relation.  A state of the machine is the server state
  with the position of every thread in its code; each step is one access of a thread to what it
  shares with the others (an atomic flag or counter, a test of \<open>stop\<close>) or one call of a
  handler.  A round of a worker with all its events, and a scan of the reaper, is one step: the
  machine has no locks, and the interleavings inside of a round are not among its runs.  Any
  thread may take the next step, and a signal may arrive between any two.
\<close>

section \<open>Positions\<close>

datatype zr_pc = Z_unspawned | Z_spawned | Z_online | Z_looping | Z_sleeping | Z_leaving | Z_freed | Z_exited

text \<open>
  The main thread outside its worker loop: in \<open>run_event_loop\<close> (spawning the reaper,
  resetting the counter, spawning worker \<open>k\<close>, running as worker 0) and then in
  \<open>destroy_epoll\<close> with the result of the run.
\<close>

datatype main_pc = M_zr | M_reset | M_spawn nat | M_run
  | M_zr_check int | M_zr_poll nat int | M_tun_check int | M_tun_poll nat int | M_destroy bool int | M_end int

record machine =
  m_srv :: srv_udp_state
  m_pc :: "thread_pc list"
  m_rel :: bool
  m_zr :: zr_pc
  m_main :: main_pc

abbreviation set_pc :: "nat \<Rightarrow> thread_pc \<Rightarrow> machine \<Rightarrow> machine" where
  "set_pc t p m \<equiv> m\<lparr>m_pc := (m_pc m)[t := p]\<rparr>"

section \<open>Steps\<close>

definition SIGTERM :: int where
  "SIGTERM = 15"

definition signal_intr_handler :: "int \<Rightarrow> srv_udp_state \<Rightarrow> srv_udp_state" where
  "signal_intr_handler sg s = (if sig s = -1 then s\<lparr>stop := True, sig := sg\<rparr> else s)"

text \<open>
  One round of the loops of \<open>thread_wait\<close>: whether the function returns, and the new state
  (\<open>m_rel\<close> is the static variable \<open>release_sub_thread\<close>).
\<close>

definition thread_wait :: "nat \<Rightarrow> machine \<Rightarrow> bool \<times> machine" where
  "thread_wait t m =
     (let s = m_srv m;
          nn = thread_num (cfg_sys (cfg s))
      in
      if th_idx (epl_threads s ! t) \<noteq> 0 then (m_rel m \<or> stop s, m)
      else if n_on_threads s \<noteq> ucast nn then (stop s, m)
      else (True, m\<lparr>m_rel := True\<rparr>))"

definition server_udp_epoll_run_event_loop :: "kernel \<Rightarrow> nat \<Rightarrow> machine \<Rightarrow> machine option" where
  "server_udp_epoll_run_event_loop K t m =
     (let s = m_srv m in
      case m_pc m ! t of
        Unspawned \<Rightarrow> None
      | Spawned \<Rightarrow> Some (set_pc t Marked (m\<lparr>m_srv := upd_thread t (\<lambda>x. x\<lparr>th_is_online := True\<rparr>) s\<rparr>))
      | Marked \<Rightarrow> Some (set_pc t Waiting (m\<lparr>m_srv := s\<lparr>n_on_threads := n_on_threads s + 1\<rparr>\<rparr>))
      | Waiting \<Rightarrow> (case thread_wait t m of (done, m') \<Rightarrow> Some (if done then set_pc t Looping m' else m'))
      | Looping \<Rightarrow>
          if stop s then Some (set_pc t (Leaving 0) m)
          else do {
            (ret, s') \<leftarrow> run_event_loop_once K t s;
            Some (set_pc t (if ret \<noteq> 0 then Leaving ret else Looping) (m\<lparr>m_srv := s'\<rparr>))
          }
      | Leaving r \<Rightarrow> Some (set_pc t (Unmarked r) (m\<lparr>m_srv := upd_thread t (\<lambda>x. x\<lparr>th_is_online := False\<rparr>) s\<rparr>))
      | Unmarked r \<Rightarrow> Some (set_pc t (Exited r) (m\<lparr>m_srv := s\<lparr>n_on_threads := n_on_threads s - 1\<rparr>\<rparr>))
      | Exited r \<Rightarrow> None)"

definition run_zombie_reaper_thread :: "kernel \<Rightarrow> machine \<Rightarrow> machine option" where
  "run_zombie_reaper_thread K m =
     (let s = m_srv m in
      case m_zr m of
        Z_unspawned \<Rightarrow> None
      | Z_spawned \<Rightarrow> Some (m\<lparr>m_srv := s\<lparr>zr_is_online := True\<rparr>, m_zr := Z_online\<rparr>)
      | Z_online \<Rightarrow>
          if k_malloc K (tick s)
          then Some (m\<lparr>m_srv := s\<lparr>tick := tick s + 1, zr_pkt := Some zero_pkt\<rparr>, m_zr := Z_looping\<rparr>)
          else Some (m\<lparr>m_srv := s\<lparr>tick := tick s + 1, zr_pkt := None, stop := True\<rparr>, m_zr := Z_looping\<rparr>)
      | Z_looping \<Rightarrow> Some (m\<lparr>m_zr := (if stop s then Z_leaving else Z_sleeping)\<rparr>)
      | Z_sleeping \<Rightarrow>
          if in_emergency s then Some (m\<lparr>m_zr := Z_looping\<rparr>)
          else do {
            s' \<leftarrow> zombie_reaper_do_scan K s;
            Some (m\<lparr>m_srv := s', m_zr := Z_looping\<rparr>)
          }
      | Z_leaving \<Rightarrow> Some (m\<lparr>m_srv := s\<lparr>zr_pkt := None\<rparr>, m_zr := Z_freed\<rparr>)
      | Z_freed \<Rightarrow> Some (m\<lparr>m_srv := s\<lparr>zr_is_online := False\<rparr>, m_zr := Z_exited\<rparr>)
      | Z_exited \<Rightarrow> None)"

text \<open>
  \<open>pthread_create\<close> and \<open>pthread_detach\<close>, which return an error number: the result of the
  spawning function and whether the thread was created.
\<close>

definition spawn_thread :: "kernel \<Rightarrow> srv_udp_state \<Rightarrow> int \<times> bool \<times> srv_udp_state" where
  "spawn_thread K s =
     (let (ret, s1) = sys_call K s in
      if ret \<noteq> 0 then (- ret, False, s1)
      else
        let (ret, s2) = sys_call K s1 in
        if ret \<noteq> 0 then (- ret, True, s2) else (ret, True, s2))"

definition spawn_zombie_reaper_thread :: "kernel \<Rightarrow> machine \<Rightarrow> int \<times> machine" where
  "spawn_zombie_reaper_thread K m =
     (case spawn_thread K (m_srv m) of
        (ret, created, s) \<Rightarrow> (ret, m\<lparr>m_srv := s, m_zr := (if created then Z_spawned else m_zr m)\<rparr>))"

definition spawn_tun_worker_thread :: "kernel \<Rightarrow> nat \<Rightarrow> machine \<Rightarrow> int \<times> machine" where
  "spawn_tun_worker_thread K t m =
     (case spawn_thread K (m_srv m) of
        (ret, created, s) \<Rightarrow> (ret, (if created then set_pc t Spawned m else m)\<lparr>m_srv := s\<rparr>))"

text \<open>The main thread in \<open>run_event_loop\<close>.\<close>

definition run_event_loop :: "kernel \<Rightarrow> machine \<Rightarrow> machine option" where
  "run_event_loop K m =
     (let s = m_srv m;
          nn = unat (thread_num (cfg_sys (cfg s)))
      in
      case m_main m of
        M_zr \<Rightarrow>
          (case spawn_zombie_reaper_thread K m of
             (ret, m') \<Rightarrow> Some (m'\<lparr>m_main := (if ret \<noteq> 0 then M_zr_check ret else M_reset)\<rparr>))
      | M_reset \<Rightarrow> Some (m\<lparr>m_srv := s\<lparr>n_on_threads := 0\<rparr>, m_main := M_spawn 1\<rparr>)
      | M_spawn i \<Rightarrow>
          if i < nn then
            (case spawn_tun_worker_thread K i m of
               (ret, m') \<Rightarrow> Some (m'\<lparr>m_main := (if ret \<noteq> 0 then M_zr_check ret else M_spawn (i + 1))\<rparr>))
          else Some (set_pc 0 Spawned (m\<lparr>m_main := M_run\<rparr>))
      | M_run \<Rightarrow> (case m_pc m ! 0 of Exited r \<Rightarrow> Some (m\<lparr>m_main := M_zr_check r\<rparr>) | _ \<Rightarrow> None)
      | _ \<Rightarrow> None)"

text \<open>
  \<open>pthread_kill\<close> with SIGTERM runs the signal handler in the thread when it succeeds.
\<close>

definition pthread_kill :: "kernel \<Rightarrow> srv_udp_state \<Rightarrow> srv_udp_state" where
  "pthread_kill K s =
     (let (ret, s1) = sys_call K s in if ret \<noteq> 0 then s1 else signal_intr_handler SIGTERM s1)"

text \<open>
  \<open>wait_for_zr_thread_to_exit\<close> and \<open>wait_for_tun_wrk_threads_to_exit\<close>: the entry test
  and a round of the polling loop, whose counter \<open>c\<close> is \<open>wait_c\<close>.
\<close>

definition wait_for_zr_thread_to_exit :: "kernel \<Rightarrow> machine \<Rightarrow> machine option" where
  "wait_for_zr_thread_to_exit K m =
     (let s = m_srv m in
      case m_main m of
        M_zr_check r \<Rightarrow>
          if zr_is_online s then Some (m\<lparr>m_srv := pthread_kill K s, m_main := M_zr_poll 0 r\<rparr>)
          else Some (m\<lparr>m_main := M_tun_check r\<rparr>)
      | M_zr_poll c r \<Rightarrow>
          if zr_is_online s then Some (m\<lparr>m_main := (if c > 1000 then M_destroy False r else M_zr_poll (c + 1) r)\<rparr>)
          else Some (m\<lparr>m_main := M_tun_check r\<rparr>)
      | _ \<Rightarrow> None)"

definition wait_for_tun_wrk_threads_to_exit :: "kernel \<Rightarrow> machine \<Rightarrow> machine option" where
  "wait_for_tun_wrk_threads_to_exit K m =
     (let s = m_srv m in
      case m_main m of
        M_tun_check r \<Rightarrow>
          if n_on_threads s = 0 then Some (m\<lparr>m_main := M_destroy True r\<rparr>)
          else Some (m\<lparr>m_srv := fold (\<lambda>x s. if th_is_online x then pthread_kill K s else s) (epl_threads s) s,
                       m_main := M_tun_poll 0 r\<rparr>)
      | M_tun_poll c r \<Rightarrow>
          if n_on_threads s > 0 then Some (m\<lparr>m_main := (if c > 1000 then M_destroy False r else M_tun_poll (c + 1) r)\<rparr>)
          else Some (m\<lparr>m_main := M_destroy True r\<rparr>)
      | _ \<Rightarrow> None)"

text \<open>The last step of \<open>destroy_epoll\<close>, after \<open>wait_for_threads_to_exit\<close> has returned.\<close>

definition finish_epoll :: "kernel \<Rightarrow> machine \<Rightarrow> machine option" where
  "finish_epoll K m =
     (case m_main m of
        M_destroy ex r \<Rightarrow> do {
          s' \<leftarrow> destroy_epoll K ex (m_srv m);
          Some (m\<lparr>m_srv := s', m_main := M_end r\<rparr>)
        }
      | _ \<Rightarrow> None)"

inductive mstep :: "kernel \<Rightarrow> machine \<Rightarrow> machine \<Rightarrow> bool" for K where
  worker: "t < length (m_pc m) \<Longrightarrow> server_udp_epoll_run_event_loop K t m = Some m' \<Longrightarrow> mstep K m m'"
| reaper: "run_zombie_reaper_thread K m = Some m' \<Longrightarrow> mstep K m m'"
| main_run: "run_event_loop K m = Some m' \<Longrightarrow> mstep K m m'"
| main_zr: "wait_for_zr_thread_to_exit K m = Some m' \<Longrightarrow> mstep K m m'"
| main_tun: "wait_for_tun_wrk_threads_to_exit K m = Some m' \<Longrightarrow> mstep K m m'"
| main_end: "finish_epoll K m = Some m' \<Longrightarrow> mstep K m m'"
| signal: "mstep K m (m\<lparr>m_srv := signal_intr_handler sg (m_srv m)\<rparr>)"

text \<open>\<open>teavpn2_udp_server_epoll\<close> after the thread array is set up.\<close>

definition start_machine :: "srv_udp_state \<Rightarrow> machine" where
  "start_machine s = \<lparr>m_srv = s\<lparr>stop := False\<rparr>, m_pc = replicate (unat (thread_num (cfg_sys (cfg s)))) Unspawned,
     m_rel = False, m_zr = Z_unspawned, m_main = M_zr\<rparr>"

definition teavpn2_udp_server_epoll :: "kernel \<Rightarrow> srv_udp_state \<Rightarrow> machine option" where
  "teavpn2_udp_server_epoll K s = do {
     (ret, s1) \<leftarrow> init_epoll_thread_array K s;
     Some (if ret \<noteq> 0 then (start_machine s1)\<lparr>m_srv := s1, m_main := M_zr_check ret\<rparr> else start_machine s1)
   }"

inductive mreach :: "kernel \<Rightarrow> srv_udp_state \<Rightarrow> machine \<Rightarrow> bool" for K s where
  start: "teavpn2_udp_server_epoll K s = Some m \<Longrightarrow> mreach K s m"
| step: "mreach K s m \<Longrightarrow> mstep K m m' \<Longrightarrow> mreach K s m'"

section \<open>The invariant of the machine\<close>

abbreviation n_threads :: "machine \<Rightarrow> nat" where
  "n_threads m \<equiv> unat (thread_num (cfg_sys (cfg (m_srv m))))"

text \<open>The main thread has not reached \<open>destroy_epoll\<close>.\<close>

fun running :: "main_pc \<Rightarrow> bool" where
  "running M_zr = True" | "running M_reset = True" | "running (M_spawn i) = True" | "running M_run = True"
| "running _ = False"

definition spawn_inv :: "machine \<Rightarrow> bool" where
  "spawn_inv m \<longleftrightarrow> length (m_pc m) = n_threads m \<and> 1 \<le> n_threads m
     \<and> (m_main m \<in> {M_zr, M_reset} \<longrightarrow> (\<forall>p \<in> set (m_pc m). p = Unspawned))
     \<and> (\<forall>i. m_main m = M_spawn i \<longrightarrow> 1 \<le> i \<and> m_pc m ! 0 = Unspawned \<and> (\<forall>t. i \<le> t \<and> t < n_threads m \<longrightarrow> m_pc m ! t = Unspawned))
     \<and> (\<not> running (m_main m) \<longrightarrow> m_pc m ! 0 = Unspawned \<or> exited (m_pc m ! 0))"

definition count_inv :: "machine \<Rightarrow> bool" where
  "count_inv m \<longleftrightarrow> unat (n_on_threads (m_srv m)) = length (filter counted (m_pc m))"

definition release_inv :: "machine \<Rightarrow> bool" where
  "release_inv m \<longleftrightarrow> (m_rel m \<longrightarrow> (\<forall>p \<in> set (m_pc m). counted p \<or> exited p))
     \<and> (Looping \<in> set (m_pc m) \<longrightarrow> m_rel m \<or> stop (m_srv m))"

definition buffers_inv :: "machine \<Rightarrow> bool" where
  "buffers_inv m \<longleftrightarrow> ((\<exists>r. m_main m = M_end r) \<or> (\<forall>t < length (m_pc m). m_pc m ! t = Unspawned)
       \<and> \<not> (running (m_main m))
     \<or> length (epl_threads (m_srv m)) = length (m_pc m) \<and> (\<forall>x \<in> set (epl_threads (m_srv m)). th_pkt x \<noteq> None))
   \<and> (m_zr m = Z_sleeping \<longrightarrow> zr_pkt (m_srv m) \<noteq> None)
   \<and> (m_zr m = Z_looping \<longrightarrow> zr_pkt (m_srv m) \<noteq> None \<or> stop (m_srv m))"

definition end_inv :: "machine \<Rightarrow> bool" where
  "end_inv m \<longleftrightarrow>
     (\<forall>r. m_main m = M_destroy True r \<and> m_rel m \<longrightarrow> (\<forall>p \<in> set (m_pc m). exited p))
   \<and> (\<forall>r. m_main m = M_end r \<and> m_rel m \<and> \<not> threads_wont_exit (m_srv m) \<longrightarrow>
        (\<forall>p \<in> set (m_pc m). exited p) \<and> conn (m_srv m) = {})"

definition minv :: "machine \<Rightarrow> bool" where
  "minv m \<longleftrightarrow> srv_inv (m_srv m) \<and> spawn_inv m \<and> count_inv m \<and> release_inv m \<and> buffers_inv m \<and> end_inv m"

subsection \<open>Steps of a worker\<close>

text \<open>The effect of a worker's step on the state all threads share.\<close>

definition shared_ok :: "machine \<Rightarrow> machine \<Rightarrow> bool" where
  "shared_ok m m' \<longleftrightarrow> srv_inv (m_srv m') \<and> cfg (m_srv m') = cfg (m_srv m) \<and> (stop (m_srv m) \<longrightarrow> stop (m_srv m'))
     \<and> (zr_pkt (m_srv m') = None \<longleftrightarrow> zr_pkt (m_srv m) = None)
     \<and> threads_wont_exit (m_srv m') = threads_wont_exit (m_srv m)
     \<and> length (epl_threads (m_srv m')) = length (epl_threads (m_srv m))
     \<and> ((\<forall>x \<in> set (epl_threads (m_srv m)). th_pkt x \<noteq> None) \<longrightarrow> (\<forall>x \<in> set (epl_threads (m_srv m')). th_pkt x \<noteq> None))
     \<and> m_zr m' = m_zr m \<and> m_main m' = m_main m"

lemma srv_inv_quiet [simp]:
  "srv_inv (s\<lparr>n_on_threads := n\<rparr>) = srv_inv s" "srv_inv (s\<lparr>stop := b\<rparr>) = srv_inv s"
  "srv_inv (s\<lparr>tick := k\<rparr>) = srv_inv s" "srv_inv (s\<lparr>zr_is_online := b\<rparr>) = srv_inv s"
  "srv_inv (s\<lparr>stop := b, sig := i\<rparr>) = srv_inv s" "srv_inv (s\<lparr>threads_wont_exit := b\<rparr>) = srv_inv s"
  "srv_inv (s\<lparr>io := l\<rparr>) = srv_inv s" "srv_inv (s\<lparr>epl_threads := th\<rparr>) = srv_inv s"
  by (rule srv_inv_cong; simp)+

lemma conn_quiet [simp]:
  "conn (s\<lparr>n_on_threads := n\<rparr>) = conn s" "conn (s\<lparr>stop := b\<rparr>) = conn s"
  "conn (s\<lparr>tick := k\<rparr>) = conn s" "conn (s\<lparr>zr_is_online := b\<rparr>) = conn s"
  "conn (s\<lparr>stop := b, sig := i\<rparr>) = conn s" "conn (s\<lparr>threads_wont_exit := b\<rparr>) = conn s"
  "conn (s\<lparr>io := l\<rparr>) = conn s" "conn (s\<lparr>epl_threads := th\<rparr>) = conn s"
  by (simp_all add: conn_def)

lemma upd_thread_pkts:
  "(\<And>x. th_pkt x \<noteq> None \<Longrightarrow> th_pkt (f x) \<noteq> None) \<Longrightarrow> \<forall>x \<in> set xs. th_pkt x \<noteq> None
    \<Longrightarrow> \<forall>x \<in> set (xs[t := f (xs ! t)]). th_pkt x \<noteq> None"
  using set_update_subset_insert [of xs t "f (xs ! t)"] list_update_beyond [of xs t] nth_mem [of t xs]
  by (cases "t < length xs") (auto simp: not_less)

lemma round_shared:
  assumes "round_ok t (m_srv m) s'"
  shows "shared_ok m (m\<lparr>m_srv := s', m_pc := pcs, m_rel := rel\<rparr>)"
proof -
  obtain pkt where th: "epl_threads s' = (epl_threads (m_srv m))[t := (epl_threads (m_srv m) ! t)\<lparr>th_pkt := pkt\<rparr>]"
      and pk: "pkt = None \<longleftrightarrow> th_pkt (epl_threads (m_srv m) ! t) = None"
    using assms by (auto simp: round_ok_def)
  have "\<forall>x \<in> set (epl_threads s'). th_pkt x \<noteq> None" if a: "\<forall>x \<in> set (epl_threads (m_srv m)). th_pkt x \<noteq> None"
  proof (cases "t < length (epl_threads (m_srv m))")
    case True
    then have "pkt \<noteq> None" using a pk by simp
    then show ?thesis using a th set_update_subset_insert by fastforce
  next
    case False
    then show ?thesis using a th by (simp add: list_update_beyond)
  qed
  then show ?thesis using assms th by (auto simp: shared_ok_def round_ok_def)
qed

definition worker_ok :: "nat \<Rightarrow> thread_pc \<Rightarrow> machine \<Rightarrow> machine \<Rightarrow> bool" where
  "worker_ok t p' m m' \<longleftrightarrow>
     (let p = m_pc m ! t; n = n_on_threads (m_srv m) in
      m_pc m' = (m_pc m)[t := p'] \<and> shared_ok m m'
    \<and> p \<noteq> Unspawned \<and> \<not> exited p \<and> p' \<noteq> Unspawned \<and> (counted p \<longrightarrow> counted p' \<or> exited p')
    \<and> n_on_threads (m_srv m') = (if counted p' \<and> \<not> counted p then n + 1 else if counted p \<and> \<not> counted p' then n - 1 else n)
    \<and> (m_rel m' \<longrightarrow> m_rel m \<or> n = ucast (thread_num (cfg_sys (cfg (m_srv m)))) \<and> counted p \<and> counted p')
    \<and> (p' = Looping \<longrightarrow> p = Looping \<or> m_rel m' \<or> stop (m_srv m)) \<and> (m_rel m \<longrightarrow> m_rel m'))"

lemma worker_step:
  assumes K: "sendto_errno K" and inv: "srv_inv (m_srv m)"
    and w: "server_udp_epoll_run_event_loop K t m = Some m'"
  shows "\<exists>p'. worker_ok t p' m m'"
proof (cases "m_pc m ! t = Looping \<and> \<not> stop (m_srv m)")
  case True
  then obtain r s' where r: "run_event_loop_once K t (m_srv m) = Some (r, s')"
      and m': "m' = set_pc t (if r \<noteq> 0 then Leaving r else Looping) (m\<lparr>m_srv := s'\<rparr>)"
    using w by (auto simp: server_udp_epoll_run_event_loop_def Let_def bind_eq_Some_conv)
  have ro: "round_ok t (m_srv m) s'" by (rule run_once_round [OF K inv r])
  have "shared_ok m (m\<lparr>m_srv := s', m_pc := (m_pc m)[t := (if r \<noteq> 0 then Leaving r else Looping)], m_rel := m_rel m\<rparr>)"
    by (rule round_shared [OF ro])
  then have "shared_ok m m'" using m' by simp
  then show ?thesis
    using True ro m' by (intro exI [of _ "if r \<noteq> 0 then Leaving r else Looping"])
      (auto simp: worker_ok_def Let_def round_ok_def)
next
  case False
  have u: "\<forall>x \<in> set (epl_threads (m_srv m)). th_pkt x \<noteq> None \<Longrightarrow>
      \<forall>x \<in> set ((epl_threads (m_srv m))[t := (epl_threads (m_srv m) ! t)\<lparr>th_is_online := b\<rparr>]). th_pkt x \<noteq> None" for b
    by (rule upd_thread_pkts) simp_all
  note defs = server_udp_epoll_run_event_loop_def worker_ok_def shared_ok_def Let_def
  show ?thesis
  proof (cases "m_pc m ! t")
    case Spawned
    then show ?thesis using w inv u by (intro exI [of _ Marked]) (auto simp: defs)
  next
    case Marked
    then show ?thesis using w inv by (intro exI [of _ Waiting]) (auto simp: defs)
  next
    case Waiting
    obtain d m1 where tw: "thread_wait t m = (d, m1)" by fastforce
    define rel where "rel = m_rel m1"
    have m1: "m1 = m\<lparr>m_rel := rel\<rparr>" "d \<longrightarrow> rel \<or> stop (m_srv m)" "m_rel m \<longrightarrow> rel"
        "rel \<longrightarrow> m_rel m \<or> n_on_threads (m_srv m) = ucast (thread_num (cfg_sys (cfg (m_srv m))))"
      using tw by (auto simp: thread_wait_def Let_def rel_def split: if_splits)
    have m': "m' = m\<lparr>m_pc := (m_pc m)[t := if d then Looping else Waiting], m_rel := rel\<rparr>"
      using w Waiting tw m1(1) list_update_id [of "m_pc m" t]
      by (cases d) (auto simp: server_udp_epoll_run_event_loop_def Let_def)
    show ?thesis
      using Waiting inv m1(2-) by (intro exI [of _ "if d then Looping else Waiting"]) (auto simp: defs m')
  next
    case Looping
    then show ?thesis using w inv False by (intro exI [of _ "Leaving 0"]) (auto simp: defs)
  next
    case (Leaving r)
    then show ?thesis using w inv u by (intro exI [of _ "Unmarked r"]) (auto simp: defs)
  next
    case (Unmarked r)
    then show ?thesis using w inv by (intro exI [of _ "Exited r"]) (auto simp: defs)
  qed (use w in \<open>simp_all add: server_udp_epoll_run_event_loop_def Let_def\<close>)
qed

lemma all_counted:
  assumes "minv m" and "n_on_threads (m_srv m) = ucast (thread_num (cfg_sys (cfg (m_srv m))))"
  shows "\<forall>p \<in> set (m_pc m). counted p"
proof -
  have "length (filter counted (m_pc m)) = length (m_pc m)"
    using assms u8_u16 unfolding minv_def count_inv_def spawn_inv_def by simp
  then show ?thesis by (metis filter_True length_filter_less less_irrefl)
qed

lemma count_word:
  assumes "count_inv m" "length (m_pc m) < 256" "t < length (m_pc m)"
  shows "unat (if counted p' \<and> \<not> counted (m_pc m ! t) then n_on_threads (m_srv m) + 1
      else if counted (m_pc m ! t) \<and> \<not> counted p' then n_on_threads (m_srv m) - 1 else n_on_threads (m_srv m))
    = length (filter counted ((m_pc m)[t := p']))"
proof -
  define n where "n = n_on_threads (m_srv m)"
  have n: "unat n = length (filter counted (m_pc m))" using assms(1) by (simp add: count_inv_def n_def)
  moreover have "length (filter counted (m_pc m)) \<le> length (m_pc m)" by (rule length_filter_le)
  ultimately have le: "unat n < 256" using assms(2) by linarith
  have plus: "unat (n + 1) = unat n + 1" using le by (simp add: unat_word_ariths)
  have minus: "unat (n - 1) = unat n - 1" if "0 < unat n"
    using that by (metis One_nat_def unat_minus_one unat_gt_0)
  have "0 < unat n" if "counted (m_pc m ! t)"
    unfolding n using that assms(3) by (metis length_greater_0_conv filter_empty_conv nth_mem)
  then show ?thesis
    using count_update [OF assms(3), of counted p'] n plus minus unfolding n_def [symmetric]
    by (auto split: if_splits)
qed

lemma minv_less: "minv m \<Longrightarrow> length (m_pc m) < 256"
  using unsigned_less [of "thread_num (cfg_sys (cfg (m_srv m)))", where 'a = nat]
  by (simp add: minv_def spawn_inv_def)

lemma worker_spawn:
  assumes "spawn_inv m" "t < length (m_pc m)" "worker_ok t p' m m'"
  shows "spawn_inv m'"
proof -
  have w: "m_pc m' = (m_pc m)[t := p']" "m_main m' = m_main m" "cfg (m_srv m') = cfg (m_srv m)"
      "m_pc m ! t \<noteq> Unspawned" "\<not> exited (m_pc m ! t)"
    using assms(3) by (simp_all add: worker_ok_def shared_ok_def Let_def)
  have z: "m_main m \<notin> {M_zr, M_reset}" using assms(1,2) w(4) by (auto simp: spawn_inv_def)
  have "1 \<le> i \<and> m_pc m' ! 0 = Unspawned \<and> (\<forall>u. i \<le> u \<and> u < n_threads m' \<longrightarrow> m_pc m' ! u = Unspawned)"
    if "m_main m' = M_spawn i" for i
    using that assms(1,2) w by (auto simp: spawn_inv_def nth_list_update)
  moreover have "m_pc m' ! 0 = Unspawned \<or> exited (m_pc m' ! 0)" if "\<not> running (m_main m')"
    using that assms(1,2) w by (auto simp: spawn_inv_def nth_list_update)
  ultimately show ?thesis using assms(1) w z by (simp add: spawn_inv_def)
qed

lemma worker_minv:
  assumes inv: "minv m" and t: "t < length (m_pc m)" and w: "worker_ok t p' m m'"
  shows "minv m'"
proof -
  note f = w [unfolded worker_ok_def shared_ok_def Let_def]
  have pc: "m_pc m' = (m_pc m)[t := p']" using f by simp
  have sub: "p \<in> set (m_pc m') \<Longrightarrow> p = p' \<or> p \<in> set (m_pc m)" for p
    using pc set_update_subset_insert by fastforce
  have mem: "m_pc m ! t \<in> set (m_pc m)" using t by simp
  have "count_inv m'"
    using count_word [OF _ minv_less [OF inv] t, of p'] inv f by (simp add: count_inv_def minv_def)
  moreover have rel: "\<forall>p \<in> set (m_pc m'). counted p \<or> exited p" if "m_rel m'"
  proof (cases "m_rel m")
    case True
    then have "\<forall>p \<in> set (m_pc m). counted p \<or> exited p" using inv by (simp add: minv_def release_inv_def)
    moreover from this mem f have "counted p' \<or> exited p'" by blast
    ultimately show ?thesis using sub by blast
  next
    case False
    then have "n_on_threads (m_srv m) = ucast (thread_num (cfg_sys (cfg (m_srv m))))" "counted p'" using f that by auto
    then show ?thesis using all_counted [OF inv] sub by blast
  qed
  moreover have "m_rel m' \<or> stop (m_srv m')" if l: "Looping \<in> set (m_pc m')"
  proof -
    have "p' = Looping \<or> Looping \<in> set (m_pc m)" using sub [OF l] by auto
    moreover have "m_rel m \<or> stop (m_srv m)" if "Looping \<in> set (m_pc m)"
      using that inv by (simp add: minv_def release_inv_def)
    moreover have "p' = Looping \<longrightarrow> Looping \<in> set (m_pc m) \<or> m_rel m' \<or> stop (m_srv m)" using f mem by metis
    ultimately show ?thesis using f by blast
  qed
  ultimately have r: "count_inv m'" "release_inv m'" by (simp_all add: release_inv_def)
  have nz: "m_pc m ! t \<noteq> Unspawned" "\<not> exited (m_pc m ! t)" using f by simp_all
  have b: "buffers_inv m" using inv by (simp add: minv_def)
  have "\<not> (\<forall>u < length (m_pc m). m_pc m ! u = Unspawned)" using nz(1) t by blast
  then have b': "buffers_inv m'"
    using b f unfolding buffers_inv_def pc by (metis length_list_update)
  have old: "\<not> (\<forall>p \<in> set (m_pc m). exited p)" using nz mem by blast
  have keep: "m_rel m" if "m_rel m'" "\<not> running (m_main m)"
  proof (rule ccontr)
    assume "\<not> m_rel m"
    then have "\<forall>p \<in> set (m_pc m). counted p" using all_counted [OF inv] f that(1) by blast
    moreover have "m_pc m ! 0 \<in> set (m_pc m)" using t by (intro nth_mem) linarith
    moreover have "\<not> counted (m_pc m ! 0)"
      using inv that(2) exited_not_counted by (auto simp: minv_def spawn_inv_def)
    ultimately show False by blast
  qed
  have "end_inv m" "m_main m' = m_main m" "threads_wont_exit (m_srv m') = threads_wont_exit (m_srv m)"
    using inv f by (simp_all add: minv_def)
  then have "end_inv m'" using old keep unfolding end_inv_def by (metis running.simps(9,10))
  with b' show ?thesis
    using r worker_spawn [OF _ t w] inv f by (simp add: minv_def)
qed

subsection \<open>Steps of the other threads\<close>

text \<open>A step that moves no worker.\<close>

definition quiet :: "machine \<Rightarrow> machine \<Rightarrow> bool" where
  "quiet m m' \<longleftrightarrow> m_pc m' = m_pc m \<and> m_rel m' = m_rel m \<and> srv_inv (m_srv m') \<and> cfg (m_srv m') = cfg (m_srv m)
     \<and> n_on_threads (m_srv m') = n_on_threads (m_srv m) \<and> (stop (m_srv m) \<longrightarrow> stop (m_srv m'))
     \<and> epl_threads (m_srv m') = epl_threads (m_srv m)
     \<and> threads_wont_exit (m_srv m') = threads_wont_exit (m_srv m) \<and> conn (m_srv m') \<subseteq> conn (m_srv m)"

lemma quiet_minv:
  assumes inv: "minv m" and q: "quiet m m'" and main: "m_main m' = m_main m"
    and z: "m_zr m' = Z_sleeping \<longrightarrow> zr_pkt (m_srv m') \<noteq> None"
      "m_zr m' = Z_looping \<longrightarrow> zr_pkt (m_srv m') \<noteq> None \<or> stop (m_srv m')"
  shows "minv m'"
proof -
  have "spawn_inv m'" "count_inv m'" "release_inv m'"
    using inv q main by (auto simp: minv_def quiet_def spawn_inv_def count_inv_def release_inv_def)
  moreover have "buffers_inv m'" "end_inv m'"
    using inv q main z unfolding minv_def quiet_def buffers_inv_def end_inv_def by simp_all blast
  ultimately show ?thesis using q by (simp add: minv_def quiet_def)
qed

lemma reaper_minv:
  assumes inv: "minv m" and r: "run_zombie_reaper_thread K m = Some m'"
  shows "minv m'"
proof (cases "m_zr m = Z_sleeping \<and> \<not> in_emergency (m_srv m)")
  case True
  then obtain s' where s': "zombie_reaper_do_scan K (m_srv m) = Some s'" and m': "m' = m\<lparr>m_srv := s', m_zr := Z_looping\<rparr>"
    using r by (auto simp: run_zombie_reaper_thread_def Let_def bind_eq_Some_conv)
  have "zr_pkt (m_srv m) \<noteq> None" "srv_inv (m_srv m)" using inv True by (auto simp: minv_def buffers_inv_def)
  then have sc: "scanned K (conn (m_srv m)) (m_srv m) s'" using zombie_scan_scanned s' by blast
  then have "quiet m m'" by (auto simp: m' quiet_def scanned_def step_ok_def handled_def)
  moreover have "zr_pkt s' \<noteq> None" using sc by (simp add: scanned_def)
  ultimately show ?thesis by (intro quiet_minv [OF inv]) (simp_all add: m')
next
  case False
  have "srv_inv (m_srv m)" using inv by (simp add: minv_def)
  then have "quiet m m' \<and> m_main m' = m_main m"
    using r False by (cases "m_zr m")
      (auto simp: run_zombie_reaper_thread_def Let_def quiet_def split: if_splits)
  moreover have "m_zr m' = Z_sleeping \<longrightarrow> zr_pkt (m_srv m') \<noteq> None"
      "m_zr m' = Z_looping \<longrightarrow> zr_pkt (m_srv m') \<noteq> None \<or> stop (m_srv m')"
    using r False inv by (cases "m_zr m"; auto simp: run_zombie_reaper_thread_def Let_def minv_def buffers_inv_def split: if_splits)+
  ultimately show ?thesis using quiet_minv [OF inv] by blast
qed

lemma signal_fields [simp]:
  "srv_inv (signal_intr_handler sg s) = srv_inv s" "cfg (signal_intr_handler sg s) = cfg s"
  "n_on_threads (signal_intr_handler sg s) = n_on_threads s" "epl_threads (signal_intr_handler sg s) = epl_threads s"
  "threads_wont_exit (signal_intr_handler sg s) = threads_wont_exit s" "conn (signal_intr_handler sg s) = conn s"
  "zr_pkt (signal_intr_handler sg s) = zr_pkt s" "stop s \<Longrightarrow> stop (signal_intr_handler sg s)"
  "zr_is_online (signal_intr_handler sg s) = zr_is_online s"
  by (simp_all add: signal_intr_handler_def)

lemma quiet_zr:
  assumes "minv m" "stop (m_srv m) \<longrightarrow> stop (m_srv m')" "zr_pkt (m_srv m') = zr_pkt (m_srv m)" "m_zr m' = m_zr m"
  shows "m_zr m' = Z_sleeping \<longrightarrow> zr_pkt (m_srv m') \<noteq> None"
    "m_zr m' = Z_looping \<longrightarrow> zr_pkt (m_srv m') \<noteq> None \<or> stop (m_srv m')"
  using assms by (auto simp: minv_def buffers_inv_def)

lemma signal_minv:
  assumes inv: "minv m"
  shows "minv (m\<lparr>m_srv := signal_intr_handler sg (m_srv m)\<rparr>)"
proof -
  let ?m = "m\<lparr>m_srv := signal_intr_handler sg (m_srv m)\<rparr>"
  have "quiet m ?m" using inv by (simp add: quiet_def minv_def)
  then show ?thesis by (rule quiet_minv [OF inv]) (use quiet_zr [OF inv, of ?m] in simp_all)
qed

lemma kill_quiet:
  "quiet m (m\<lparr>m_srv := pthread_kill K (m_srv m)\<rparr>) = srv_inv (m_srv m)"
  "zr_pkt (pthread_kill K s) = zr_pkt s" "stop s \<Longrightarrow> stop (pthread_kill K s)"
  by (simp_all add: quiet_def pthread_kill_def sys_call_def)

lemma quiet_trans: "quiet m m1 \<Longrightarrow> quiet m1 m2 \<Longrightarrow> quiet m m2"
  by (auto simp: quiet_def)

lemma kills_quiet:
  "srv_inv (m_srv m) \<Longrightarrow> (let s' = fold (\<lambda>x s. if th_is_online x then pthread_kill K s else s) xs (m_srv m) in
     quiet m (m\<lparr>m_srv := s'\<rparr>) \<and> zr_pkt s' = zr_pkt (m_srv m))"
proof (induction xs arbitrary: m)
  case Nil
  then show ?case by (simp add: quiet_def)
next
  case (Cons x xs)
  define m1 where "m1 = (if th_is_online x then m\<lparr>m_srv := pthread_kill K (m_srv m)\<rparr> else m)"
  have q: "quiet m m1" using Cons.prems kill_quiet(1) by (auto simp: m1_def quiet_def)
  have z: "zr_pkt (m_srv m1) = zr_pkt (m_srv m)" by (simp add: m1_def kill_quiet(2))
  have "srv_inv (m_srv m1)" using q by (simp add: quiet_def)
  from Cons.IH [OF this] q z show ?case
    by (auto simp: m1_def Let_def split: if_splits elim: quiet_trans)
qed

text \<open>The main thread moves on into \<open>destroy_epoll\<close> or within it.\<close>

lemma shutdown_minv:
  assumes inv: "minv m" and q: "quiet m m'" and zr: "zr_pkt (m_srv m') = zr_pkt (m_srv m)" "m_zr m' \<in> {m_zr m, Z_spawned}"
    and o: "m_pc m ! 0 = Unspawned \<or> exited (m_pc m ! 0)" "\<forall>r. m_main m \<noteq> M_end r"
    and n: "\<not> running (m_main m')" "\<forall>r. m_main m' \<noteq> M_end r"
    and d: "\<forall>r. m_main m' = M_destroy True r \<longrightarrow> n_on_threads (m_srv m) = 0"
  shows "minv m'"
proof -
  have mn: "m_main m' \<noteq> M_zr" "m_main m' \<noteq> M_reset" "\<And>i. m_main m' \<noteq> M_spawn i" using n(1) by auto
  have "spawn_inv m'" using inv q o(1) mn by (simp add: minv_def quiet_def spawn_inv_def)
  moreover have "count_inv m'" "release_inv m'"
    using inv q by (auto simp: minv_def quiet_def count_inv_def release_inv_def)
  moreover have b: "buffers_inv m" using inv by (simp add: minv_def)
  then have bm: "(\<forall>t < length (m_pc m). m_pc m ! t = Unspawned) \<or> length (epl_threads (m_srv m)) = length (m_pc m)
      \<and> (\<forall>x \<in> set (epl_threads (m_srv m)). th_pkt x \<noteq> None)"
    using o(2) unfolding buffers_inv_def by blast
  have "buffers_inv m'"
  proof (cases "m_zr m' = m_zr m")
    case True
    then show ?thesis using b bm q zr(1) n(1) by (auto simp: buffers_inv_def quiet_def)
  next
    case False
    then have "m_zr m' = Z_spawned" using zr(2) by simp
    then show ?thesis using bm q n(1) by (auto simp: buffers_inv_def quiet_def)
  qed
  moreover have "end_inv m'"
  proof -
    have "\<forall>p \<in> set (m_pc m). exited p" if "m_main m' = M_destroy True r" "m_rel m" for r
    proof -
      have "length (filter counted (m_pc m)) = 0" using d that(1) inv by (simp add: minv_def count_inv_def)
      then have "\<forall>p \<in> set (m_pc m). \<not> counted p" by (simp add: filter_empty_conv)
      then show ?thesis using that(2) inv by (auto simp: minv_def release_inv_def)
    qed
    then show ?thesis using q n by (auto simp: end_inv_def quiet_def)
  qed
  ultimately show ?thesis using q by (simp add: minv_def quiet_def)
qed

lemma wait_zr_minv:
  assumes inv: "minv m" and w: "wait_for_zr_thread_to_exit K m = Some m'"
  shows "minv m'"
proof -
  have si: "srv_inv (m_srv m)" using inv by (simp add: minv_def)
  have q: "quiet m m' \<and> zr_pkt (m_srv m') = zr_pkt (m_srv m) \<and> m_zr m' = m_zr m"
    using w si kill_quiet(1) [of m K] by (auto simp: wait_for_zr_thread_to_exit_def Let_def quiet_def kill_quiet(2) split: main_pc.splits if_splits)
  have m: "\<not> running (m_main m)" "\<forall>r. m_main m \<noteq> M_end r" "\<not> running (m_main m')" "\<forall>r. m_main m' \<noteq> M_end r"
      "\<forall>r. m_main m' \<noteq> M_destroy True r"
    using w by (auto simp: wait_for_zr_thread_to_exit_def Let_def split: main_pc.splits if_splits)
  have o: "m_pc m ! 0 = Unspawned \<or> exited (m_pc m ! 0)" using inv m(1) by (simp add: minv_def spawn_inv_def)
  show ?thesis by (rule shutdown_minv [OF inv]) (use q m o in simp_all)
qed

lemma wait_tun_minv:
  assumes inv: "minv m" and w: "wait_for_tun_wrk_threads_to_exit K m = Some m'"
  shows "minv m'"
proof -
  have si: "srv_inv (m_srv m)" using inv by (simp add: minv_def)
  have q: "quiet m m' \<and> zr_pkt (m_srv m') = zr_pkt (m_srv m) \<and> m_zr m' = m_zr m"
    using w si kills_quiet [of m K "epl_threads (m_srv m)"]
    by (auto simp: wait_for_tun_wrk_threads_to_exit_def Let_def quiet_def split: main_pc.splits if_splits)
  have m: "\<not> running (m_main m)" "\<forall>r. m_main m \<noteq> M_end r" "\<not> running (m_main m')" "\<forall>r. m_main m' \<noteq> M_end r"
      "\<forall>r. m_main m' = M_destroy True r \<longrightarrow> n_on_threads (m_srv m) = 0"
    using w by (auto simp: wait_for_tun_wrk_threads_to_exit_def Let_def word_gt_0 split: main_pc.splits if_splits)
  have o: "m_pc m ! 0 = Unspawned \<or> exited (m_pc m ! 0)" using inv m(1) by (simp add: minv_def spawn_inv_def)
  show ?thesis by (rule shutdown_minv [OF inv]) (use q m o in simp_all)
qed

lemma close_epoll_fds_fields:
  "srv_inv (close_epoll_fds s) = srv_inv s" "cfg (close_epoll_fds s) = cfg s" "stop (close_epoll_fds s) = stop s"
  "n_on_threads (close_epoll_fds s) = n_on_threads s" "zr_pkt (close_epoll_fds s) = zr_pkt s"
  "threads_wont_exit (close_epoll_fds s) = threads_wont_exit s"
  "epl_threads (close_epoll_fds s) = epl_threads s" "sess_arr (close_epoll_fds s) = sess_arr s"
proof -
  define f :: "epl_thread \<Rightarrow> srv_udp_state \<Rightarrow> srv_udp_state"
    where "f = (\<lambda>x s. if epoll_fd x = -1 then s else close_fd (epoll_fd x) s)"
  have "(srv_inv (fold f xs s) = srv_inv s) \<and> cfg (fold f xs s) = cfg s \<and> stop (fold f xs s) = stop s
    \<and> n_on_threads (fold f xs s) = n_on_threads s \<and> zr_pkt (fold f xs s) = zr_pkt s
    \<and> threads_wont_exit (fold f xs s) = threads_wont_exit s
    \<and> epl_threads (fold f xs s) = epl_threads s \<and> sess_arr (fold f xs s) = sess_arr s" for xs
    by (induction xs arbitrary: s) (simp_all add: f_def close_fd_def)
  from this [of "epl_threads s"]
  show "srv_inv (close_epoll_fds s) = srv_inv s" "cfg (close_epoll_fds s) = cfg s" "stop (close_epoll_fds s) = stop s"
    "n_on_threads (close_epoll_fds s) = n_on_threads s" "zr_pkt (close_epoll_fds s) = zr_pkt s"
    "threads_wont_exit (close_epoll_fds s) = threads_wont_exit s"
    "epl_threads (close_epoll_fds s) = epl_threads s" "sess_arr (close_epoll_fds s) = sess_arr s"
    by (simp_all add: close_epoll_fds_def f_def)
qed

lemma close_sess_loop_frame:
  assumes "srv_inv s" "set is \<subseteq> {0..<length (sess_arr s)}" "close_sess_loop K is s = Some s'"
  shows "cfg s' = cfg s \<and> (stop s \<longrightarrow> stop s') \<and> n_on_threads s' = n_on_threads s
    \<and> (zr_pkt s' = None \<longleftrightarrow> zr_pkt s = None) \<and> threads_wont_exit s' = threads_wont_exit s"
  using assms
proof (induction "is" arbitrary: s)
  case (Cons i "is")
  show ?case
  proof (cases "is_connected (sess_arr s ! i)")
    case False
    then show ?thesis using Cons by auto
  next
    case True
    then have i: "i \<in> conn s" using Cons.prems(2) by (auto simp: conn_def)
    obtain pkt r pkt' s1 where c: "close_udp_session K i pkt s = Some (r, pkt', s1)"
      and l: "close_sess_loop K is (upd_thread 0 (\<lambda>x. x\<lparr>th_pkt := Some pkt'\<rparr>) s1) = Some s'"
      using Cons.prems(3) True by (auto simp: bind_eq_Some_conv)
    have "srv_inv s1" "handled (to_peer (addr (sess_arr s ! i))) s s1"
      using close_spec [OF Cons.prems(1) i c] by (auto simp: step_ok_def)
    then show ?thesis using Cons.IH [OF _ _ l] Cons.prems(2) by (auto simp: handled_def)
  qed
qed simp

lemma close_client_sess_frame:
  assumes "srv_inv s" "close_client_sess K s = Some s'"
  shows "threads_wont_exit s' = threads_wont_exit s"
proof (cases "sess_arr s = []")
  case False
  have "unat (max_conn (cfg_sock (cfg s))) = length (sess_arr s)"
    using assms(1) by (simp add: srv_inv_def sess_inv_def slots_ok_def)
  then show ?thesis
    using close_sess_loop_frame [OF assms(1), of "[0..<length (sess_arr s)]" K s'] assms(2) False
    by (simp add: close_client_sess_def)
qed (use assms in \<open>simp add: close_client_sess_def\<close>)

lemma finish_minv:
  assumes inv: "minv m" and f: "finish_epoll K m = Some m'"
  shows "minv m'"
proof -
  obtain ex r s' where main: "m_main m = M_destroy ex r" and d: "destroy_epoll K ex (m_srv m) = Some s'"
      and m': "m' = m\<lparr>m_srv := s', m_main := M_end r\<rparr>"
    using f by (auto simp: finish_epoll_def bind_eq_Some_conv split: main_pc.splits)
  have si: "srv_inv (m_srv m)" using inv by (simp add: minv_def)
  have s': "srv_inv s' \<and> cfg s' = cfg (m_srv m) \<and> n_on_threads s' = n_on_threads (m_srv m)
      \<and> (stop (m_srv m) \<longrightarrow> stop s') \<and> (zr_pkt s' = None \<longleftrightarrow> zr_pkt (m_srv m) = None)
      \<and> (ex \<longrightarrow> conn s' = {}) \<and> (\<not> ex \<longrightarrow> threads_wont_exit s')"
  proof (cases ex)
    case False
    then show ?thesis using d si by (auto simp: destroy_epoll_def)
  next
    case True
    define s1 where "s1 = close_epoll_fds (m_srv m)"
    obtain s2 where s2: "close_client_sess K s1 = Some s2" "s' = (free_pkt_buffer s2)\<lparr>epl_threads := []\<rparr>"
      using d True by (auto simp: destroy_epoll_def s1_def bind_eq_Some_conv)
    have i1: "srv_inv s1" using si by (simp add: s1_def close_epoll_fds_fields)
    have c: "srv_inv s2 \<and> conn s2 = {}" by (rule close_client_sess_spec [OF i1 s2(1)])
    have "cfg s2 = cfg s1 \<and> (stop s1 \<longrightarrow> stop s2) \<and> n_on_threads s2 = n_on_threads s1
      \<and> (zr_pkt s2 = None \<longleftrightarrow> zr_pkt s1 = None)"
    proof (cases "sess_arr s1 = []")
      case False
      then show ?thesis using s2(1) i1 close_sess_loop_frame [OF i1, of "[0..<length (sess_arr s1)]" K s2]
        by (auto simp: close_client_sess_def srv_inv_def sess_inv_def slots_ok_def)
    qed (use s2(1) in \<open>simp add: close_client_sess_def\<close>)
    then show ?thesis using c True s2(2) by (simp add: free_pkt_buffer_def s1_def close_epoll_fds_fields)
  qed
  have "spawn_inv m'" "count_inv m'" "release_inv m'"
    using inv s' main by (auto simp: m' minv_def spawn_inv_def count_inv_def release_inv_def)
  moreover have "buffers_inv m'" using inv s' unfolding minv_def buffers_inv_def by (auto simp: m')
  moreover have "end_inv m'"
    using inv s' main by (cases ex) (auto simp: m' minv_def end_inv_def)
  ultimately show ?thesis using s' by (simp add: minv_def m')
qed

lemma spawn_thread_fields:
  assumes "spawn_thread K s = (ret, created, s')"
  shows "\<exists>k. s' = s\<lparr>tick := k\<rparr>" "\<not> created \<longrightarrow> ret \<noteq> 0"
  using assms by (auto simp: spawn_thread_def sys_call_def split: if_splits)

text \<open>A worker comes into being.\<close>

lemma spawned_minv:
  assumes inv: "minv m" and u: "u < length (m_pc m)" "m_pc m ! u = Unspawned" and run: "running (m_main m)"
    and s: "m_srv m' = (m_srv m)\<lparr>tick := k\<rparr>" "m_rel m' = m_rel m" "m_zr m' = m_zr m" "m_pc m' = (m_pc m)[u := Spawned]"
    and sp: "spawn_inv m'" and main: "\<forall>r. m_main m' \<noteq> M_end r" "\<forall>b r. m_main m' \<noteq> M_destroy b r"
  shows "minv m'"
proof -
  have mem: "Unspawned \<in> set (m_pc m)" using u by (metis nth_mem)
  then have nr: "\<not> m_rel m" using inv by (auto simp: minv_def release_inv_def)
  have "count_inv m'"
    using inv count_update [OF u(1), of counted Spawned] u s by (simp add: minv_def count_inv_def)
  moreover have "Looping \<in> set (m_pc m') \<Longrightarrow> Looping \<in> set (m_pc m)"
    using s(4) set_update_subset_insert [of "m_pc m" u Spawned] by auto
  then have "release_inv m'" using inv nr s by (auto simp: minv_def release_inv_def)
  moreover have "buffers_inv m'" using inv s run main by (auto simp: minv_def buffers_inv_def)
  moreover have "end_inv m'" using main by (simp add: end_inv_def)
  ultimately show ?thesis using inv sp s by (simp add: minv_def)
qed

lemma run_event_loop_minv:
  assumes inv: "minv m" and r: "run_event_loop K m = Some m'"
  shows "minv m'"
proof (cases "m_main m")
  case M_zr
  obtain ret created s1 where sp: "spawn_thread K (m_srv m) = (ret, created, s1)" by (metis prod.exhaust)
  have m': "m' = m\<lparr>m_srv := s1, m_zr := (if created then Z_spawned else m_zr m),
      m_main := (if ret \<noteq> 0 then M_zr_check ret else M_reset)\<rparr>"
    using r M_zr sp by (simp add: run_event_loop_def spawn_zombie_reaper_thread_def Let_def)
  obtain k where k: "s1 = (m_srv m)\<lparr>tick := k\<rparr>" using spawn_thread_fields [OF sp] by blast
  have q: "quiet m m'" using inv by (simp add: quiet_def m' k minv_def)
  have un: "\<forall>p \<in> set (m_pc m). p = Unspawned" "0 < length (m_pc m)" using inv M_zr by (auto simp: minv_def spawn_inv_def)
  show ?thesis
  proof (cases "ret = 0")
    case False
    then show ?thesis using un by (intro shutdown_minv [OF inv q]) (auto simp: m' k M_zr)
  next
    case True
    have "spawn_inv m'" "count_inv m'" "release_inv m'" "end_inv m'"
      using inv un True by (auto simp: minv_def m' k spawn_inv_def count_inv_def release_inv_def end_inv_def)
    moreover have "buffers_inv m'"
      using inv M_zr True unfolding minv_def buffers_inv_def by (auto simp: m' k)
    ultimately show ?thesis using q by (simp add: minv_def quiet_def)
  qed
next
  case M_reset
  have m': "m' = m\<lparr>m_srv := (m_srv m)\<lparr>n_on_threads := 0\<rparr>, m_main := M_spawn 1\<rparr>"
    using r M_reset by (simp add: run_event_loop_def Let_def)
  have un: "\<forall>p \<in> set (m_pc m). p = Unspawned" using inv M_reset by (auto simp: minv_def spawn_inv_def)
  have "spawn_inv m'" using inv un by (auto simp: minv_def m' spawn_inv_def)
  moreover have "filter counted (m_pc m) = []" using un by (auto simp: filter_empty_conv)
  then have "count_inv m'" by (simp add: count_inv_def m')
  moreover have "buffers_inv m'" using inv M_reset unfolding minv_def buffers_inv_def by (auto simp: m')
  ultimately show ?thesis using inv by (simp add: minv_def m' release_inv_def end_inv_def)
next
  case (M_spawn i)
  have si: "spawn_inv m" using inv by (simp add: minv_def)
  show ?thesis
  proof (cases "i < n_threads m")
    case False
    have m': "m' = set_pc 0 Spawned (m\<lparr>m_main := M_run\<rparr>)"
      using r M_spawn False by (simp add: run_event_loop_def Let_def)
    show ?thesis
      by (rule spawned_minv [OF inv, of 0 m' "tick (m_srv m)"])
        (use si M_spawn in \<open>auto simp: spawn_inv_def m'\<close>)
  next
    case True
    obtain ret created s1 where sp: "spawn_thread K (m_srv m) = (ret, created, s1)" by (metis prod.exhaust)
    obtain k where k: "s1 = (m_srv m)\<lparr>tick := k\<rparr>" "\<not> created \<longrightarrow> ret \<noteq> 0" using spawn_thread_fields [OF sp] by blast
    have m': "m' = (if created then set_pc i Spawned m else m)
        \<lparr>m_srv := s1, m_main := (if ret \<noteq> 0 then M_zr_check ret else M_spawn (i + 1))\<rparr>"
      using r M_spawn True sp by (simp add: run_event_loop_def spawn_tun_worker_thread_def Let_def)
    have i: "m_pc m ! i = Unspawned" "m_pc m ! 0 = Unspawned" "1 \<le> i" "i < length (m_pc m)"
      using si M_spawn True by (auto simp: spawn_inv_def)
    show ?thesis
    proof (cases created)
      case True
      have "spawn_inv m'" using si M_spawn i by (auto simp: spawn_inv_def m' k True nth_list_update)
      then show ?thesis
        by (intro spawned_minv [OF inv i(4,1), of m' k]) (auto simp: m' True k M_spawn)
    next
      case False
      have "quiet m m'" using inv by (simp add: quiet_def m' k False minv_def)
      then show ?thesis
        by (rule shutdown_minv [OF inv]) (use k False i M_spawn in \<open>auto simp: m'\<close>)
    qed
  qed
next
  case M_run
  obtain c where c: "m_pc m ! 0 = Exited c" and m': "m' = m\<lparr>m_main := M_zr_check c\<rparr>"
    using r M_run by (auto simp: run_event_loop_def Let_def split: thread_pc.splits)
  have "quiet m m'" using inv by (simp add: quiet_def m' minv_def)
  then show ?thesis by (rule shutdown_minv [OF inv]) (use c M_run in \<open>auto simp: m'\<close>)
qed (use r in \<open>simp_all add: run_event_loop_def Let_def\<close>)

section \<open>Reachable states\<close>

lemma mstep_minv:
  assumes K: "sendto_errno K" and inv: "minv m" and st: "mstep K m m'"
  shows "minv m'"
  using st
proof cases
  case (worker t)
  have "srv_inv (m_srv m)" using inv by (simp add: minv_def)
  then obtain p' where "worker_ok t p' m m'" using worker_step [OF K _ worker(2)] by blast
  then show ?thesis by (rule worker_minv [OF inv worker(1)])
next
  case reaper
  then show ?thesis by (rule reaper_minv [OF inv])
next
  case main_run
  then show ?thesis by (rule run_event_loop_minv [OF inv])
next
  case main_zr
  then show ?thesis by (rule wait_zr_minv [OF inv])
next
  case main_tun
  then show ?thesis by (rule wait_tun_minv [OF inv])
next
  case main_end
  then show ?thesis by (rule finish_minv [OF inv])
next
  case (signal sg)
  then show ?thesis using signal_minv [OF inv] by simp
qed

lemma start_minv:
  assumes inv: "srv_inv s" and n: "n_on_threads s = 0" and t: "teavpn2_udp_server_epoll K s = Some m"
  shows "minv m"
proof -
  obtain ret s1 where i: "init_epoll_thread_array K s = Some (ret, s1)"
      and m: "m = (if ret \<noteq> 0 then (start_machine s1)\<lparr>m_srv := s1, m_main := M_zr_check ret\<rparr> else start_machine s1)"
    using t by (auto simp: teavpn2_udp_server_epoll_def bind_eq_Some_conv)
  have th: "threads_only s s1" "1 \<le> unat (thread_num (cfg_sys (cfg s)))" using init_array_threads [OF i] by simp_all
  have s1: "srv_inv s1" "n_on_threads s1 = 0" "cfg s1 = cfg s"
    using threads_only_inv [OF th(1)] threads_only_fields(3) [OF th(1)] inv n by simp_all
  have "spawn_inv m" "count_inv m" "release_inv m" "end_inv m" "srv_inv (m_srv m)"
    using s1 th(2) by (auto simp: m start_machine_def spawn_inv_def count_inv_def release_inv_def end_inv_def)
  moreover have "buffers_inv m"
  proof (cases "ret = 0")
    case False
    then show ?thesis by (simp add: m start_machine_def buffers_inv_def)
  next
    case True
    have "length (epl_threads s1) = unat (thread_num (cfg_sys (cfg s)))"
        "\<forall>t < length (epl_threads s1). th_pkt (epl_threads s1 ! t) \<noteq> None"
      using init_array_ok [of K s s1 "unat (thread_num (cfg_sys (cfg s)))"] i True by (auto simp: thread_ready_def)
    then show ?thesis using True s1(3) by (auto simp: m start_machine_def buffers_inv_def in_set_conv_nth)
  qed
  ultimately show ?thesis by (simp add: minv_def)
qed

lemma mreach_minv:
  "mreach K s m \<Longrightarrow> sendto_errno K \<Longrightarrow> srv_inv s \<Longrightarrow> n_on_threads s = 0 \<Longrightarrow> minv m"
proof (induction rule: mreach.induct)
  case (start m)
  then show ?case by (intro start_minv)
next
  case (step m m')
  then show ?case using mstep_minv by blast
qed

section \<open>A run of a server with one thread\<close>

definition one_thread :: srv_udp_state where
  "one_thread = (fresh_table 2)\<lparr>tun_fds := [4],
     cfg := (cfg (fresh_table 2))\<lparr>cfg_sys := (cfg_sys (cfg (fresh_table 2)))\<lparr>thread_num := 1\<rparr>\<rparr>\<rparr>"

lemma upd_thread_sig [simp]: "sig (upd_thread t f s) = sig s"
  by (simp add: upd_thread_def)

text \<open>The main thread is the only worker and is at \<open>p\<close>; the reaper has not come online.\<close>

definition one_at :: "thread_pc \<Rightarrow> bool \<Rightarrow> u16 \<Rightarrow> bool \<Rightarrow> main_pc \<Rightarrow> machine \<Rightarrow> bool" where
  "one_at p rel n b main m \<longleftrightarrow> mreach silent_kernel one_thread m \<and> m_pc m = [p] \<and> m_rel m = rel \<and> m_main m = main
     \<and> n_on_threads (m_srv m) = n \<and> stop (m_srv m) = b \<and> sig (m_srv m) = (if b then SIGTERM else -1)
     \<and> \<not> zr_is_online (m_srv m)
     \<and> thread_num (cfg_sys (cfg (m_srv m))) = 1 \<and> map th_idx (epl_threads (m_srv m)) = [0]
     \<and> \<not> threads_wont_exit (m_srv m)"

lemma one_threadI:
  assumes "one_at p rel n b main m" and "mstep silent_kernel m m'"
    and "mreach silent_kernel one_thread m' \<Longrightarrow> one_at p' rel' n' b' main' m'"
  shows "\<exists>m'. one_at p' rel' n' b' main' m'"
  using assms mreach.step by (metis one_at_def)

lemma one_thread_init:
  "\<exists>s'. init_epoll_thread_array silent_kernel one_thread = Some (0, s')"
  by (rule quiet_init) (simp_all add: one_thread_def silent_kernel_def)

lemma one_thread_inv: "srv_inv one_thread" "n_on_threads one_thread = 0"
  unfolding one_thread_def by (rule recfg_inv [OF fresh_srv_inv], simp add: fresh_table_def)

lemma silent_spawn: "spawn_thread silent_kernel s = (0, True, s\<lparr>tick := tick s + 1 + 1\<rparr>)"
  by (simp add: spawn_thread_def sys_call_def silent_kernel_def)

lemmas one_defs = one_at_def run_event_loop_def spawn_zombie_reaper_thread_def silent_spawn Let_def
  server_udp_epoll_run_event_loop_def thread_wait_def wait_for_zr_thread_to_exit_def wait_for_tun_wrk_threads_to_exit_def

lemma one_start: "\<exists>m. one_at Unspawned False 0 False M_zr m"
proof -
  obtain s' where s': "init_epoll_thread_array silent_kernel one_thread = Some (0, s')" using one_thread_init by blast
  have "mreach silent_kernel one_thread (start_machine s')"
    by (rule mreach.start) (simp add: teavpn2_udp_server_epoll_def s')
  moreover have t: "threads_only one_thread s'" and rd: "length (epl_threads s') = 1"
      "thread_ready one_thread 1 0 (epl_threads s' ! 0)"
    using init_array_threads [OF s'] init_array_ok [OF s', of 1] by (simp_all add: one_thread_def)
  have e: "one_thread = s'\<lparr>epl_threads := epl_threads one_thread, tick := tick one_thread\<rparr>"
    using t by (simp add: threads_only_def)
  have "sig s' = -1" "\<not> zr_is_online s'" "\<not> threads_wont_exit s'" "n_on_threads s' = 0"
      "thread_num (cfg_sys (cfg s')) = 1"
  proof -
    have o: "sig one_thread = -1" "\<not> zr_is_online one_thread" "\<not> threads_wont_exit one_thread"
        "n_on_threads one_thread = 0" "thread_num (cfg_sys (cfg one_thread)) = 1"
      by (simp_all add: one_thread_def) (simp_all add: fresh_table_def)
    have "sig s' = sig one_thread" "zr_is_online s' = zr_is_online one_thread"
        "threads_wont_exit s' = threads_wont_exit one_thread" "n_on_threads s' = n_on_threads one_thread"
        "cfg s' = cfg one_thread" by (subst e, simp)+
    with o show "sig s' = -1" "\<not> zr_is_online s'" "\<not> threads_wont_exit s'" "n_on_threads s' = 0"
        "thread_num (cfg_sys (cfg s')) = 1" by simp_all
  qed
  moreover have "map th_idx (epl_threads s') = [0]"
    using rd by (cases "epl_threads s'") (auto simp: thread_ready_def)
  ultimately show ?thesis by (auto simp: one_at_def start_machine_def)
qed

lemma one_released: "\<exists>m. one_at Looping True 1 False M_run m"
proof -
  obtain m0 where m: "one_at Unspawned False 0 False M_zr m0" using one_start by blast
  have "\<exists>m. one_at Unspawned False 0 False M_reset m"
    by (rule one_threadI [OF m mstep.main_run]) (use m in \<open>auto simp: one_defs\<close>)
  then obtain m1 where m: "one_at Unspawned False 0 False M_reset m1" by blast
  have "\<exists>m. one_at Unspawned False 0 False (M_spawn 1) m"
    by (rule one_threadI [OF m mstep.main_run]) (use m in \<open>auto simp: one_defs\<close>)
  then obtain m2 where m: "one_at Unspawned False 0 False (M_spawn 1) m2" by blast
  have "\<exists>m. one_at Spawned False 0 False M_run m"
    by (rule one_threadI [OF m mstep.main_run]) (use m in \<open>auto simp: one_defs\<close>)
  then obtain m3 where m: "one_at Spawned False 0 False M_run m3" by blast
  have "\<exists>m. one_at Marked False 0 False M_run m"
    by (rule one_threadI [OF m mstep.worker [of 0]]) (use m in \<open>auto simp: one_defs map_update\<close>)
  then obtain m4 where m: "one_at Marked False 0 False M_run m4" by blast
  have "\<exists>m. one_at Waiting False 1 False M_run m"
    by (rule one_threadI [OF m mstep.worker [of 0]]) (use m in \<open>auto simp: one_defs\<close>)
  then obtain m5 where m: "one_at Waiting False 1 False M_run m5" by blast
  show ?thesis
    by (rule one_threadI [OF m mstep.worker [of 0 m5 silent_kernel "m5\<lparr>m_rel := True, m_pc := [Looping]\<rparr>"]])
      (use m in \<open>auto simp: one_defs\<close>)
qed

lemma one_ended:
  "\<exists>m. mreach silent_kernel one_thread m \<and> m_main m = M_end 0 \<and> m_rel m \<and> \<not> threads_wont_exit (m_srv m)"
proof -
  obtain m6 where m: "one_at Looping True 1 False M_run m6" using one_released by blast
  have "\<exists>m. one_at Looping True 1 True M_run m"
    by (rule one_threadI [OF m mstep.signal [of _ _ SIGTERM]])
      (use m in \<open>auto simp: one_at_def signal_intr_handler_def\<close>)
  then obtain m7 where m: "one_at Looping True 1 True M_run m7" by blast
  have "\<exists>m. one_at (Leaving 0) True 1 True M_run m"
    by (rule one_threadI [OF m mstep.worker [of 0]]) (use m in \<open>auto simp: one_defs\<close>)
  then obtain m8 where m: "one_at (Leaving 0) True 1 True M_run m8" by blast
  have "\<exists>m. one_at (Unmarked 0) True 1 True M_run m"
    by (rule one_threadI [OF m mstep.worker [of 0]]) (use m in \<open>auto simp: one_defs\<close>)
  then obtain m9 where m: "one_at (Unmarked 0) True 1 True M_run m9" by blast
  have "\<exists>m. one_at (Exited 0) True 0 True M_run m"
    by (rule one_threadI [OF m mstep.worker [of 0]]) (use m in \<open>auto simp: one_defs\<close>)
  then obtain m10 where m: "one_at (Exited 0) True 0 True M_run m10" by blast
  have "\<exists>m. one_at (Exited 0) True 0 True (M_zr_check 0) m"
    by (rule one_threadI [OF m mstep.main_run]) (use m in \<open>auto simp: one_defs\<close>)
  then obtain m11 where m: "one_at (Exited 0) True 0 True (M_zr_check 0) m11" by blast
  have "\<exists>m. one_at (Exited 0) True 0 True (M_tun_check 0) m"
    by (rule one_threadI [OF m mstep.main_zr]) (use m in \<open>auto simp: one_defs\<close>)
  then obtain m12 where m: "one_at (Exited 0) True 0 True (M_tun_check 0) m12" by blast
  have "\<exists>m. one_at (Exited 0) True 0 True (M_destroy True 0) m"
    by (rule one_threadI [OF m mstep.main_tun]) (use m in \<open>auto simp: one_defs\<close>)
  then obtain m13 where m: "one_at (Exited 0) True 0 True (M_destroy True 0) m13" by blast
  have K: "sendto_errno silent_kernel" "prompt silent_kernel" by (simp_all add: sendto_errno_def prompt_def silent_kernel_def)
  have inv: "minv m13" using m mreach_minv [OF _ K(1) one_thread_inv] by (simp add: one_at_def)
  define s1 where "s1 = close_epoll_fds (m_srv m13)"
  have i1: "srv_inv s1" using inv by (simp add: minv_def s1_def close_epoll_fds_fields)
  have th: "epl_threads (m_srv m13) \<noteq> []" using m by (auto simp: one_at_def)
  then have "th_pkt (epl_threads (m_srv m13) ! 0) \<noteq> None"
    using inv m by (auto simp: minv_def buffers_inv_def one_at_def)
  then have "yields (close_client_sess silent_kernel s1)"
    using close_sess_loop_yields [OF K(2) _ _ _ i1, of "[0..<unat (max_conn (cfg_sock (cfg s1)))]"] th i1
    by (simp add: close_client_sess_def s1_def close_epoll_fds_fields yields_Some srv_inv_def sess_inv_def slots_ok_def)
  then obtain s2 where s2: "close_client_sess silent_kernel s1 = Some s2" by (auto simp: yields_def)
  have "threads_wont_exit s2 = threads_wont_exit s1"
    by (rule close_client_sess_frame [OF i1 s2])
  then have "\<not> threads_wont_exit s2" using m by (simp add: s1_def close_epoll_fds_fields one_at_def)
  moreover have f: "finish_epoll silent_kernel m13 = Some (m13\<lparr>m_srv := (free_pkt_buffer s2)\<lparr>epl_threads := []\<rparr>, m_main := M_end 0\<rparr>)"
    using m s2 by (simp add: finish_epoll_def one_at_def destroy_epoll_def s1_def)
  then have "mreach silent_kernel one_thread (m13\<lparr>m_srv := (free_pkt_buffer s2)\<lparr>epl_threads := []\<rparr>, m_main := M_end 0\<rparr>)"
    using m mreach.step mstep.main_end unfolding one_at_def by blast
  ultimately show ?thesis using m unfolding one_at_def
    by (intro exI [of _ "m13\<lparr>m_srv := (free_pkt_buffer s2)\<lparr>epl_threads := []\<rparr>, m_main := M_end 0\<rparr>"])
      (simp add: free_pkt_buffer_def)
qed

section \<open>Properties\<close>

text \<open>
  C10: the invariant survives concurrency.  In every state that the threads of a started server
  can reach, by any interleaving of worker rounds, reaper scans, signals and shut-down, the
  server invariant holds and the counter of online threads equals the number of threads
  between their increment and their decrement.
\<close>

theorem server_machine_invariant:
  assumes "sendto_errno K" and "srv_inv s" and "n_on_threads s = 0" and "mreach K s m"
  shows "srv_inv (m_srv m) \<and> unat (n_on_threads (m_srv m)) = length (filter counted (m_pc m))"
  using mreach_minv [OF assms(4,1,2,3)] by (simp add: minv_def count_inv_def)

text \<open>A started server with three threads.\<close>

lemma three_threads_start:
  "sendto_errno silent_kernel" "srv_inv three_threads" "n_on_threads three_threads = 0"
  "\<exists>m. mreach silent_kernel three_threads m \<and> m_main m = M_zr"
proof -
  show "sendto_errno silent_kernel" by (simp add: sendto_errno_def silent_kernel_def)
  have s: "srv_inv (fresh_table 2)" by (rule fresh_srv_inv)
  have c: "conn three_threads = conn (fresh_table 2)" by (simp add: conn_def three_threads_def)
  have "sess_inv three_threads = sess_inv (fresh_table 2)"
    by (rule same_table_inv) (simp add: same_table_def sess_key_def three_threads_def)
  then show "srv_inv three_threads"
    using s by (simp add: srv_inv_def auth_ok_def peer_ok_def route_ok_def c) (simp add: three_threads_def sess_key_def)
  show "n_on_threads three_threads = 0" by (simp add: three_threads_def fresh_table_def)
  obtain s' where "init_epoll_thread_array silent_kernel three_threads = Some (0, s')"
    using three_threads_init by blast
  then have "teavpn2_udp_server_epoll silent_kernel three_threads = Some (start_machine s')"
    by (simp add: teavpn2_udp_server_epoll_def)
  then have "mreach silent_kernel three_threads (start_machine s')" by (rule mreach.start)
  then show "\<exists>m. mreach silent_kernel three_threads m \<and> m_main m = M_zr" by (auto simp: start_machine_def)
qed

text \<open>Witness of C10.\<close>

theorem server_machine_invariant_witness:
  "\<exists>m. mreach silent_kernel three_threads m \<and> srv_inv (m_srv m)"
  using server_machine_invariant [OF three_threads_start(1-3)] three_threads_start(4) by blast

text \<open>
  C12: the start barrier.  While the server is not stopping, a thread handles events only after
  every thread has come online: in a reachable state with a thread in its loop and \<open>stop\<close> not
  set, all threads are counted or have already exited.
\<close>

theorem start_barrier:
  assumes "sendto_errno K" and "srv_inv s" and "n_on_threads s = 0" and "mreach K s m"
    and "t < length (m_pc m)" and "m_pc m ! t = Looping" and "\<not> stop (m_srv m)"
  shows "\<forall>p \<in> set (m_pc m). counted p \<or> exited p"
proof -
  have "Looping \<in> set (m_pc m)" using assms(5,6) by (metis nth_mem)
  then show ?thesis using mreach_minv [OF assms(4,1,2,3)] assms(7) by (simp add: minv_def release_inv_def)
qed

text \<open>Witness of C12: the only thread of a server reaches its loop.\<close>

theorem start_barrier_witness:
  "\<exists>m. mreach silent_kernel one_thread m \<and> m_pc m = [Looping] \<and> (\<forall>p \<in> set (m_pc m). counted p \<or> exited p)"
proof -
  obtain m where m: "one_at Looping True 1 False M_run m" using one_released by blast
  then have r: "mreach silent_kernel one_thread m" "0 < length (m_pc m)" "m_pc m ! 0 = Looping" "\<not> stop (m_srv m)"
    by (simp_all add: one_at_def)
  from start_barrier [OF three_threads_start(1) one_thread_inv r] m show ?thesis by (auto simp: one_at_def)
qed

text \<open>
  C11: clean shut-down.  If the workers were released and the main thread has left
  \<open>destroy_epoll\<close> without giving up on the threads, then every worker has exited before the
  memory was freed, and every client session is closed.
\<close>

theorem clean_shutdown:
  assumes "sendto_errno K" and "srv_inv s" and "n_on_threads s = 0" and "mreach K s m"
    and "m_main m = M_end r" and "m_rel m" and "\<not> threads_wont_exit (m_srv m)"
  shows "(\<forall>p \<in> set (m_pc m). exited p) \<and> conn (m_srv m) = {}"
  using mreach_minv [OF assms(4,1,2,3)] assms(5-) by (simp add: minv_def end_inv_def)

text \<open>Witness of C11: the server with one thread is started, released, terminated and shut down.\<close>

theorem clean_shutdown_witness:
  "\<exists>m. mreach silent_kernel one_thread m \<and> m_main m = M_end 0 \<and> (\<forall>p \<in> set (m_pc m). exited p)"
proof -
  obtain m where m: "mreach silent_kernel one_thread m" "m_main m = M_end 0" "m_rel m" "\<not> threads_wont_exit (m_srv m)"
    using one_ended by blast
  from clean_shutdown [OF three_threads_start(1) one_thread_inv m] m show ?thesis by blast
qed

text \<open>
  C13: rounds and scans end.  When every full descriptor is eventually accepted, failed or timed
  out, then in every state that whole rounds and scans can reach, until the buffers are freed, the
  next round of every worker that was created and has not exited returns when it runs on its own,
  and so does the next scan of the reaper: no retry loop runs for ever, no packet buffer is NULL
  when it is used, and nothing panics.  (Waiting for a lock that another thread holds is not part
  of a round that runs on its own; the locks are the subject of \<open>Srv_Locks\<close>.)
\<close>

theorem rounds_return:
  assumes "prompt K" and "sendto_errno K" and "srv_inv s" and "n_on_threads s = 0" and "mreach K s m"
    and "\<forall>r. m_main m \<noteq> M_end r"
  shows "(\<forall>t < length (m_pc m). m_pc m ! t \<noteq> Unspawned \<and> \<not> exited (m_pc m ! t) \<longrightarrow>
       (\<exists>m'. server_udp_epoll_run_event_loop K t m = Some m'))
    \<and> (m_zr m \<noteq> Z_unspawned \<and> m_zr m \<noteq> Z_exited \<longrightarrow> (\<exists>m'. run_zombie_reaper_thread K m = Some m'))"
proof -
  have inv: "minv m" by (rule mreach_minv [OF assms(5,2,3,4)])
  have si: "srv_inv (m_srv m)" using inv by (simp add: minv_def)
  have "\<exists>m'. server_udp_epoll_run_event_loop K t m = Some m'"
    if t: "t < length (m_pc m)" "m_pc m ! t \<noteq> Unspawned" "\<not> exited (m_pc m ! t)" for t
  proof (cases "m_pc m ! t = Looping \<and> \<not> stop (m_srv m)")
    case True
    have "length (epl_threads (m_srv m)) = length (m_pc m)" "\<forall>x \<in> set (epl_threads (m_srv m)). th_pkt x \<noteq> None"
      using inv assms(6) t unfolding minv_def buffers_inv_def by blast+
    then have "th_pkt (epl_threads (m_srv m) ! t) \<noteq> None" "t < length (epl_threads (m_srv m))" using t(1) by simp_all
    then have "yields (run_event_loop_once K t (m_srv m))"
      using handle_events_yields [OF assms(1,2), of "(m_srv m)\<lparr>tick := tick (m_srv m) + 1\<rparr>" t] si
      by (auto simp: run_event_loop_once_def do_epoll_wait_def Let_def yields_Some split: prod.split)
    then obtain r s' where "run_event_loop_once K t (m_srv m) = Some (r, s')" by (auto simp: yields_def)
    then show ?thesis using True by (simp add: server_udp_epoll_run_event_loop_def Let_def)
  next
    case False
    then show ?thesis using t(2,3)
      by (cases "m_pc m ! t") (auto simp: server_udp_epoll_run_event_loop_def Let_def split: prod.split)
  qed
  moreover have "\<exists>m'. run_zombie_reaper_thread K m = Some m'" if z: "m_zr m \<noteq> Z_unspawned" "m_zr m \<noteq> Z_exited"
  proof (cases "m_zr m = Z_sleeping")
    case True
    then have "zr_pkt (m_srv m) \<noteq> None" using inv by (simp add: minv_def buffers_inv_def)
    then have "yields (zombie_reaper_do_scan K (m_srv m))" using zombie_scan_yields [OF assms(1) si] by blast
    then obtain s' where "zombie_reaper_do_scan K (m_srv m) = Some s'" by (auto simp: yields_def)
    then show ?thesis using True by (simp add: run_zombie_reaper_thread_def Let_def)
  next
    case False
    then show ?thesis using z by (cases "m_zr m") (auto simp: run_zombie_reaper_thread_def Let_def)
  qed
  ultimately show ?thesis by blast
qed

text \<open>Witness of C13: the released server with one thread.\<close>

theorem rounds_return_witness:
  "\<exists>m m'. mreach silent_kernel one_thread m \<and> m_pc m = [Looping]
     \<and> server_udp_epoll_run_event_loop silent_kernel 0 m = Some m'"
proof -
  obtain m where m: "one_at Looping True 1 False M_run m" using one_released by blast
  then have r: "mreach silent_kernel one_thread m" "\<forall>r. m_main m \<noteq> M_end r" by (simp_all add: one_at_def)
  have p: "prompt silent_kernel" by (simp add: prompt_def silent_kernel_def)
  from rounds_return [OF p three_threads_start(1) one_thread_inv r] m show ?thesis
    by (auto simp: one_at_def)
qed

text \<open>
  A signal that arrives after the handler is installed and before the event loop starts is
  lost: the start clears \<open>stop\<close>, and because \<open>sig\<close> is already set, no later signal sets it
  again.
\<close>

theorem early_signal_lost:
  assumes "sig s = -1" and "sg \<noteq> -1"
  shows "\<not> stop (signal_intr_handler sg' (m_srv (start_machine (signal_intr_handler sg s))))"
  using assms by (simp add: signal_intr_handler_def start_machine_def)

end
