(* ===== verification/Iface.thy ===== *)
theory Iface
  imports Packet Kernel
begin

text \<open>
  The network interface functions, \<^verbatim>\<open>src/teavpn2/net/linux/iface.c\<close>: opening the TUN
  device and bringing the interface up and down with the \<^verbatim>\<open>ip\<close> command.  A C string is its
  list of characters.  A function that makes system calls takes the number of calls made so far
  and returns its result with the new number and the events it adds to the trace.
\<close>

section \<open>Strings\<close>

definition strtriml_move :: "string \<Rightarrow> string" where
  "strtriml_move str =
     (if str = [] then str
      else
        let s = dropWhile isspace str in
        if s = [] then [] else rev (dropWhile isspace (rev s)))"

definition strtrim_move :: "string \<Rightarrow> string" where
  "strtrim_move str = strtriml_move str"

definition sane_strncpy :: "string \<Rightarrow> nat \<Rightarrow> string" where
  "sane_strncpy src len = take (len - 1) src"

text \<open>The loop of \<open>escapeshellarg\<close>, and the function (outside of Windows).\<close>

definition quote_chr :: char where
  "quote_chr = CHR 0x27"

definition backslash_chr :: char where
  "backslash_chr = CHR 0x5C"

fun escape_loop :: "string \<Rightarrow> string" where
  "escape_loop [] = []"
| "escape_loop (c # str) =
     (if c = quote_chr then [quote_chr, backslash_chr, quote_chr] else []) @ c # escape_loop str"

definition escapeshellarg :: "string \<Rightarrow> string" where
  "escapeshellarg str = quote_chr # escape_loop str @ [quote_chr]"

definition simple_esc_arg :: "string \<Rightarrow> string" where
  "simple_esc_arg str = escapeshellarg str"

text \<open>\<open>snprintf\<close> into a buffer of \<open>n\<close> bytes.\<close>

definition snprintf :: "nat \<Rightarrow> string \<Rightarrow> string" where
  "snprintf n s = take (n - 1) s"

text \<open>Writing the string \<open>s\<close> and its final NUL to an array of \<open>n\<close> bytes.\<close>

definition overrun :: "string \<Rightarrow> nat \<Rightarrow> string \<Rightarrow> io list" where
  "overrun array n s = (if length s < n then [] else [Overrun array])"

text \<open>\<open>strstr\<close>: the text after the first occurrence of \<open>pat\<close>.\<close>

fun strstr_after :: "string \<Rightarrow> string \<Rightarrow> string option" where
  "strstr_after pat s =
     (if take (length pat) s = pat then Some (drop (length pat) s)
      else case s of [] \<Rightarrow> None | c # r \<Rightarrow> strstr_after pat r)"

declare strstr_after.simps [simp del]

section \<open>The TUN device\<close>

text \<open>
  \<open>dtf\<close> is the static variable with the path of the device: once the fallback was taken it
  stays.  The answers are those of \<open>open\<close> and \<open>ioctl\<close>.
\<close>

definition IFNAMSIZ :: nat where
  "IFNAMSIZ = 16"

text \<open>The sizes of the arrays for an address and for an escaped address.\<close>

definition IPV4_LI :: nat where
  "IPV4_LI = 17"

definition IPV4_ELI :: nat where
  "IPV4_ELI = 33"

definition tun_open :: "kernel \<Rightarrow> string \<Rightarrow> nat \<Rightarrow> int \<times> string \<times> nat" where
  "tun_open K dtf n =
     (let fd = k_sys K n in
      if fd < 0 then
        (if fd = - ENOENT then (k_sys K (n + 1), ''/dev/tun'', n + 2) else (fd, dtf, n + 1))
      else (fd, dtf, n + 1))"

definition tun_alloc :: "kernel \<Rightarrow> string \<Rightarrow> string \<Rightarrow> nat \<Rightarrow> int \<times> string \<times> nat \<times> io list" where
  "tun_alloc K dtf devname n =
     (if devname = [] then (- EINVAL, dtf, n, [])
      else case tun_open K dtf n of
        (fd, dtf', n1) \<Rightarrow>
          if fd < 0 then (fd, dtf', n1, [])
          else if k_sys K n1 < 0 then (k_sys K n1, dtf', n1 + 1, [Open fd, Close fd])
          else (fd, dtf', n1 + 1, [Open fd]))"

definition fd_set_nonblock :: "kernel \<Rightarrow> nat \<Rightarrow> int \<times> nat" where
  "fd_set_nonblock K n =
     (let flags = k_sys K n in
      if flags < 0 then (flags, n + 1)
      else (k_sys K (n + 1), n + 2))"

section \<open>Running commands\<close>

definition ip_bin :: "string list" where
  "ip_bin = [''/bin/ip'', ''/sbin/ip'', ''/usr/bin/ip'', ''/usr/sbin/ip'', ''/usr/local/bin/ip'',
     ''/usr/local/sbin/ip'', ''/data/data/com.termux/files/usr/bin/ip'']"

fun find_ip_loop :: "kernel \<Rightarrow> string list \<Rightarrow> nat \<Rightarrow> string option \<times> nat" where
  "find_ip_loop K [] n = (None, n)"
| "find_ip_loop K (p # ps) n = (if k_access K n p = 0 then (Some p, n + 1) else find_ip_loop K ps (n + 1))"

definition find_ip_cmd :: "kernel \<Rightarrow> nat \<Rightarrow> string option \<times> nat" where
  "find_ip_cmd K n = find_ip_loop K ip_bin n"

text \<open>
  \<open>EXEC_CMD\<close> with the buffer \<open>cbuf\<close> of 256 bytes: the result of \<open>system\<close>, the new contents
  of the buffer, and the trace.
\<close>

definition exec_cmd :: "kernel \<Rightarrow> bool \<Rightarrow> string \<Rightarrow> string \<Rightarrow> nat \<Rightarrow> int \<times> string \<times> nat \<times> io list" where
  "exec_cmd K suppress_err ip cmd n =
     (let buf = snprintf 256 cmd;
          full = snprintf 768 (ip @ '' '' @ buf) @ (if suppress_err then '' >> /dev/null 2>&1'' else [])
      in (k_system K n full, buf, n + 1, [System full (k_system K n full)]))"

text \<open>
  \<open>shell_exec\<close> with a caller's buffer: the output as a C string, or the old contents when the
  command cannot be started.
\<close>

definition shell_exec :: "kernel \<Rightarrow> string \<Rightarrow> string \<Rightarrow> nat \<Rightarrow> nat \<Rightarrow> string" where
  "shell_exec K cmd buf buflen n =
     (case k_popen K n cmd of None \<Rightarrow> buf | Some out \<Rightarrow> takeWhile (\<lambda>c. c \<noteq> CHR 0x00) (take buflen out))"

section \<open>Bringing the interface up and down\<close>

text \<open>The loop that counts the shifts until the mask is zero.\<close>

fun cidr_loop :: "nat \<Rightarrow> u32 \<Rightarrow> u8 \<Rightarrow> u8" where
  "cidr_loop 0 tmp cidr = cidr"
| "cidr_loop (Suc fuel) tmp cidr = (if tmp = 0 then cidr else cidr_loop fuel (drop_bit 1 tmp) (cidr + 1))"

text \<open>The word has 32 bits, so 32 rounds are enough.\<close>

definition netmask_cidr :: "u32 \<Rightarrow> u8" where
  "netmask_cidr m = cidr_loop 32 m 0"

definition on_off :: "bool \<Rightarrow> string \<Rightarrow> string \<Rightarrow> string" where
  "on_off up a b = (if up then a else b)"

text \<open>
  The routes to the server's public address and the default gateway: the last part of
  \<open>teavpn_iface_toggle\<close>, after the address is set; \<open>cbuf\<close> is what the command buffer holds.
\<close>

definition iface_routes :: "kernel \<Rightarrow> if_info \<Rightarrow> bool \<Rightarrow> bool \<Rightarrow> string \<Rightarrow> string \<Rightarrow> nat \<Rightarrow> bool \<times> nat \<times> io list" where
  "iface_routes K iface up suppress_err ip cbuf n =
     (if ipv4_pub iface = [] then (True, n, [])
      else
        let out = shell_exec K (snprintf 128 (ip @ '' route show'')) cbuf 255 n in
        case strstr_after ''default via '' out of
          None \<Rightarrow> (False, n + 1, [])
        | Some r \<Rightarrow>
            let rdgw = takeWhile (\<lambda>c. c \<noteq> CHR '' '' \<and> c \<noteq> CHR 0x0A) r;
                erdgw = simple_esc_arg rdgw;
                eipv4_pub = simple_esc_arg (ipv4_pub iface);
                l0 = overrun ''eipv4'' IPV4_ELI erdgw @ overrun ''eipv4_nw'' IPV4_ELI eipv4_pub;
                tmp = snprintf 128 (ip @ '' route delete '' @ eipv4_pub @ ''/32 via '' @ erdgw @ '' >> /dev/null 2>&1'');
                (n1, l1) = (if up then (n + 2, [System tmp (k_system K (n + 1) tmp)]) else (n + 1, []));
                (r2, _, n2, l2) = exec_cmd K suppress_err ip
                  (''route '' @ on_off up ''add'' ''delete'' @ '' '' @ eipv4_pub @ ''/32 via '' @ erdgw) n1
            in
            if r2 \<noteq> 0 then (False, n2, l0 @ l1 @ l2)
            else if ipv4_dgateway iface = [] then (True, n2, l0 @ l1 @ l2)
            else
              let edgw = simple_esc_arg (ipv4_dgateway iface);
                  o3 = overrun ''eipv4'' IPV4_ELI edgw;
                  (r3, _, n3, l3) = exec_cmd K suppress_err ip
                    (''route '' @ on_off up ''add'' ''delete'' @ '' 0.0.0.0/1 via '' @ edgw) n2
              in
              if r3 \<noteq> 0 then (False, n3, l0 @ l1 @ l2 @ o3 @ l3)
              else
                let (r4, _, n4, l4) = exec_cmd K suppress_err ip
                      (''route '' @ on_off up ''add'' ''delete'' @ '' 128.0.0.0/1 via '' @ edgw) n3
                in (r4 = 0, n4, l0 @ l1 @ l2 @ o3 @ l3 @ l4))"

text \<open>The address with its prefix length, and the network address with it.\<close>

definition addr_prefix :: "if_info \<Rightarrow> u32 \<Rightarrow> string" where
  "addr_prefix iface nm = sane_strncpy (ipv4 iface) IPV4_LI @ ''/'' @ dec_string (unat (netmask_cidr nm))"

definition nw_prefix :: "u32 \<Rightarrow> u32 \<Rightarrow> string" where
  "nw_prefix a nm = inet_ntop (a AND nm) @ ''/'' @ dec_string (unat (netmask_cidr nm))"

text \<open>What the two commands that follow need of the arrays on the stack.\<close>

definition addr_overruns :: "if_info \<Rightarrow> u32 \<Rightarrow> u32 \<Rightarrow> io list" where
  "addr_overruns iface a nm =
     overrun ''uipv4'' IPV4_LI (addr_prefix iface nm) @ overrun ''uipv4_nw'' IPV4_LI (nw_prefix a nm)
     @ overrun ''eipv4'' IPV4_ELI (simple_esc_arg (addr_prefix iface nm))
     @ overrun ''eipv4_nw'' IPV4_ELI (simple_esc_arg (nw_prefix a nm))
     @ overrun ''eipv4_bc'' IPV4_ELI (simple_esc_arg (inet_ntop ((a AND nm) OR NOT nm)))
     @ overrun ''edev'' (2 * IFNAMSIZ) (simple_esc_arg (dev iface))"

text \<open>The two commands that set the link and the address; \<open>a\<close> and \<open>nm\<close> are address and netmask.\<close>

definition link_cmd :: "if_info \<Rightarrow> bool \<Rightarrow> string" where
  "link_cmd iface up =
     ''link set dev '' @ simple_esc_arg (dev iface) @ '' '' @ on_off up ''up'' ''down'' @ '' mtu ''
       @ dec_string (unat (ipv4_mtu iface))"

definition addr_cmd :: "if_info \<Rightarrow> bool \<Rightarrow> u32 \<Rightarrow> u32 \<Rightarrow> string" where
  "addr_cmd iface up a nm =
     (let uipv4 = addr_prefix iface nm;
          bipv4_nw = a AND nm;
          bipv4_bc = bipv4_nw OR NOT nm;
          uipv4_bc = inet_ntop bipv4_bc
      in ''addr '' @ on_off up ''add'' ''delete'' @ '' dev '' @ simple_esc_arg (dev iface) @ '' ''
           @ simple_esc_arg uipv4 @ '' broadcast '' @ simple_esc_arg uipv4_bc)"

definition teavpn_iface_toggle :: "kernel \<Rightarrow> if_info \<Rightarrow> bool \<Rightarrow> bool \<Rightarrow> nat \<Rightarrow> bool \<times> nat \<times> io list" where
  "teavpn_iface_toggle K iface up suppress_err n =
     (let uipv4 = sane_strncpy (ipv4 iface) IPV4_LI;
          uipv4_nm = sane_strncpy (ipv4_netmask iface) IPV4_LI
      in
      case inet_pton uipv4_nm of
        None \<Rightarrow> (False, n, [])
      | Some bipv4_nm \<Rightarrow>
          let cidr = netmask_cidr bipv4_nm in
          if cidr > 32 then (False, n, [])
          else case inet_pton uipv4 of
            None \<Rightarrow> (False, n, [])
          | Some bipv4 \<Rightarrow>
              let l1 = addr_overruns iface bipv4 bipv4_nm in
              case find_ip_cmd K n of
                (None, n1) \<Rightarrow> (False, n1, l1)
              | (Some ip, n1) \<Rightarrow>
                  case exec_cmd K suppress_err ip (link_cmd iface up) n1 of
                    (r2, _, n2, l2) \<Rightarrow>
                      if r2 \<noteq> 0 then (False, n2, l1 @ l2)
                      else case exec_cmd K suppress_err ip (addr_cmd iface up bipv4 bipv4_nm) n2 of
                        (r3, cbuf, n3, l3) \<Rightarrow>
                          if r3 \<noteq> 0 then (False, n3, l1 @ l2 @ l3)
                          else case iface_routes K iface up suppress_err ip cbuf n3 of
                            (ok, n4, l4) \<Rightarrow> (ok, n4, l1 @ l2 @ l3 @ l4))"

definition teavpn_iface_up :: "kernel \<Rightarrow> if_info \<Rightarrow> nat \<Rightarrow> bool \<times> nat \<times> io list" where
  "teavpn_iface_up K iface n = teavpn_iface_toggle K iface True False n"

definition teavpn_iface_down :: "kernel \<Rightarrow> if_info \<Rightarrow> nat \<Rightarrow> bool \<times> nat \<times> io list" where
  "teavpn_iface_down K iface n = teavpn_iface_toggle K iface False True n"

section \<open>Quoting\<close>

text \<open>
  How a POSIX shell reads a word that consists of single-quoted parts and backslash-escaped
  characters: \<open>sh_word\<close> outside of quotes, \<open>sh_quoted\<close> inside.  The result is the word and the
  rest of the line; an unquoted character of any other kind ends the word.
\<close>

fun sh_word :: "bool \<Rightarrow> string \<Rightarrow> (string \<times> string) option" where
  "sh_word True [] = None"
| "sh_word True (c # s) =
     (if c = quote_chr then sh_word False s
      else map_option (\<lambda>(w, r). (c # w, r)) (sh_word True s))"
| "sh_word False [] = Some ([], [])"
| "sh_word False (c # s) =
     (if c = quote_chr then sh_word True s
      else if c = backslash_chr then
        (case s of [] \<Rightarrow> None | d # s' \<Rightarrow> map_option (\<lambda>(w, r). (d # w, r)) (sh_word False s'))
      else Some ([], c # s))"

lemma quote_chrs [simp]: "backslash_chr \<noteq> quote_chr" "quote_chr \<noteq> backslash_chr"
  by (simp_all add: quote_chr_def backslash_chr_def)

lemma sh_word_escape: "sh_word True (escape_loop str @ quote_chr # r)
    = map_option (\<lambda>(w, r'). (str @ w, r')) (sh_word False r)"
proof (induction str)
  case Nil
  then show ?case by (cases "sh_word False r") auto
next
  case (Cons c str)
  then show ?case by (cases "sh_word False r") auto
qed

section \<open>Netmasks\<close>

lemma cidr_loop_zero [simp]: "cidr_loop n 0 c = c"
  by (cases n) simp_all

lemma cidr_loop_bits:
  "unat tmp < 2 ^ fuel \<Longrightarrow> unat c + fuel < 256 \<Longrightarrow>
   \<exists>k \<le> fuel. unat (cidr_loop fuel tmp c) = unat c + k \<and> unat tmp < 2 ^ k
     \<and> (if tmp = 0 then k = 0 else 0 < k \<and> 2 ^ (k - 1) \<le> unat tmp)"
proof (induction fuel arbitrary: tmp c)
  case 0
  then show ?case by (simp add: unsigned_eq_0_iff)
next
  case (Suc fuel)
  show ?case
  proof (cases "tmp = 0")
    case False
    define h where "h = drop_bit 1 tmp"
    have h: "unat h = unat tmp div 2" by (simp add: h_def drop_bit_eq_div unat_div)
    have c: "unat (c + 1) = unat c + 1" using Suc.prems(2) by (simp add: unat_word_ariths)
    have "unat h < 2 ^ fuel" "unat (c + 1) + fuel < 256" using Suc.prems h c by auto
    then obtain k where k: "k \<le> fuel" "unat (cidr_loop fuel h (c + 1)) = unat (c + 1) + k" "unat h < 2 ^ k"
        "if h = 0 then k = 0 else 0 < k \<and> 2 ^ (k - 1) \<le> unat h"
      using Suc.IH by blast
    have pos: "0 < unat tmp" using False by (simp add: unat_gt_0)
    have "2 ^ k \<le> unat tmp"
    proof (cases "h = 0")
      case True
      then show ?thesis using k(4) pos by simp
    next
      case False
      then obtain j where "k = Suc j" using k(4) by (cases k) auto
      then show ?thesis using k(4) False h by simp
    qed
    then show ?thesis
      using False k h c by (intro exI [of _ "Suc k"]) (auto simp: h_def)
  qed simp
qed

section \<open>Commands\<close>

text \<open>What the functions add to a trace: commands and overruns, nothing else.\<close>

fun shell_event :: "io \<Rightarrow> bool" where
  "shell_event (System c r) = True"
| "shell_event (Overrun a) = True"
| "shell_event _ = False"

lemma overrun_event: "list_all shell_event (overrun a n s)"
  by (simp add: overrun_def)

lemma exec_event: "exec_cmd K q ip cmd n = (r, b, n', l) \<Longrightarrow> list_all shell_event l"
  by (auto simp: exec_cmd_def Let_def)

lemma routes_events: "iface_routes K iface up q ip cbuf n = (ok, n', l) \<Longrightarrow> list_all shell_event l"
  by (auto simp: iface_routes_def Let_def overrun_event dest!: exec_event split: if_splits option.splits prod.splits)

lemma toggle_events: "teavpn_iface_toggle K iface up q n = (ok, n', l) \<Longrightarrow> list_all shell_event l"
  by (auto simp: teavpn_iface_toggle_def addr_overruns_def Let_def overrun_event dest!: exec_event routes_events
      split: if_splits option.splits prod.splits)

text \<open>Runs the commands in order until one fails.\<close>

fun run_cmds :: "kernel \<Rightarrow> string list \<Rightarrow> nat \<Rightarrow> bool \<times> nat \<times> io list" where
  "run_cmds K [] n = (True, n, [])"
| "run_cmds K (c # cs) n =
     (if k_system K n c \<noteq> 0 then (False, n + 1, [System c (k_system K n c)])
      else case run_cmds K cs (n + 1) of (ok, n', l) \<Rightarrow> (ok, n', System c 0 # l))"

lemma exec_cmd_short:
  assumes "length cmd < 256" "length ip < 500"
  shows "exec_cmd K quiet ip cmd n = (let full = ip @ '' '' @ cmd @ (if quiet then '' >> /dev/null 2>&1'' else []) in
    (k_system K n full, cmd, n + 1, [System full (k_system K n full)]))"
  using assms by (simp add: exec_cmd_def snprintf_def Let_def)

lemma ip_bin_short: "find_ip_cmd K n = (Some ip, n1) \<Longrightarrow> length ip < 500"
proof -
  have "find_ip_loop K ps n = (Some ip, n1) \<Longrightarrow> ip \<in> set ps" for ps n
    by (induction ps arbitrary: n) (auto split: if_splits)
  moreover assume "find_ip_cmd K n = (Some ip, n1)"
  ultimately have "ip \<in> set ip_bin" by (simp add: find_ip_cmd_def)
  then show ?thesis by (auto simp: ip_bin_def)
qed

lemma escape_short: "length (escapeshellarg s) \<le> 4 * length s + 2"
proof -
  have "length (escape_loop s) \<le> 4 * length s" by (induction s) auto
  then show ?thesis by (simp add: escapeshellarg_def)
qed

lemma octet_digits: "length (dec_string (octet k a)) \<le> 3"
  by (rule length_dec_string) (simp_all add: octet_def)

lemma inet_ntop_short: "length (inet_ntop a) \<le> 15"
  using octet_digits [of 0 a] octet_digits [of 1 a] octet_digits [of 2 a] octet_digits [of 3 a]
  by (simp add: inet_ntop_def)

lemma iface_cmds_short:
  assumes d: "length (escapeshellarg (dev iface)) < 2 * IFNAMSIZ"
  shows "length (link_cmd iface up) < 256" "length (addr_cmd iface up a nm) < 256"
proof -
  have m: "length (dec_string (unat (ipv4_mtu iface))) \<le> 5"
    using unsigned_less [of "ipv4_mtu iface", where 'a = nat] by (intro length_dec_string) simp_all
  have "length (dec_string (unat (netmask_cidr nm))) \<le> 3"
    using unsigned_less [of "netmask_cidr nm", where 'a = nat] by (intro length_dec_string) simp_all
  then have i: "length (escapeshellarg (addr_prefix iface nm)) \<le> 82"
    using escape_short [of "addr_prefix iface nm"] by (simp add: addr_prefix_def sane_strncpy_def IPV4_LI_def)
  have b: "length (escapeshellarg (inet_ntop x)) \<le> 62" for x
    using escape_short [of "inet_ntop x"] inet_ntop_short [of x] by linarith
  show "length (link_cmd iface up) < 256" using m d by (simp add: link_cmd_def simple_esc_arg_def on_off_def IFNAMSIZ_def)
  show "length (addr_cmd iface up a nm) < 256"
    using d i b [of "a AND nm OR NOT nm"] by (simp add: addr_cmd_def simple_esc_arg_def on_off_def Let_def IFNAMSIZ_def)
qed

text \<open>A valid address contains no character that has to be escaped.\<close>

lemma split_on_set: "c \<in> set s \<Longrightarrow> c = d \<or> (\<exists>p \<in> set (split_on d s). c \<in> set p)"
proof (induction s)
  case (Cons a s)
  then show ?case by (cases "a = d"; cases "split_on d s") auto
qed simp

lemma inet_pton_chars: "inet_pton s = Some a \<Longrightarrow> c \<in> set s \<Longrightarrow> isdigit c \<or> c = CHR ''.''"
proof -
  assume "inet_pton s = Some a" and c: "c \<in> set s"
  then have "\<forall>p \<in> set (split_on (CHR ''.'') s). pton_octet p \<noteq> None"
    by (auto simp: inet_pton_def map_eq_Cons_conv split: list.splits option.splits)
  then have "\<forall>p \<in> set (split_on (CHR ''.'') s). list_all isdigit p"
    by (auto simp: pton_octet_def split: if_splits)
  then show "isdigit c \<or> c = CHR ''.''" using split_on_set [OF c, of "CHR ''.''"] by (auto simp: list_all_iff)
qed

lemma escape_plain: "quote_chr \<notin> set s \<Longrightarrow> length (escapeshellarg s) = length s + 2"
proof -
  have "quote_chr \<notin> set s \<Longrightarrow> length (escape_loop s) = length s" by (induction s) auto
  then show "quote_chr \<notin> set s \<Longrightarrow> length (escapeshellarg s) = length s + 2" by (simp add: escapeshellarg_def)
qed

lemma quote_not_digit: "\<not> isdigit quote_chr" "quote_chr \<noteq> CHR ''.''" "quote_chr \<noteq> CHR ''/''"
  by (simp_all add: quote_chr_def isdigit_def)

lemma addr_chars:
  "inet_pton (sane_strncpy (ipv4 iface) IPV4_LI) = Some a \<Longrightarrow> quote_chr \<notin> set (addr_prefix iface nm)"
  "quote_chr \<notin> set (nw_prefix a nm)" "quote_chr \<notin> set (inet_ntop a)"
  using inet_pton_chars [of _ a quote_chr]
  by (auto simp: addr_prefix_def nw_prefix_def inet_ntop_def quote_not_digit dest: dec_string_isdigit)

lemma addr_overruns_none:
  assumes "inet_pton (sane_strncpy (ipv4 iface) IPV4_LI) = Some b" "length (escapeshellarg (dev iface)) < 2 * IFNAMSIZ"
    "length (addr_prefix iface nm) < IPV4_LI" "length (nw_prefix a nm) < IPV4_LI"
  shows "addr_overruns iface a nm = []"
proof -
  note e = escape_plain [OF addr_chars(1) [OF assms(1)]] escape_plain [OF addr_chars(2)] escape_plain [OF addr_chars(3)]
  show ?thesis using assms(2-) inet_ntop_short [of "(a AND nm) OR NOT nm"]
    by (simp add: addr_overruns_def overrun_def simple_esc_arg_def e IPV4_ELI_def IPV4_LI_def)
qed

lemma netmask_cidr_le: "\<not> netmask_cidr m > 32"
proof -
  have "unat m < 2 ^ 32" using unsigned_less [of m, where 'a = nat] by simp
  then have "unat (netmask_cidr m) \<le> 32"
    using cidr_loop_bits [of m 32 0] by (auto simp: netmask_cidr_def)
  then show ?thesis by (simp add: word_less_nat_alt)
qed

section \<open>Properties\<close>

text \<open>
  C29: bringing the interface up or down.  For a valid address and netmask, no public address,
  and an address, a network address and a device name that fit the arrays of the function (the
  addresses with their prefix length 17 bytes, the quoted name 32), the function writes past no
  array and runs exactly the command that sets the link and the one that sets the address,
  prefix and broadcast address, with every argument quoted and no command cut off; it stops at
  the first failure and succeeds when both succeed.
\<close>

theorem iface_toggle_commands:
  assumes nm: "inet_pton (take 16 (ipv4_netmask iface)) = Some nm" and a: "inet_pton (take 16 (ipv4 iface)) = Some a"
    and ip: "find_ip_cmd K n = (Some ip, n1)" and pub: "ipv4_pub iface = []"
    and dv: "length (escapeshellarg (dev iface)) < 32"
    and u: "length (take 16 (ipv4 iface) @ ''/'' @ dec_string (unat (netmask_cidr nm))) < 17"
    and nw: "length (inet_ntop (a AND nm) @ ''/'' @ dec_string (unat (netmask_cidr nm))) < 17"
  shows "teavpn_iface_toggle K iface up quiet n = run_cmds K (map (\<lambda>c. ip @ '' '' @ c
     @ (if quiet then '' >> /dev/null 2>&1'' else [])) [link_cmd iface up, addr_cmd iface up a nm]) n1"
proof -
  have d: "length (escapeshellarg (dev iface)) < 2 * IFNAMSIZ" using dv by (simp add: IFNAMSIZ_def)
  have s: "sane_strncpy x IPV4_LI = take 16 x" for x by (simp add: sane_strncpy_def IPV4_LI_def)
  have o: "addr_overruns iface a nm = []"
    by (rule addr_overruns_none [OF _ d])
      (simp only: s a, (simp only: addr_prefix_def nw_prefix_def s, simp only: IPV4_LI_def u nw)+)
  note x = exec_cmd_short [OF _ ip_bin_short [OF ip], of _ K quiet]
  show ?thesis
    unfolding teavpn_iface_toggle_def iface_routes_def
    by (simp add: s nm a netmask_cidr_le ip pub x iface_cmds_short [OF d] o Let_def)
qed

text \<open>Witness of C29: the interface tun0 with 10.5.5.1/24.\<close>

definition sample_iface :: if_info where
  "sample_iface = \<lparr>dev = ''tun0'', ipv4_pub = [], ipv4 = ''10.5.5.1'', ipv4_netmask = ''255.255.255.0'',
     ipv4_dgateway = [], ipv4_mtu = 1450\<rparr>"

theorem iface_toggle_commands_witness:
  "fst (teavpn_iface_toggle silent_kernel sample_iface True False 0)
   \<and> snd (snd (teavpn_iface_toggle silent_kernel sample_iface True False 0)) =
     map (\<lambda>c. System (''/bin/ip '' @ c) 0)
       [''link set dev '' @ escapeshellarg ''tun0'' @ '' up mtu 1450'',
        ''addr add dev '' @ escapeshellarg ''tun0'' @ '' '' @ escapeshellarg ''10.5.5.1/24''
          @ '' broadcast '' @ escapeshellarg ''10.5.5.255'']"
proof -
  have ip: "find_ip_cmd silent_kernel 0 = (Some ''/bin/ip'', 1)"
    by (simp add: find_ip_cmd_def ip_bin_def silent_kernel_def)
  have nm: "inet_pton (take 16 (ipv4_netmask sample_iface)) = Some 0x00ffffff"
    and a: "inet_pton (take 16 (ipv4 sample_iface)) = Some 0x0105050a"
    by (simp_all add: sample_iface_def libc_eval)
  have n: "netmask_cidr 0x00ffffff = 24" by code_simp
  have l: "ipv4_pub sample_iface = []" "length (escapeshellarg (dev sample_iface)) < 32"
    by (simp_all add: sample_iface_def escapeshellarg_def)
  have f: "length (take 16 (ipv4 sample_iface) @ ''/'' @ dec_string (unat (netmask_cidr 0x00ffffff))) < 17"
    "length (inet_ntop (0x0105050a AND 0x00ffffff) @ ''/'' @ dec_string (unat (netmask_cidr 0x00ffffff))) < 17"
    unfolding n by (simp_all add: sample_iface_def libc_eval)
  have c: "link_cmd sample_iface True = ''link set dev '' @ escapeshellarg ''tun0'' @ '' up mtu 1450''"
    "addr_cmd sample_iface True 0x0105050a 0x00ffffff = ''addr add dev '' @ escapeshellarg ''tun0'' @ '' ''
       @ escapeshellarg ''10.5.5.1/24'' @ '' broadcast '' @ escapeshellarg ''10.5.5.255''"
    by (simp_all add: link_cmd_def addr_cmd_def addr_prefix_def sample_iface_def simple_esc_arg_def on_off_def n
        sane_strncpy_def IPV4_LI_def libc_eval)
  show ?thesis
    unfolding iface_toggle_commands [OF nm a ip l f] c by (simp add: silent_kernel_def)
qed

text \<open>
  An address of 14 or 15 characters does not fit: with the prefix length appended, the function
  writes past the end of its array of 17 bytes.
\<close>

theorem long_address_overruns:
  assumes "inet_pton (take 16 (ipv4_netmask iface)) = Some nm" and "inet_pton (take 16 (ipv4 iface)) = Some a"
    and "9 < netmask_cidr nm" and "14 \<le> length (take 16 (ipv4 iface))"
  shows "Overrun ''uipv4'' \<in> set (snd (snd (teavpn_iface_toggle K iface up quiet n)))"
proof -
  have s: "sane_strncpy x IPV4_LI = take 16 x" for x by (simp add: sane_strncpy_def IPV4_LI_def)
  have "10 \<le> unat (netmask_cidr nm)" using assms(3) by (simp add: word_less_nat_alt)
  then have "2 \<le> length (dec_string (unat (netmask_cidr nm)))"
    using dec_string_digits [of "unat (netmask_cidr nm) div 10"] by (subst dec_string.simps) (auto simp: Suc_le_eq)
  then have "Overrun ''uipv4'' \<in> set (addr_overruns iface a nm)"
    using assms(4) by (simp add: addr_overruns_def overrun_def addr_prefix_def s) (simp add: IPV4_LI_def)
  then show ?thesis
    by (auto simp: teavpn_iface_toggle_def s assms(1,2) netmask_cidr_le Let_def split: prod.splits option.splits)
qed

text \<open>
  C30: no shell injection.  Whatever the string, a shell reads the argument that
  \<open>escapeshellarg\<close> produces back as exactly that string, and as nothing more than one word,
  when the character after it is neither a quote nor a backslash.
\<close>

theorem escapeshellarg_roundtrip:
  assumes "r = [] \<or> hd r \<noteq> quote_chr \<and> hd r \<noteq> backslash_chr"
  shows "sh_word False (escapeshellarg str @ r) = Some (str, r)"
proof -
  have "sh_word False r = Some ([], r)" using assms by (cases r) auto
  then show ?thesis by (simp add: escapeshellarg_def sh_word_escape)
qed

text \<open>Witness of C30: an attempt to break out of the quotes.\<close>

theorem escapeshellarg_roundtrip_witness:
  "sh_word False (escapeshellarg (''tun0'' @ [quote_chr] @ ''; reboot #'') @ '' up'')
     = Some (''tun0'' @ [quote_chr] @ ''; reboot #'', '' up'')"
  by (rule escapeshellarg_roundtrip) (simp add: quote_chr_def backslash_chr_def)

text \<open>
  C31: the prefix length.  The number the code computes from a netmask is the position of the
  highest bit of the 32-bit word as it lies in memory (the first octet lowest): it is at most
  32, so the check for larger values never fires, and the counter cannot wrap.
\<close>

theorem netmask_cidr_bits:
  "unat (netmask_cidr m) \<le> 32 \<and> unat m < 2 ^ unat (netmask_cidr m)
    \<and> (m \<noteq> 0 \<longrightarrow> 0 < unat (netmask_cidr m) \<and> 2 ^ (unat (netmask_cidr m) - 1) \<le> unat m)"
proof -
  have "unat m < 2 ^ 32" using unsigned_less [of m, where 'a = nat] by simp
  then show ?thesis
    using cidr_loop_bits [of m 32 0] by (auto simp: netmask_cidr_def split: if_splits)
qed

text \<open>Witness of C31: the mask 255.255.255.0 gives 24.\<close>

theorem netmask_cidr_bits_witness: "netmask_cidr 0x00ffffff = 24 \<and> (2 :: nat) ^ 23 \<le> unat (0x00ffffff :: u32)"
proof -
  have "netmask_cidr 0x00ffffff = 24" by code_simp
  moreover have "(0x00ffffff :: u32) \<noteq> 0" by simp
  ultimately show ?thesis using netmask_cidr_bits [of "0x00ffffff"] by simp
qed

text \<open>
  The number is not the prefix length when the last non-zero octet of the mask is partly set: the mask
  255.255.254.0 has 23 leading ones and is configured as /24.
\<close>

theorem netmask_254_is_24:
  "inet_pton ''255.255.254.0'' = Some 0x00feffff \<and> netmask_cidr 0x00feffff = 24"
proof
  show "inet_pton ''255.255.254.0'' = Some 0x00feffff"
    by (simp add: libc_eval)
  show "netmask_cidr 0x00feffff = 24" by code_simp
qed

end
