(* ===== verification/Srv_Init.thy ===== *)
theory Srv_Init
  imports Srv_Machine Iface
begin

text \<open>
  Start-up and tear-down of the server, \<^verbatim>\<open>src/teavpn2/server/linux/udp.c\<close>.  A pointer that
  is still NULL is an empty list or \<open>None\<close>.  The functions return the C result and the new
  state; the debug self test of the stack is the separate property \<open>bt_stack_test_passes\<close>.
\<close>

section \<open>The state\<close>

definition io_event :: "io \<Rightarrow> srv_udp_state \<Rightarrow> srv_udp_state" where
  "io_event x s = s\<lparr>io := io s @ [x]\<rparr>"

definition alloc_tun_fds_array :: "kernel \<Rightarrow> srv_udp_state \<Rightarrow> int \<times> srv_udp_state" where
  "alloc_tun_fds_array K s =
     (let nn = thread_num (cfg_sys (cfg s));
          s1 = s\<lparr>tick := tick s + 1\<rparr>
      in if \<not> k_malloc K (tick s) then (- ENOMEM, s1)
         else (0, s1\<lparr>tun_fds := replicate (unat nn) (-1)\<rparr>))"

definition select_event_loop :: "srv_udp_state \<Rightarrow> int \<times> srv_udp_state" where
  "select_event_loop s =
     (let evtl = event_loop (cfg_sock (cfg s)) in
      if evtl = [] \<or> evtl = ''epoll'' then (0, s\<lparr>evt_loop := EVTL_EPOLL, epl_threads := []\<rparr>)
      else if evtl \<in> {''io_uring'', ''io uring'', ''iouring'', ''uring''} then (0, s\<lparr>evt_loop := EVTL_IO_URING\<rparr>)
      else (- EINVAL, s))"

text \<open>The calls of \<open>signal\<close> for SIGINT, SIGTERM, SIGHUP and SIGPIPE.\<close>

fun set_signals :: "kernel \<Rightarrow> nat \<Rightarrow> srv_udp_state \<Rightarrow> int \<times> srv_udp_state" where
  "set_signals K 0 s = (0, s)"
| "set_signals K (Suc n) s =
     (case sys_call K s of (ret, s1) \<Rightarrow> if ret < 0 then (ret, s1) else set_signals K n s1)"

definition init_state :: "kernel \<Rightarrow> srv_udp_state \<Rightarrow> int \<times> srv_udp_state" where
  "init_state K s =
     (let (ret, s1) = alloc_tun_fds_array K (s\<lparr>udp_fd := -1, sig := -1\<rparr>) in
      if ret \<noteq> 0 then (ret, s1)
      else
        let (ret, s2) = select_event_loop s1 in
        if ret \<noteq> 0 then (ret, s2) else set_signals K 4 s2)"

section \<open>Socket and interface\<close>

text \<open>The four calls of \<open>setsockopt\<close>; a failed call returns -1.\<close>

fun set_sockopts :: "kernel \<Rightarrow> nat \<Rightarrow> srv_udp_state \<Rightarrow> int \<times> srv_udp_state" where
  "set_sockopts K 0 s = (0, s)"
| "set_sockopts K (Suc n) s =
     (case sys_call K s of (ret, s1) \<Rightarrow> if ret \<noteq> 0 then (-1, s1) else set_sockopts K n s1)"

definition socket_setup :: "kernel \<Rightarrow> srv_udp_state \<Rightarrow> int \<times> srv_udp_state" where
  "socket_setup K s = set_sockopts K 4 s"

definition init_socket :: "kernel \<Rightarrow> srv_udp_state \<Rightarrow> int \<times> srv_udp_state" where
  "init_socket K s =
     (let sock = cfg_sock (cfg s);
          (fd, s1) = sys_call K s
      in
      if fd < 0 then (fd, s1)
      else
        let (ret, s2) = socket_setup K (io_event (Open fd) s1) in
        if ret \<noteq> 0 then (- ret, io_event (Close fd) s2)
        else
          let addr = \<lparr>sin_port = htons (bind_port sock), sin_addr = inet_addr (bind_addr sock)\<rparr>;
              (ret, s3) = sys_call K s2
          in
          if ret < 0 then (ret, io_event (Close fd) s3)
          else (0, (io_event (Bind fd addr) s3)\<lparr>udp_fd := fd\<rparr>))"

text \<open>The loop \<^verbatim>\<open>while (i--)\<close> of the error path.\<close>

fun close_tuns :: "nat \<Rightarrow> srv_udp_state \<Rightarrow> srv_udp_state" where
  "close_tuns 0 s = s"
| "close_tuns (Suc i) s =
     close_tuns i ((io_event (Close (tun_fds s ! i)) s)\<lparr>tun_fds := (tun_fds s)[i := -1]\<rparr>)"

fun init_tuns :: "kernel \<Rightarrow> nat list \<Rightarrow> string \<Rightarrow> int \<Rightarrow> srv_udp_state \<Rightarrow> int \<times> bool \<times> srv_udp_state" where
  "init_tuns K [] dtf ret s = (ret, True, s)"
| "init_tuns K (i # is) dtf ret s =
     (case tun_alloc K dtf (iface_dev (cfg_iface (cfg s))) (tick s) of
        (tun_fd, dtf', n, l) \<Rightarrow>
          let s1 = s\<lparr>tick := n, io := io s @ l\<rparr> in
          if tun_fd < 0 then (tun_fd, False, close_tuns i s1)
          else if evt_loop s \<noteq> EVTL_IO_URING then
            (case fd_set_nonblock K n of
               (ret, n') \<Rightarrow>
                 let s2 = s1\<lparr>tick := n'\<rparr> in
                 if ret < 0 then (ret, False, close_tuns i (io_event (Close tun_fd) s2))
                 else init_tuns K is dtf' ret (s2\<lparr>tun_fds := (tun_fds s2)[i := tun_fd]\<rparr>))
          else init_tuns K is dtf' ret (s1\<lparr>tun_fds := (tun_fds s1)[i := tun_fd]\<rparr>))"

definition init_iface :: "kernel \<Rightarrow> srv_udp_state \<Rightarrow> int \<times> srv_udp_state" where
  "init_iface K s =
     (if iface_dev (cfg_iface (cfg s)) = [] then (- EINVAL, s)
      else case init_tuns K [0..<unat (thread_num (cfg_sys (cfg s)))] ''/dev/net/tun'' 0 s of
        (ret, ok, s1) \<Rightarrow>
          if \<not> ok then (ret, s1)
          else case teavpn_iface_up K (iface_iff (cfg_iface (cfg s1))) (tick s1) of
            (up, n, l) \<Rightarrow>
              let s2 = s1\<lparr>tick := n, io := io s1 @ l\<rparr> in
              if \<not> up then (- ENETDOWN, s2) else (ret, s2\<lparr>need_remove_iff := True\<rparr>))"

section \<open>Session table and route table\<close>

definition init_udp_session_array :: "kernel \<Rightarrow> srv_udp_state \<Rightarrow> int \<times> srv_udp_state" where
  "init_udp_session_array K s =
     (let max_conn = max_conn (cfg_sock (cfg s));
          s1 = s\<lparr>tick := tick s + 1\<rparr>
      in if \<not> k_malloc K (tick s) then (- ENOMEM, s1)
         else (0, s1\<lparr>sess_arr := map (\<lambda>i. reset_udp_session (word_of_nat i)) [0..<unat max_conn]\<rparr>))"

text \<open>\<open>mutex_init\<close> returns an error number.\<close>

definition init_udp_session_map :: "kernel \<Rightarrow> srv_udp_state \<Rightarrow> int \<times> srv_udp_state" where
  "init_udp_session_map K s =
     (if \<not> k_malloc K (tick s) then (- ENOMEM, s\<lparr>tick := tick s + 1\<rparr>)
      else
        let (ret, s1) = sys_call K (s\<lparr>tick := tick s + 1\<rparr>) in
        if ret \<noteq> 0 then (- ret, s1)
        else (ret, s1\<lparr>sess_map := Some (\<lambda>_ _. Bucket None None)\<rparr>))"

text \<open>The loop that pushes every slot number; the panic of a full stack is \<open>None\<close>.\<close>

fun push_slots :: "nat \<Rightarrow> bt_stack \<Rightarrow> bt_stack option" where
  "push_slots 0 stk = Some stk"
| "push_slots (Suc i) stk =
     (case bt_stack_push stk (word_of_nat i) of
        (tmp, stk') \<Rightarrow> if tmp = -1 then None else push_slots i stk')"

definition init_udp_session_stack :: "kernel \<Rightarrow> srv_udp_state \<Rightarrow> (int \<times> srv_udp_state) option" where
  "init_udp_session_stack K s =
     (let s1 = s\<lparr>tick := tick s + 1\<rparr>;
          max_conn = max_conn (cfg_sock (cfg s))
      in
      case bt_stack_init (k_malloc K (tick s)) max_conn of
        None \<Rightarrow> Some (- ENOMEM, s1)
      | Some stk \<Rightarrow>
          let (ret, s2) = sys_call K s1 in
          if ret \<noteq> 0 then Some (- ret, s2\<lparr>sess_stk := stk\<rparr>)
          else do {
            stk' \<leftarrow> push_slots (unat max_conn) stk;
            Some (0, s2\<lparr>sess_stk := stk'\<rparr>)
          })"

definition init_ipv4_map :: "kernel \<Rightarrow> srv_udp_state \<Rightarrow> int \<times> srv_udp_state" where
  "init_ipv4_map K s =
     (let s1 = s\<lparr>tick := tick s + 1\<rparr> in
      if \<not> k_malloc K (tick s) then (- ENOMEM, s1) else (0, s1\<lparr>ipv4_map := (\<lambda>_ _. 0)\<rparr>))"

section \<open>Tear-down\<close>

definition close_udp_fd :: "srv_udp_state \<Rightarrow> srv_udp_state" where
  "close_udp_fd s = (if udp_fd s \<noteq> -1 then io_event (Close (udp_fd s)) s else s)"

definition close_tun_fds :: "srv_udp_state \<Rightarrow> srv_udp_state" where
  "close_tun_fds s = fold (\<lambda>fd s. if fd = -1 then s else io_event (Close fd) s) (tun_fds s) s"

definition close_fds_state :: "srv_udp_state \<Rightarrow> srv_udp_state" where
  "close_fds_state s = close_tun_fds (close_udp_fd s)"

definition destroy_state :: "srv_udp_state \<Rightarrow> srv_udp_state" where
  "destroy_state s =
     (if threads_wont_exit s then s
      else (close_fds_state s)\<lparr>sess_arr := [], sess_map := None, tun_fds := []\<rparr>)"

section \<open>The whole run\<close>

text \<open>
  The steps of \<open>teavpn2_server_udp_run\<close> up to the event loop: the first result that is not
  zero ends them.
\<close>

definition seq_init ::
  "(srv_udp_state \<Rightarrow> (int \<times> srv_udp_state) option) \<Rightarrow> (int \<times> srv_udp_state) option \<Rightarrow> (int \<times> srv_udp_state) option" where
  "seq_init f r = do { (ret, s) \<leftarrow> r; if ret \<noteq> 0 then Some (ret, s) else f s }"

definition server_init :: "kernel \<Rightarrow> srv_udp_state \<Rightarrow> (int \<times> srv_udp_state) option" where
  "server_init K s =
     seq_init (\<lambda>s. Some (init_ipv4_map K s))
       (seq_init (init_udp_session_stack K)
         (seq_init (\<lambda>s. Some (init_udp_session_map K s))
           (seq_init (\<lambda>s. Some (init_udp_session_array K s))
             (seq_init (\<lambda>s. Some (init_iface K s))
               (seq_init (\<lambda>s. Some (init_socket K s))
                 (Some (init_state K s)))))))"

text \<open>The zeroed state with its configuration.\<close>

definition zero_state :: "srv_cfg \<Rightarrow> srv_udp_state" where
  "zero_state c = \<lparr>stop = False, in_emergency = False, threads_wont_exit = False,
     need_remove_iff = False, sig = 0, evt_loop = EVTL_NOP, udp_fd = 0, cfg = c,
     sess_stk = \<lparr>sp = 0, max_sp = 0, arr = []\<rparr>, sess_map = None, sess_arr = [],
     n_on_sess = 0, n_on_threads = 0, tun_fds = [], ipv4_map = (\<lambda>_ _. 0),
     zr_is_online = False, zr_pkt = None, epl_threads = [], tick = 1, io = []\<rparr>"

text \<open>
  The event loop either refuses with an error or is the machine of \<open>Srv_Machine\<close>;
  \<open>None\<close> is a panic.
\<close>

definition run_server_event_loop :: "kernel \<Rightarrow> srv_udp_state \<Rightarrow> (int + machine) option" where
  "run_server_event_loop K s =
     (case evt_loop s of
        EVTL_EPOLL \<Rightarrow> map_option Inr (teavpn2_udp_server_epoll K s)
      | EVTL_IO_URING \<Rightarrow> Some (Inl (- EOPNOTSUPP))
      | EVTL_NOP \<Rightarrow> None)"

definition teavpn2_server_udp_run :: "kernel \<Rightarrow> srv_cfg \<Rightarrow> ((int \<times> srv_udp_state) + machine) option" where
  "teavpn2_server_udp_run K c =
     (if \<not> k_malloc K 0 then Some (Inl (- ENOMEM, zero_state c))
      else do {
        (ret, s) \<leftarrow> server_init K (zero_state c);
        if ret \<noteq> 0 then Some (Inl (ret, destroy_state s))
        else do {
          r \<leftarrow> run_server_event_loop K s;
          Some (case r of Inl ret \<Rightarrow> Inl (ret, destroy_state s) | Inr m \<Rightarrow> Inr m)
        }
      })"

text \<open>The end of the run, once the main thread has returned from the event loop.\<close>

definition server_udp_exit :: "machine \<Rightarrow> (int \<times> srv_udp_state) option" where
  "server_udp_exit m = (case m_main m of M_end ret \<Rightarrow> Some (ret, destroy_state (m_srv m)) | _ \<Rightarrow> None)"

section \<open>What start-up establishes\<close>

text \<open>The steps before the session table leave the session table alone.\<close>

definition early :: "srv_udp_state \<Rightarrow> srv_udp_state \<Rightarrow> bool" where
  "early s s' \<longleftrightarrow> s'\<lparr>tick := tick s, io := io s, tun_fds := tun_fds s, need_remove_iff := need_remove_iff s,
     udp_fd := udp_fd s, sig := sig s, evt_loop := evt_loop s, epl_threads := epl_threads s\<rparr> = s"

lemma early_refl [simp]: "early s s"
  by (simp add: early_def)

lemma early_upd [simp]:
  "early s (s'\<lparr>tick := a\<rparr>) = early s s'" "early s (s'\<lparr>io := b\<rparr>) = early s s'"
  "early s (s'\<lparr>tun_fds := c\<rparr>) = early s s'" "early s (s'\<lparr>need_remove_iff := d\<rparr>) = early s s'"
  "early s (s'\<lparr>udp_fd := e\<rparr>) = early s s'" "early s (s'\<lparr>sig := f\<rparr>) = early s s'"
  "early s (s'\<lparr>evt_loop := g\<rparr>) = early s s'" "early s (s'\<lparr>epl_threads := h\<rparr>) = early s s'"
  "early s (io_event x s') = early s s'"
  by (simp_all add: early_def io_event_def)

lemma early_trans:
  assumes "early s t" "early t u"
  shows "early s u"
proof -
  have "u\<lparr>tick := tick s, io := io s, tun_fds := tun_fds s, need_remove_iff := need_remove_iff s,
      udp_fd := udp_fd s, sig := sig s, evt_loop := evt_loop s, epl_threads := epl_threads s\<rparr>
    = (u\<lparr>tick := tick t, io := io t, tun_fds := tun_fds t, need_remove_iff := need_remove_iff t,
      udp_fd := udp_fd t, sig := sig t, evt_loop := evt_loop t, epl_threads := epl_threads t\<rparr>)
      \<lparr>tick := tick s, io := io s, tun_fds := tun_fds s, need_remove_iff := need_remove_iff s,
      udp_fd := udp_fd s, sig := sig s, evt_loop := evt_loop s, epl_threads := epl_threads s\<rparr>" by simp
  also have "\<dots> = s" using assms unfolding early_def by metis
  finally show ?thesis by (simp add: early_def)
qed

lemma early_fields:
  assumes "early s s'"
  shows "cfg s' = cfg s" "n_on_sess s' = n_on_sess s" "n_on_threads s' = n_on_threads s" "ipv4_map s' = ipv4_map s"
    "threads_wont_exit s' = threads_wont_exit s" "stop s' = stop s"
proof -
  have e: "s = s'\<lparr>tick := tick s, io := io s, tun_fds := tun_fds s, need_remove_iff := need_remove_iff s,
     udp_fd := udp_fd s, sig := sig s, evt_loop := evt_loop s, epl_threads := epl_threads s\<rparr>"
    using assms by (simp add: early_def)
  show "cfg s' = cfg s" "n_on_sess s' = n_on_sess s" "n_on_threads s' = n_on_threads s" "ipv4_map s' = ipv4_map s"
    "threads_wont_exit s' = threads_wont_exit s" "stop s' = stop s" by (subst e, simp)+
qed

lemma sys_call_early [simp]: "early s (snd (sys_call K s'))  = early s s'"
  by (simp add: sys_call_def)

lemma set_signals_early: "early s s' \<Longrightarrow> early s (snd (set_signals K n s'))"
  by (induction n arbitrary: s') (auto simp: sys_call_def)

lemma set_sockopts_early: "early s s' \<Longrightarrow> early s (snd (set_sockopts K n s'))"
  by (induction n arbitrary: s') (auto simp: sys_call_def)

lemma init_state_early: "early s (snd (init_state K s))"
  using set_signals_early
  by (simp add: init_state_def alloc_tun_fds_array_def select_event_loop_def Let_def)

lemma init_socket_early: "early s (snd (init_socket K s))"
proof -
  have "early s (snd (socket_setup K (io_event (Open fd) (s\<lparr>tick := n\<rparr>))))" for fd n
    unfolding socket_setup_def by (rule set_sockopts_early) simp
  then show ?thesis
    by (auto simp: init_socket_def sys_call_def Let_def split: prod.split) (metis snd_conv)+
qed

lemma close_tuns_early: "early s s' \<Longrightarrow> early s (close_tuns i s')"
  by (induction i arbitrary: s') simp_all

lemma init_tuns_early: "early s s' \<Longrightarrow> early s (snd (snd (init_tuns K is dtf ret s')))"
  by (induction K "is" dtf ret s' rule: init_tuns.induct)
    (auto simp: Let_def close_tuns_early split: prod.split)

lemma init_iface_early: "early s (snd (init_iface K s))"
proof -
  have "early s (snd (snd (init_tuns K is dtf 0 s)))" for "is" dtf by (rule init_tuns_early) simp
  then show ?thesis
    by (auto simp: init_iface_def Let_def split: prod.split) (metis snd_conv)+
qed

lemma push_slots_list:
  assumes "stk_ok stk" "stk_list stk = map word_of_nat [k..<n]" "unat (max_sp stk) = n" "k \<le> n"
  shows "\<exists>stk'. push_slots k stk = Some stk' \<and> stk_ok stk' \<and> stk_list stk' = map word_of_nat [0..<n]
    \<and> max_sp stk' = max_sp stk"
  using assms
proof (induction k arbitrary: stk)
  case (Suc k)
  have "length (stk_list stk) \<noteq> unat (max_sp stk)" using Suc.prems by simp
  from stk_push_room [OF Suc.prems(1) this, of "word_of_nat k"] obtain stk1 where s1:
      "bt_stack_push stk (word_of_nat k) = (uint (word_of_nat k :: u16), stk1)" "stk_ok stk1"
      "stk_list stk1 = word_of_nat k # stk_list stk" "unat (max_sp stk1) = unat (max_sp stk)" by blast
  have "uint (word_of_nat k :: u16) \<noteq> -1" using unsigned_greater_eq [of "word_of_nat k :: u16", where 'a = int] by linarith
  moreover have "stk_list stk1 = map word_of_nat [k..<n]" using s1(3) Suc.prems by (simp add: upt_conv_Cons)
  moreover have "max_sp stk1 = max_sp stk" using s1(4) by (simp add: word_unat_eq_iff)
  ultimately show ?case using Suc.IH [of stk1] s1 Suc.prems by auto
qed auto

lemma fresh_slots_inv:
  assumes n: "max_conn (cfg_sock (cfg s)) = n"
    and "sess_arr s = map (\<lambda>i. reset_udp_session (word_of_nat i)) [0..<unat n]"
    and "sess_map s = Some (\<lambda>_ _. Bucket None None)" "n_on_sess s = 0" "ipv4_map s = (\<lambda>_ _. 0)"
    and stk: "stk_ok (sess_stk s)" "stk_list (sess_stk s) = map word_of_nat [0..<unat n]" "max_sp (sess_stk s) = n"
  shows "srv_inv s \<and> conn s = {}"
proof -
  have c: "conn s = {}" using assms(2) by (auto simp: conn_def)
  have u: "unat (word_of_nat i :: u16) = i" if "i < unat n" for i
    using that unsigned_less [of n, where 'a = nat] by (simp add: unat_of_nat)
  have "inj_on (word_of_nat :: nat \<Rightarrow> u16) {0..<unat n}"
    by (rule inj_on_inverseI [of _ unat]) (simp add: u)
  then have "distinct (stk_list (sess_stk s))" using stk(2) by (simp add: distinct_map)
  moreover have "unat ` set (stk_list (sess_stk s)) = {i. i < length (sess_arr s)}"
    using u stk(2) assms(2) by (force simp: image_iff)
  ultimately have "slots_ok s" using assms c by (simp add: slots_ok_def)
  moreover have "map_ok s" using assms(3) c by (simp add: map_ok_def in_bkt_def smap_def bkt_wf_def)
  moreover have "keys_ok s" "count_ok s" using c assms(4) by (simp_all add: keys_ok_def count_ok_def)
  moreover have "auth_ok s" "route_ok s" "peer_ok s" using assms c by (simp_all add: auth_ok_def route_ok_def peer_ok_def)
  ultimately show ?thesis using c by (simp add: srv_inv_def sess_inv_def)
qed

text \<open>What a successful start-up leaves.\<close>

definition booted :: "srv_cfg \<Rightarrow> srv_udp_state \<Rightarrow> bool" where
  "booted c s \<longleftrightarrow> srv_inv s \<and> conn s = {} \<and> n_on_threads s = 0 \<and> cfg s = c \<and> \<not> threads_wont_exit s \<and> \<not> stop s"

lemma seq_init_zero:
  "seq_init f x = Some r \<Longrightarrow> fst r = 0 \<Longrightarrow> \<exists>s. x = Some (0, s) \<and> f s = Some r"
  by (auto simp: seq_init_def bind_eq_Some_conv split: if_splits)

lemma session_steps:
  "init_udp_session_array K s = (0, s1) \<Longrightarrow>
    \<exists>k. s1 = s\<lparr>tick := k, sess_arr := map (\<lambda>i. reset_udp_session (word_of_nat i)) [0..<unat (max_conn (cfg_sock (cfg s)))]\<rparr>"
  "init_udp_session_map K s = (0, s1) \<Longrightarrow> \<exists>k. s1 = s\<lparr>tick := k, sess_map := Some (\<lambda>_ _. Bucket None None)\<rparr>"
  "init_ipv4_map K s = (0, s1) \<Longrightarrow> \<exists>k. s1 = s\<lparr>tick := k, ipv4_map := (\<lambda>_ _. 0)\<rparr>"
  by (auto simp: init_udp_session_array_def init_udp_session_map_def init_ipv4_map_def sys_call_def Let_def split: if_splits)

lemma stack_step:
  "\<exists>r s1. init_udp_session_stack K s = Some (r, s1) \<and> (r = 0 \<longrightarrow> (\<exists>k stk. s1 = s\<lparr>tick := k, sess_stk := stk\<rparr>
     \<and> stk_ok stk \<and> stk_list stk = map word_of_nat [0..<unat (max_conn (cfg_sock (cfg s)))]
     \<and> max_sp stk = max_conn (cfg_sock (cfg s))))"
proof -
  let ?n = "max_conn (cfg_sock (cfg s))"
  obtain stk where i: "bt_stack_init True ?n = Some stk" by (simp add: bt_stack_init_def)
  then have so: "stk_ok stk" "stk_list stk = []" "max_sp stk = ?n" using bt_init_ok by blast+
  then obtain stk' where p: "push_slots (unat ?n) stk = Some stk'" "stk_ok stk'"
      "stk_list stk' = map word_of_nat [0..<unat ?n]" "max_sp stk' = ?n"
    using push_slots_list [OF so(1), of "unat ?n" "unat ?n"] by auto
  show ?thesis
    using i p by (cases "k_malloc K (tick s)")
      (auto simp: init_udp_session_stack_def sys_call_def Let_def bt_stack_init_def)
qed

lemma session_part:
  assumes "early (zero_state c) s0"
    and r: "seq_init (\<lambda>s. Some (init_ipv4_map K s)) (seq_init (init_udp_session_stack K)
         (seq_init (\<lambda>s. Some (init_udp_session_map K s)) (Some (init_udp_session_array K s0)))) = Some r"
  shows "fst r = 0 \<longrightarrow> booted c (snd r)"
proof
  assume z: "fst r = 0"
  note f = early_fields [OF assms(1)]
  have c: "cfg s0 = c" using f by (simp add: zero_state_def)
  obtain s3 where s3: "seq_init (init_udp_session_stack K) (seq_init (\<lambda>s. Some (init_udp_session_map K s))
      (Some (init_udp_session_array K s0))) = Some (0, s3)" and 4: "init_ipv4_map K s3 = (0, snd r)"
    using seq_init_zero [OF r z] z by (cases r) auto
  obtain s2 where s2: "seq_init (\<lambda>s. Some (init_udp_session_map K s)) (Some (init_udp_session_array K s0)) = Some (0, s2)"
      and 3: "init_udp_session_stack K s2 = Some (0, s3)"
    using seq_init_zero [OF s3] by auto
  obtain s1 where 1: "init_udp_session_array K s0 = (0, s1)" and 2: "init_udp_session_map K s1 = (0, s2)"
    using seq_init_zero [OF s2] by auto
  obtain k1 where e1: "s1 = s0\<lparr>tick := k1, sess_arr := map (\<lambda>i. reset_udp_session (word_of_nat i)) [0..<unat (max_conn (cfg_sock c))]\<rparr>"
    using session_steps(1) [OF 1] c by blast
  obtain k2 where e2: "s2 = s1\<lparr>tick := k2, sess_map := Some (\<lambda>_ _. Bucket None None)\<rparr>"
    using session_steps(2) [OF 2] by blast
  obtain k3 stk where e3: "s3 = s2\<lparr>tick := k3, sess_stk := stk\<rparr>" "stk_ok stk"
      "stk_list stk = map word_of_nat [0..<unat (max_conn (cfg_sock (cfg s2)))]" "max_sp stk = max_conn (cfg_sock (cfg s2))"
    using stack_step [of K s2] 3 by auto
  obtain k4 where e4: "snd r = s3\<lparr>tick := k4, ipv4_map := (\<lambda>_ _. 0)\<rparr>"
    using session_steps(3) [OF 4] by blast
  have s: "snd r = s0\<lparr>tick := k4, sess_arr := map (\<lambda>i. reset_udp_session (word_of_nat i)) [0..<unat (max_conn (cfg_sock c))],
      sess_map := Some (\<lambda>_ _. Bucket None None), sess_stk := stk, ipv4_map := (\<lambda>_ _. 0)\<rparr>"
    using e1 e2 e3(1) e4 by simp
  have c2: "cfg s2 = c" using e1 e2 c by simp
  have "srv_inv (snd r) \<and> conn (snd r) = {}"
    by (rule fresh_slots_inv [of _ "max_conn (cfg_sock c)"])
      (use s e3 c2 f c in \<open>simp_all add: zero_state_def\<close>)
  then show "booted c (snd r)" using s f c by (simp add: booted_def zero_state_def)
qed

lemma seq_init_some: "(\<And>s. \<exists>y. f s = Some y) \<Longrightarrow> \<exists>y. x = Some y \<Longrightarrow> \<exists>y. seq_init f x = Some y"
  by (auto simp: seq_init_def)

lemma server_init_returns: "\<exists>ret s. server_init K s0 = Some (ret, s)"
proof -
  have "\<exists>y. init_udp_session_stack K s = Some y" for s using stack_step [of K s] by blast
  then have "\<exists>y. server_init K s0 = Some y"
    unfolding server_init_def by (intro seq_init_some) blast+
  then show ?thesis by auto
qed

lemma server_init_chain:
  assumes "server_init K s = Some (0, s')"
  obtains s0 s1 s2 s3 s4 s5 where "init_state K s = (0, s0)" "init_socket K s0 = (0, s1)" "init_iface K s1 = (0, s2)"
    "init_udp_session_array K s2 = (0, s3)" "init_udp_session_map K s3 = (0, s4)"
    "init_udp_session_stack K s4 = Some (0, s5)" "init_ipv4_map K s5 = (0, s')"
  using assms unfolding server_init_def by (auto dest!: seq_init_zero)

lemma server_init_booted:
  assumes "server_init K (zero_state c) = Some (0, s)"
  shows "booted c s"
  using assms
proof (rule server_init_chain)
  fix s0 s1 s2 s3 s4 s5
  assume c: "init_state K (zero_state c) = (0, s0)" "init_socket K s0 = (0, s1)" "init_iface K s1 = (0, s2)"
    "init_udp_session_array K s2 = (0, s3)" "init_udp_session_map K s3 = (0, s4)"
    "init_udp_session_stack K s4 = Some (0, s5)" "init_ipv4_map K s5 = (0, s)"
  have "early (zero_state c) s0" "early s0 s1" "early s1 s2"
    using init_state_early [of "zero_state c" K] init_socket_early [of s0 K] init_iface_early [of s1 K] c by simp_all
  then have "early (zero_state c) s2" using early_trans by blast
  from session_part [OF this, of K "(0, s)"] c show ?thesis by (simp add: seq_init_def)
qed

section \<open>Descriptors\<close>

definition held :: "srv_udp_state \<Rightarrow> int multiset" where
  "held s = mset (filter (\<lambda>fd. fd \<noteq> -1) (udp_fd s # tun_fds s))"

text \<open>Every descriptor that was opened is closed again or held in the state.\<close>

definition balanced :: "srv_udp_state \<Rightarrow> bool" where
  "balanced s \<longleftrightarrow> mset (opened (io s)) = mset (closed (io s)) + held s"

lemma balanced_quiet [simp]:
  "balanced (s\<lparr>tick := k\<rparr>) = balanced s" "balanced (s\<lparr>need_remove_iff := b\<rparr>) = balanced s"
  "balanced (s\<lparr>sess_arr := a\<rparr>) = balanced s" "balanced (s\<lparr>sess_map := m\<rparr>) = balanced s"
  "balanced (s\<lparr>sess_stk := q\<rparr>) = balanced s" "balanced (s\<lparr>ipv4_map := r\<rparr>) = balanced s"
  "balanced (s\<lparr>evt_loop := e\<rparr>) = balanced s" "balanced (s\<lparr>epl_threads := h\<rparr>) = balanced s"
  by (simp_all add: balanced_def held_def)

lemma set_signals_tick: "\<exists>k. snd (set_signals K n s) = s\<lparr>tick := k\<rparr>"
proof (induction n arbitrary: s)
  case 0
  show ?case by (intro exI [of _ "tick s"]) simp
next
  case (Suc n)
  then show ?case using Suc.IH [of "s\<lparr>tick := tick s + 1\<rparr>"] by (auto simp: sys_call_def)
qed

lemma set_sockopts_tick: "\<exists>k. snd (set_sockopts K n s) = s\<lparr>tick := k\<rparr>"
proof (induction n arbitrary: s)
  case 0
  show ?case by (intro exI [of _ "tick s"]) simp
next
  case (Suc n)
  then show ?case using Suc.IH [of "s\<lparr>tick := tick s + 1\<rparr>"] by (auto simp: sys_call_def)
qed

lemma init_state_balanced:
  assumes "init_state K (zero_state c) = (ret, s)"
  shows "balanced s \<and> udp_fd s = -1
    \<and> (ret = 0 \<longrightarrow> tun_fds s = replicate (unat (thread_num (cfg_sys (cfg s)))) (-1))"
proof -
  let ?s = "(zero_state c)\<lparr>udp_fd := -1, sig := -1\<rparr>"
  let ?t = "replicate (unat (thread_num (cfg_sys c))) (-1 :: int)"
  have sig: "\<exists>k. s' = t\<lparr>tick := k\<rparr>" if "set_signals K n t = (r, s')" for n t r s'
    using set_signals_tick [of K n t] that by simp
  have "(\<exists>k. s = ?s\<lparr>tick := k\<rparr> \<and> ret \<noteq> 0) \<or> (\<exists>k e h. s = ?s\<lparr>tick := k, tun_fds := ?t, evt_loop := e, epl_threads := h\<rparr>)"
    using assms by (auto simp: init_state_def alloc_tun_fds_array_def select_event_loop_def Let_def zero_state_def
        split: if_splits dest!: sig)
  then show ?thesis by (auto simp: balanced_def held_def zero_state_def)
qed

lemma init_socket_balanced:
  assumes "balanced s" "udp_fd s = -1" "init_socket K s = (ret, s')"
  shows "balanced s' \<and> tun_fds s' = tun_fds s \<and> cfg s' = cfg s"
proof -
  define fd where "fd = k_sys K (tick s)"
  obtain ret1 k where so: "socket_setup K (io_event (Open fd) (s\<lparr>tick := tick s + 1\<rparr>))
      = (ret1, (io_event (Open fd) s)\<lparr>tick := k\<rparr>)"
    using set_sockopts_tick [of K 4 "io_event (Open fd) (s\<lparr>tick := tick s + 1\<rparr>)"]
    by (cases "socket_setup K (io_event (Open fd) (s\<lparr>tick := tick s + 1\<rparr>))") (auto simp: socket_setup_def io_event_def)
  show ?thesis
    using assms so by (auto simp: init_socket_def sys_call_def Let_def fd_def [symmetric] balanced_def held_def
        io_event_def split: if_splits)
qed

lemma tun_alloc_log:
  assumes "tun_alloc K dtf d n = (fd, dtf', n', l)"
  shows "mset (opened l) = mset (closed l) + (if fd < 0 then {#} else {#fd#})"
  using assms by (auto simp: tun_alloc_def tun_open_def Let_def split: if_splits)

lemma held_upd:
  assumes "i < length (tun_fds s)"
  shows "held (s\<lparr>tun_fds := (tun_fds s)[i := v]\<rparr>) + (if tun_fds s ! i \<noteq> -1 then {#tun_fds s ! i#} else {#})
    = held s + (if v \<noteq> -1 then {#v#} else {#})"
proof -
  have "mset (filter P (xs[i := v])) + (if P (xs ! i) then {#xs ! i#} else {#})
      = mset (filter P xs) + (if P v then {#v#} else {#})" if "i < length xs" for P and xs :: "int list"
    using that
  proof (induction xs arbitrary: i)
    case (Cons x xs)
    show ?case
    proof (cases i)
      case (Suc k)
      then show ?thesis using Cons.IH [of k] Cons.prems by (auto split: if_splits)
    qed auto
  qed simp
  from this [of "tun_fds s" "\<lambda>fd. fd \<noteq> -1"] assms show ?thesis by (auto simp: held_def)
qed

lemma close_tuns_length: "length (tun_fds (close_tuns i s)) = length (tun_fds s)"
  by (induction i arbitrary: s) (simp_all add: io_event_def)

lemma close_tuns_balanced:
  "balanced s \<Longrightarrow> i \<le> length (tun_fds s) \<Longrightarrow> \<forall>j < i. tun_fds s ! j \<noteq> -1 \<Longrightarrow> balanced (close_tuns i s)"
proof (induction i arbitrary: s)
  case (Suc i)
  let ?s = "(io_event (Close (tun_fds s ! i)) s)\<lparr>tun_fds := (tun_fds s)[i := -1]\<rparr>"
  have "held (s\<lparr>tun_fds := (tun_fds s)[i := -1]\<rparr>) + {#tun_fds s ! i#} = held s"
    using held_upd [of i s "-1"] Suc.prems by auto
  then have "balanced ?s" using Suc.prems(1) by (auto simp: balanced_def io_event_def held_def)
  then show ?case using Suc by simp
qed simp

lemma init_tuns_balanced:
  "balanced s \<Longrightarrow> length (tun_fds s) = n \<Longrightarrow> \<forall>j < i. tun_fds s ! j \<noteq> -1 \<Longrightarrow> \<forall>j. i \<le> j \<and> j < n \<longrightarrow> tun_fds s ! j = -1
    \<Longrightarrow> i \<le> n \<Longrightarrow> init_tuns K [i..<n] dtf ret s = (r, ok, s')
    \<Longrightarrow> balanced s' \<and> length (tun_fds s') = n \<and> (ok \<longrightarrow> (\<forall>j < n. tun_fds s' ! j \<noteq> -1))"
proof (induction "n - i" arbitrary: i s dtf ret)
  case 0
  then show ?case by auto
next
  case (Suc d)
  then have i: "i < n" and upt: "[i..<n] = i # [Suc i..<n]" by (simp_all add: upt_conv_Cons)
  obtain fd dtf' k l where ta: "tun_alloc K dtf (iface_dev (cfg_iface (cfg s))) (tick s) = (fd, dtf', k, l)"
    by (metis prod.exhaust)
  note lg = tun_alloc_log [OF ta]
  let ?s1 = "s\<lparr>tick := k, io := io s @ l\<rparr>"
  show ?case
  proof (cases "fd < 0")
    case True
    have b: "balanced ?s1" using Suc.prems(1) lg True by (simp add: balanced_def held_def ac_simps)
    have "r = fd \<and> \<not> ok \<and> s' = close_tuns i ?s1" using Suc.prems(6) True unfolding upt by (simp add: ta Let_def)
    moreover have "balanced (close_tuns i ?s1)"
      by (rule close_tuns_balanced [OF b]) (use Suc.prems i in simp_all)
    ultimately show ?thesis using Suc.prems(2) by (simp add: close_tuns_length)
  next
    case False
    obtain ret1 k1 where nb: "fd_set_nonblock K k = (ret1, k1)" by fastforce
    have step: "balanced s' \<and> length (tun_fds s') = n \<and> (ok \<longrightarrow> (\<forall>j < n. tun_fds s' ! j \<noteq> -1))"
      if "init_tuns K [Suc i..<n] dtf' ret2 (?s1\<lparr>tick := k2, tun_fds := (tun_fds s)[i := fd]\<rparr>) = (r, ok, s')" for ret2 k2
    proof -
      let ?s2 = "?s1\<lparr>tick := k2, tun_fds := (tun_fds s)[i := fd]\<rparr>"
      have "held (s\<lparr>tun_fds := (tun_fds s)[i := fd]\<rparr>) = held s + {#fd#}"
        using held_upd [of i s fd] Suc.prems i False by auto
      then have "balanced ?s2" using Suc.prems(1) lg False by (simp add: balanced_def held_def ac_simps)
      then show ?thesis
        using that Suc.hyps(1) [of "Suc i" ?s2 dtf' ret2] Suc.hyps(2) Suc.prems i False
        by (auto simp: nth_list_update)
    qed
    show ?thesis
    proof (cases "evt_loop s \<noteq> EVTL_IO_URING \<and> ret1 < 0")
      case True
      let ?s2 = "io_event (Close fd) (?s1\<lparr>tick := k1\<rparr>)"
      have b: "balanced ?s2" using Suc.prems(1) lg False by (simp add: balanced_def held_def io_event_def ac_simps)
      have "\<not> ok \<and> s' = close_tuns i ?s2" using Suc.prems(6) False True unfolding upt by (simp add: ta nb Let_def)
      moreover have "balanced (close_tuns i ?s2)"
        by (rule close_tuns_balanced [OF b]) (use Suc.prems i in \<open>simp_all add: io_event_def\<close>)
      ultimately show ?thesis using Suc.prems(2) by (simp add: close_tuns_length io_event_def)
    next
      case go: False
      show ?thesis
      proof (cases "evt_loop s = EVTL_IO_URING")
        case True
        let ?t = "s\<lparr>tick := k, io := io s @ l, tun_fds := (tun_fds s)[i := fd]\<rparr>"
        have "init_tuns K [Suc i..<n] dtf' ret ?t = (r, ok, s')"
          using True Suc.prems(6) False unfolding upt by (simp add: ta Let_def)
        moreover have "?t = ?s1\<lparr>tick := k, tun_fds := (tun_fds s)[i := fd]\<rparr>" by (cases s) simp
        ultimately show ?thesis by (intro step [of ret k]) (rule trans [OF arg_cong], rule sym)
      next
        case False
        then show ?thesis using step [of ret1 k1] go Suc.prems(6) \<open>\<not> fd < 0\<close> unfolding upt by (simp add: ta nb Let_def)
      qed
    qed
  qed
qed

lemma iface_log:
  assumes "teavpn_iface_toggle K iface up q n = (ok, n', l)"
  shows "opened l = [] \<and> closed l = []"
  using toggle_events [OF assms] by (induction l) (auto split: io.splits)

lemma init_iface_balanced:
  assumes "balanced s" "tun_fds s = replicate (unat (thread_num (cfg_sys (cfg s)))) (-1)" "init_iface K s = (ret, s')"
  shows "balanced s'"
proof (cases "iface_dev (cfg_iface (cfg s)) = []")
  case True
  then show ?thesis using assms by (simp add: init_iface_def)
next
  case False
  let ?n = "unat (thread_num (cfg_sys (cfg s)))"
  obtain r ok s1 where t: "init_tuns K [0..<?n] ''/dev/net/tun'' 0 s = (r, ok, s1)" by (metis prod.exhaust)
  have b: "balanced s1" using init_tuns_balanced [OF assms(1) _ _ _ _ t] assms(2) by simp
  obtain up n l where u: "teavpn_iface_up K (iface_iff (cfg_iface (cfg s1))) (tick s1) = (up, n, l)" by (metis prod.exhaust)
  have "opened l = [] \<and> closed l = []" using u iface_log by (auto simp: teavpn_iface_up_def)
  then have "balanced (s1\<lparr>tick := n, io := io s1 @ l\<rparr>)" using b by (simp add: balanced_def held_def)
  then show ?thesis using assms(3) False t u b by (auto simp: init_iface_def Let_def split: if_splits)
qed

lemma balanced_session_steps:
  "balanced s \<Longrightarrow> balanced (snd (init_udp_session_array K s))"
  "balanced s \<Longrightarrow> balanced (snd (init_udp_session_map K s))"
  "balanced s \<Longrightarrow> init_udp_session_stack K s = Some r \<Longrightarrow> balanced (snd r)"
  "balanced s \<Longrightarrow> balanced (snd (init_ipv4_map K s))"
  by (auto simp: init_udp_session_array_def init_udp_session_map_def init_udp_session_stack_def init_ipv4_map_def
      sys_call_def Let_def bind_eq_Some_conv split: if_splits option.splits)

lemma seq_init_keeps:
  assumes "seq_init f x = Some (ret, s')" and "\<And>r t. x = Some (r, t) \<Longrightarrow> P t"
    and "\<And>t r. x = Some (0, t) \<Longrightarrow> P t \<Longrightarrow> f t = Some r \<Longrightarrow> P (snd r)"
  shows "P s'"
  using assms by (fastforce simp: seq_init_def bind_eq_Some_conv split: if_splits)

lemma server_init_balanced:
  assumes "server_init K (zero_state c) = Some (ret, s)"
  shows "balanced s"
proof -
  let ?x1 = "seq_init (\<lambda>s. Some (init_socket K s)) (Some (init_state K (zero_state c)))"
  let ?x2 = "seq_init (\<lambda>s. Some (init_iface K s)) ?x1"
  have 0: "balanced t \<and> udp_fd t = -1 \<and> (r = 0 \<longrightarrow> tun_fds t = replicate (unat (thread_num (cfg_sys (cfg t)))) (-1))"
    if "Some (init_state K (zero_state c)) = Some (r, t)" for r t
    using that init_state_balanced [of K c r t] by simp
  have 1: "balanced t \<and> (r = 0 \<longrightarrow> tun_fds t = replicate (unat (thread_num (cfg_sys (cfg t)))) (-1))"
    if x: "?x1 = Some (r, t)" for r t
  proof -
    obtain r0 t0 where i: "init_state K (zero_state c) = (r0, t0)" by fastforce
    show ?thesis
    proof (cases "r0 = 0")
      case True
      then have "init_socket K t0 = (r, t)" using x i by (simp add: seq_init_def)
      then show ?thesis using 0 [of r0 t0] i True init_socket_balanced [of t0 K r t] by simp
    next
      case False
      then show ?thesis using x i 0 [of r0 t0] by (simp add: seq_init_def)
    qed
  qed
  have 2: "balanced t" if "?x2 = Some (r, t)" for r t
  proof (rule seq_init_keeps [where P = balanced, OF that])
    show "balanced t" if "?x1 = Some (r, t)" for r t using 1 [OF that] by simp
    show "balanced (snd q)" if "?x1 = Some (0, t)" "balanced t" "Some (init_iface K t) = Some q" for t q
      using 1 [OF that(1)] that(3) init_iface_balanced [of t K "fst q" "snd q"] by simp
  qed
  have 3: "balanced t" if "seq_init (\<lambda>s. Some (init_udp_session_array K s)) ?x2 = Some (r, t)" for r t
    by (rule seq_init_keeps [where P = balanced, OF that]) (metis 2 balanced_session_steps(1) option.inject)+
  have 4: "balanced t" if "seq_init (\<lambda>s. Some (init_udp_session_map K s))
      (seq_init (\<lambda>s. Some (init_udp_session_array K s)) ?x2) = Some (r, t)" for r t
    by (rule seq_init_keeps [where P = balanced, OF that]) (metis 3 balanced_session_steps(2) option.inject)+
  have 5: "balanced t" if "seq_init (init_udp_session_stack K) (seq_init (\<lambda>s. Some (init_udp_session_map K s))
      (seq_init (\<lambda>s. Some (init_udp_session_array K s)) ?x2)) = Some (r, t)" for r t
    by (rule seq_init_keeps [where P = balanced, OF that]) (metis 4 balanced_session_steps(3) option.inject)+
  show ?thesis
    by (rule seq_init_keeps [where P = balanced, OF assms [unfolded server_init_def]]) (metis 5 balanced_session_steps(4) option.inject)+
qed

lemma destroy_balanced:
  assumes "balanced s" "\<not> threads_wont_exit s"
  shows "mset (opened (io (destroy_state s))) = mset (closed (io (destroy_state s)))"
proof -
  have f: "opened (io (fold (\<lambda>fd s. if fd = -1 then s else io_event (Close fd) s) fds t)) = opened (io t)
    \<and> closed (io (fold (\<lambda>fd s. if fd = -1 then s else io_event (Close fd) s) fds t))
      = closed (io t) @ filter (\<lambda>fd. fd \<noteq> -1) fds" for fds t
    by (induction fds arbitrary: t) (simp_all add: io_event_def)
  have u: "opened (io (close_udp_fd s)) = opened (io s)" "tun_fds (close_udp_fd s) = tun_fds s"
      "closed (io (close_udp_fd s)) = closed (io s) @ filter (\<lambda>fd. fd \<noteq> -1) [udp_fd s]"
    by (simp_all add: close_udp_fd_def io_event_def)
  show ?thesis
    using assms f [of "tun_fds s" "close_udp_fd s"] u
    by (simp add: destroy_state_def close_fds_state_def close_tun_fds_def balanced_def held_def ac_simps)
qed
lemma server_init_keeps:
  assumes "server_init K s = Some (ret, s')" and "P (snd (init_state K s))"
    and f: "\<And>t. P t \<Longrightarrow> P (snd (init_socket K t))" "\<And>t. P t \<Longrightarrow> P (snd (init_iface K t))"
      "\<And>t. P t \<Longrightarrow> P (snd (init_udp_session_array K t))" "\<And>t. P t \<Longrightarrow> P (snd (init_udp_session_map K t))"
      "\<And>t q. P t \<Longrightarrow> init_udp_session_stack K t = Some q \<Longrightarrow> P (snd q)" "\<And>t. P t \<Longrightarrow> P (snd (init_ipv4_map K t))"
  shows "P s'"
proof -
  define Q where "Q x \<longleftrightarrow> (\<forall>r t. x = Some (r, t) \<longrightarrow> P t)" for x :: "(int \<times> srv_udp_state) option"
  have w: "Q (seq_init g x)" if "\<And>t. P t \<Longrightarrow> Q (g t)" "Q x" for g x
    using that by (cases x) (auto simp: seq_init_def Q_def split: if_splits)
  have p: "Q (Some q) = P (snd q)" for q by (cases q) (simp add: Q_def)
  have st: "Q (init_udp_session_stack K t)" if "P t" for t using f(5) [OF that] by (force simp: Q_def)
  have "Q (server_init K s)"
    unfolding server_init_def by (intro w st) (simp_all add: p assms(2) f)
  then show ?thesis using assms(1) by (simp add: Q_def)
qed

text \<open>The flags of a state that start-up does not touch, also when it fails.\<close>

lemma server_init_flag:
  assumes "server_init K s = Some (ret, s')"
  shows "threads_wont_exit s' = threads_wont_exit s"
proof -
  let ?P = "\<lambda>t. threads_wont_exit t = threads_wont_exit s"
  have stack: "?P (snd q)" if "?P t" "init_udp_session_stack K t = Some q" for t q
    using that by (auto simp: init_udp_session_stack_def sys_call_def Let_def bind_eq_Some_conv split: if_splits option.splits)
  have "?P (snd (init_state K s))"
    using early_fields(5) [OF init_state_early] .
  moreover have "?P t \<Longrightarrow> ?P (snd (init_socket K t))" "?P t \<Longrightarrow> ?P (snd (init_iface K t))" for t
    using early_fields(5) [OF init_socket_early [of t K]] early_fields(5) [OF init_iface_early [of t K]] by simp_all
  moreover have "?P t \<Longrightarrow> ?P (snd (init_udp_session_array K t))" "?P t \<Longrightarrow> ?P (snd (init_udp_session_map K t))"
      "?P t \<Longrightarrow> ?P (snd (init_ipv4_map K t))" for t
    by (simp_all add: init_udp_session_array_def init_udp_session_map_def init_ipv4_map_def sys_call_def Let_def)
  ultimately show ?thesis
    using stack by (intro server_init_keeps [OF assms, of ?P])
qed

lemma evt_loop_steps [simp]:
  "evt_loop (snd (sys_call K s)) = evt_loop s" "evt_loop (io_event x s) = evt_loop s"
  "evt_loop (snd (set_signals K n s)) = evt_loop s" "evt_loop (snd (set_sockopts K n s)) = evt_loop s"
  "evt_loop (close_tuns i s) = evt_loop s"
proof -
  show "evt_loop (snd (sys_call K s)) = evt_loop s" by (simp add: sys_call_def)
  show "evt_loop (io_event x s) = evt_loop s" by (simp add: io_event_def)
  show "evt_loop (snd (set_signals K n s)) = evt_loop s" using set_signals_tick [of K n s] by auto
  show "evt_loop (snd (set_sockopts K n s)) = evt_loop s" using set_sockopts_tick [of K n s] by auto
  show "evt_loop (close_tuns i s) = evt_loop s" by (induction i arbitrary: s) (simp_all add: io_event_def)
qed

lemma init_tuns_evt_loop [simp]: "evt_loop (snd (snd (init_tuns K is dtf ret s))) = evt_loop s"
  by (induction K "is" dtf ret s rule: init_tuns.induct) (auto simp: Let_def split: prod.split)
lemma init_iface_evt_loop [simp]: "evt_loop (snd (init_iface K s)) = evt_loop s"
proof -
  have "evt_loop s1 = evt_loop s" if "init_tuns K is dtf r s = (ret, ok, s1)" for "is" dtf r ret ok s1
    using init_tuns_evt_loop [of K "is" dtf r s] that by simp
  then show ?thesis by (auto simp: init_iface_def Let_def split: prod.split)
qed

lemma init_socket_evt_loop [simp]: "evt_loop (snd (init_socket K s)) = evt_loop s"
proof -
  have "evt_loop t = evt_loop s" if "sys_call K s = (r, t)" for r t s using evt_loop_steps(1) [of K s] that by simp
  moreover have "evt_loop t = evt_loop s" if "set_sockopts K n s = (r, t)" for r t s n
    using evt_loop_steps(4) [of K n s] that by simp
  ultimately show ?thesis
    by (fastforce simp: init_socket_def socket_setup_def Let_def split: prod.split)
qed

lemma server_init_evt_loop:
  assumes "server_init K s = Some (0, s')"
  shows "evt_loop s' \<noteq> EVTL_NOP"
  using assms
proof (rule server_init_chain)
  fix s0 s1 s2 s3 s4 s5
  assume c: "init_state K s = (0, s0)" "init_socket K s0 = (0, s1)" "init_iface K s1 = (0, s2)"
    "init_udp_session_array K s2 = (0, s3)" "init_udp_session_map K s3 = (0, s4)"
    "init_udp_session_stack K s4 = Some (0, s5)" "init_ipv4_map K s5 = (0, s')"
  have "evt_loop s0 \<noteq> EVTL_NOP"
  proof -
    have "evt_loop s0 \<in> {EVTL_EPOLL, EVTL_IO_URING}" if "set_signals K 4 (t\<lparr>evt_loop := EVTL_EPOLL, epl_threads := []\<rparr>) = (0, s0)
        \<or> set_signals K 4 (t\<lparr>evt_loop := EVTL_IO_URING\<rparr>) = (0, s0)" for t
      using that by (auto dest!: arg_cong [where f = "\<lambda>x. evt_loop (snd x)"])
    then show ?thesis
      using c(1) by (fastforce simp: init_state_def select_event_loop_def Let_def split: prod.splits if_splits)
  qed
  moreover have "evt_loop s1 = evt_loop s0" "evt_loop s2 = evt_loop s1"
    using init_socket_evt_loop [of K s0] init_iface_evt_loop [of K s1] c by simp_all
  moreover have "evt_loop s5 = evt_loop s2"
    using session_steps(1) [OF c(4)] session_steps(2) [OF c(5)] stack_step [of K s4] c(6) by auto
  ultimately show ?thesis using session_steps(3) [OF c(7)] by auto
qed
section \<open>Properties\<close>

lemma mreach_of_rtrancl:
  assumes "(mstep K)\<^sup>*\<^sup>* m0 m" "teavpn2_udp_server_epoll K s = Some m0"
  shows "mreach K s m"
  using assms by (induction rule: rtranclp_induct) (auto intro: mreach.intros)

lemma server_run_machine:
  assumes "teavpn2_server_udp_run K c = Some (Inr m0)"
  obtains s where "booted c s" "teavpn2_udp_server_epoll K s = Some m0"
  using assms server_init_booted [of K c]
  by (fastforce simp: teavpn2_server_udp_run_def run_server_event_loop_def bind_eq_Some_conv split: if_splits event_loop_t.splits)

lemma server_run_some:
  assumes "1 \<le> thread_num (cfg_sys c)"
  shows "\<exists>r. teavpn2_server_udp_run K c = Some r"
proof -
  obtain ret s where i: "server_init K (zero_state c) = Some (ret, s)" using server_init_returns by blast
  have ep: "\<exists>m. teavpn2_udp_server_epoll K s = Some m" if "ret = 0"
    using assms server_init_booted [of K c s] i that
    by (auto simp: teavpn2_udp_server_epoll_def init_epoll_thread_array_def booted_def Let_def not_less split: prod.split)
  show ?thesis
    using i ep server_init_evt_loop [of K "zero_state c" s]
    by (cases "evt_loop s") (auto simp: teavpn2_server_udp_run_def run_server_event_loop_def)
qed

lemma server_run_failed: "teavpn2_server_udp_run K c = Some (Inl (ret, s)) \<Longrightarrow> ret \<noteq> 0"
  by (auto simp: teavpn2_server_udp_run_def run_server_event_loop_def bind_eq_Some_conv split: if_splits event_loop_t.splits)

lemma server_run_reach:
  assumes "teavpn2_server_udp_run K c = Some (Inr m0)" and K: "sendto_errno K" and r: "(mstep K)\<^sup>*\<^sup>* m0 m"
  shows "srv_inv (m_srv m)"
  using assms(1)
proof (rule server_run_machine)
  fix s assume "booted c s" "teavpn2_udp_server_epoll K s = Some m0"
  then show ?thesis using mreach_minv [OF mreach_of_rtrancl [OF r] K] by (simp add: booted_def minv_def)
qed

text \<open>
  C27: from the configuration to any moment of the run.  With at least one thread configured the
  server starts without panic, whatever the operating system answers: it ends with an error or
  enters the event loop.  Then in every state that whole rounds of the workers, whole scans of the
  reaper, the steps of the main thread and signals can reach, in any order but none inside of a
  round or scan, the session table, the free-slot stack, the address map and the routes agree
  with each other.  (Inside of a round the operations of the session table interleave; theory
  \<open>Srv_Atomic\<close> shows for which interleavings the table stays intact, and a race that breaks it.)
\<close>

theorem server_run_invariant:
  assumes "sendto_errno K" and "1 \<le> thread_num (cfg_sys c)"
  shows "\<exists>r. teavpn2_server_udp_run K c = Some r
    \<and> (case r of Inl (ret, s) \<Rightarrow> ret \<noteq> 0 | Inr m0 \<Rightarrow> \<forall>m. (mstep K)\<^sup>*\<^sup>* m0 m \<longrightarrow> srv_inv (m_srv m))"
proof -
  obtain r where r: "teavpn2_server_udp_run K c = Some r" using server_run_some [OF assms(2), of K] by blast
  then show ?thesis
    using server_run_failed [of K c] server_run_reach [OF _ assms(1), of c] by (cases r) auto
qed

text \<open>
  C28: a failed start-up leaks no descriptor.  If \<open>teavpn2_server_udp_run\<close> ends before its event
  loop, at whichever step and with whichever answers of the operating system, its result is an
  error and the descriptors it has closed are exactly those it had opened, with multiplicity.
\<close>

theorem failed_start_closes:
  assumes "teavpn2_server_udp_run K c = Some (Inl (ret, s))"
  shows "ret \<noteq> 0 \<and> mset (opened (io s)) = mset (closed (io s))"
proof (cases "k_malloc K 0")
  case True
  obtain r t where i: "server_init K (zero_state c) = Some (r, t)" using server_init_returns by blast
  have "\<not> threads_wont_exit t" using server_init_flag [OF i] by (simp add: zero_state_def)
  then have "mset (opened (io (destroy_state t))) = mset (closed (io (destroy_state t)))"
    using destroy_balanced server_init_balanced [OF i] by blast
  then show ?thesis
    using assms True i by (auto simp: teavpn2_server_udp_run_def run_server_event_loop_def bind_eq_Some_conv split: if_splits event_loop_t.splits)
next
  case False
  then show ?thesis using assms by (auto simp: teavpn2_server_udp_run_def run_server_event_loop_def zero_state_def)
qed

text \<open>A configuration with one thread and the interface tun0 at 10.5.5.1/24.\<close>

definition sample_cfg :: srv_cfg where
  "sample_cfg = \<lparr>cfg_sys = \<lparr>cfg_file = [], data_dir = [], thread_num = 1, verbose_level = 0\<rparr>,
     cfg_sock = \<lparr>use_encryption = False, backlog = 10, sock_ty = SOCK_UDP, bind_addr = ''0.0.0.0'',
       bind_port = 44444, max_conn = 2, event_loop = ''epoll'', ssl_cert = [], ssl_priv_key = []\<rparr>,
     cfg_iface = \<lparr>iface_dev = ''tun0'', iface_mtu = 1450, iface_iff = sample_iface\<rparr>\<rparr>"

lemma sample_up:
  assumes "k_access K = (\<lambda>_ _. 0)" "k_system K = (\<lambda>_ _. 0)"
  shows "fst (teavpn_iface_up K sample_iface n)"
proof -
  have ip: "find_ip_cmd K n = (Some ''/bin/ip'', n + 1)" for n
    by (simp add: find_ip_cmd_def ip_bin_def assms)
  have nm: "inet_pton (take 16 (ipv4_netmask sample_iface)) = Some 0x00ffffff"
    and a: "inet_pton (take 16 (ipv4 sample_iface)) = Some 0x0105050a"
    by (simp_all add: sample_iface_def libc_eval)
  have l: "length (escapeshellarg (dev sample_iface)) < 2 * IFNAMSIZ" "ipv4_pub sample_iface = []"
    by (simp_all add: sample_iface_def escapeshellarg_def IFNAMSIZ_def)
  note s = exec_cmd_short [OF _ ip_bin_short [OF ip], of _ K]
  have k: "k_system K n c = 0" for n c by (simp add: assms)
  show ?thesis
    unfolding teavpn_iface_up_def teavpn_iface_toggle_def iface_routes_def
    by (simp add: sane_strncpy_def IPV4_LI_def nm a netmask_cidr_le ip l(2) s iface_cmds_short [OF l(1)] k Let_def)
qed
lemma silent_sys: "sys_call silent_kernel s = (0, s\<lparr>tick := tick s + 1\<rparr>)" "k_malloc silent_kernel n"
  "set_signals silent_kernel j s = (0, s\<lparr>tick := tick s + j\<rparr>)"
  "set_sockopts silent_kernel j s = (0, s\<lparr>tick := tick s + j\<rparr>)"
proof -
  show sc: "sys_call silent_kernel s = (0, s\<lparr>tick := tick s + 1\<rparr>)" for s by (simp add: sys_call_def silent_kernel_def)
  show "k_malloc silent_kernel n" by (simp add: silent_kernel_def)
  show "set_signals silent_kernel j s = (0, s\<lparr>tick := tick s + j\<rparr>)" by (induction j arbitrary: s) (simp_all add: sc)
  show "set_sockopts silent_kernel j s = (0, s\<lparr>tick := tick s + j\<rparr>)" by (induction j arbitrary: s) (simp_all add: sc)
qed

lemma silent_socket:
  assumes "event_loop (cfg_sock c) = ''epoll''"
  obtains s0 s1 where "init_state silent_kernel (zero_state c) = (0, s0)" "init_socket silent_kernel s0 = (0, s1)"
    "cfg s1 = c" "evt_loop s1 = EVTL_EPOLL" "opened (io s1) = [0]" "closed (io s1) = []" "udp_fd s1 = 0"
    "tun_fds s1 = replicate (unat (thread_num (cfg_sys c))) (-1)" "\<not> threads_wont_exit s1"
  using assms
  by (simp add: init_state_def alloc_tun_fds_array_def select_event_loop_def silent_sys init_socket_def socket_setup_def
      io_event_def zero_state_def Let_def)

lemma silent_tables:
  "\<exists>t. seq_init (\<lambda>s. Some (init_ipv4_map silent_kernel s))
       (seq_init (init_udp_session_stack silent_kernel)
         (seq_init (\<lambda>s. Some (init_udp_session_map silent_kernel s))
           (seq_init (\<lambda>s. Some (init_udp_session_array silent_kernel s)) (Some (0, s))))) = Some (0, t)
     \<and> evt_loop t = evt_loop s"
proof -
  obtain s1 where 1: "init_udp_session_array silent_kernel s = (0, s1)" "evt_loop s1 = evt_loop s"
    by (simp add: init_udp_session_array_def silent_sys Let_def)
  obtain s2 where 2: "init_udp_session_map silent_kernel s1 = (0, s2)" "evt_loop s2 = evt_loop s1"
    by (simp add: init_udp_session_map_def silent_sys Let_def)
  obtain r s3 where 3: "init_udp_session_stack silent_kernel s2 = Some (r, s3)"
      "r = 0 \<longrightarrow> (\<exists>k stk. s3 = s2\<lparr>tick := k, sess_stk := stk\<rparr>)"
    using stack_step [of silent_kernel s2] by blast
  then have "r = 0" by (auto simp: init_udp_session_stack_def silent_sys bt_stack_init_def Let_def bind_eq_Some_conv)
  then have s3: "init_udp_session_stack silent_kernel s2 = Some (0, s3)" "evt_loop s3 = evt_loop s2" using 3 by auto
  obtain s4 where 4: "init_ipv4_map silent_kernel s3 = (0, s4)" "evt_loop s4 = evt_loop s3"
    by (simp add: init_ipv4_map_def silent_sys Let_def)
  show ?thesis using 1 2 s3 4 by (simp add: seq_init_def)
qed

lemma sample_boots: "\<exists>s. server_init silent_kernel (zero_state sample_cfg) = Some (0, s) \<and> evt_loop s = EVTL_EPOLL"
proof -
  have "event_loop (cfg_sock sample_cfg) = ''epoll''" by (simp add: sample_cfg_def)
  then obtain s0 s1 where i: "init_state silent_kernel (zero_state sample_cfg) = (0, s0)" "init_socket silent_kernel s0 = (0, s1)"
    "cfg s1 = sample_cfg" "evt_loop s1 = EVTL_EPOLL" using silent_socket by metis
  have k: "k_sys silent_kernel n = 0" for n by (simp add: silent_kernel_def)
  have up: "fst (teavpn_iface_up silent_kernel sample_iface n)" for n by (rule sample_up) (simp_all add: silent_kernel_def)
  have c: "iface_dev (cfg_iface (cfg s1)) = ''tun0''" "iface_iff (cfg_iface (cfg s1)) = sample_iface"
      "thread_num (cfg_sys (cfg s1)) = 1"
    by (simp_all add: i(3)) (simp_all add: sample_cfg_def)
  have "fst (init_iface silent_kernel s1) = 0"
    using i(4) c
    by (auto simp: init_iface_def tun_alloc_def tun_open_def fd_set_nonblock_def k up Let_def
        split: prod.split dest: arg_cong [where f = fst])
  then obtain s2 where s2: "init_iface silent_kernel s1 = (0, s2)" "evt_loop s2 = EVTL_EPOLL"
    using init_iface_evt_loop [of silent_kernel s1] i by (metis prod.collapse)
  have "seq_init (\<lambda>s. Some (init_iface silent_kernel s)) (seq_init (\<lambda>s. Some (init_socket silent_kernel s))
      (Some (init_state silent_kernel (zero_state sample_cfg)))) = Some (0, s2)"
    using i s2 by (simp add: seq_init_def)
  then show ?thesis unfolding server_init_def using silent_tables [of s2] s2(2) by simp
qed

text \<open>Witness of C27: the sample server starts and enters its event loop.\<close>

theorem server_run_invariant_witness:
  "\<exists>m0. teavpn2_server_udp_run silent_kernel sample_cfg = Some (Inr m0)
     \<and> (\<forall>m. (mstep silent_kernel)\<^sup>*\<^sup>* m0 m \<longrightarrow> srv_inv (m_srv m))"
proof -
  have n: "1 \<le> thread_num (cfg_sys sample_cfg)" by (simp add: sample_cfg_def)
  obtain r where r: "teavpn2_server_udp_run silent_kernel sample_cfg = Some r"
      "case r of Inl (ret, s) \<Rightarrow> ret \<noteq> 0 | Inr m0 \<Rightarrow> \<forall>m. (mstep silent_kernel)\<^sup>*\<^sup>* m0 m \<longrightarrow> srv_inv (m_srv m)"
    using server_run_invariant [OF three_threads_start(1) n] by blast
  moreover obtain m0 where "r = Inr m0"
    using sample_boots r(1) by (auto simp: teavpn2_server_udp_run_def run_server_event_loop_def silent_sys bind_eq_Some_conv)
  ultimately show ?thesis by simp
qed

text \<open>Witness of C28: without a device name the start-up fails after the socket was bound.\<close>

theorem failed_start_closes_witness:
  "\<exists>ret s. teavpn2_server_udp_run silent_kernel (sample_cfg\<lparr>cfg_iface := (cfg_iface sample_cfg)\<lparr>iface_dev := []\<rparr>\<rparr>) = Some (Inl (ret, s))
     \<and> ret \<noteq> 0 \<and> opened (io s) = [0] \<and> mset (opened (io s)) = mset (closed (io s))"
proof -
  let ?c = "sample_cfg\<lparr>cfg_iface := (cfg_iface sample_cfg)\<lparr>iface_dev := []\<rparr>\<rparr>"
  have "event_loop (cfg_sock ?c) = ''epoll''" by (simp add: sample_cfg_def)
  then obtain s0 s1 where i: "init_state silent_kernel (zero_state ?c) = (0, s0)" "init_socket silent_kernel s0 = (0, s1)"
    "cfg s1 = ?c" "opened (io s1) = [0]" "tun_fds s1 = [-1]" "\<not> threads_wont_exit s1"
    using silent_socket [of ?c thesis] by (simp add: sample_cfg_def)
  have "init_iface silent_kernel s1 = (- EINVAL, s1)" using i(3) by (simp add: init_iface_def)
  then have "server_init silent_kernel (zero_state ?c) = Some (- EINVAL, s1)"
    using i(1,2) by (simp add: server_init_def seq_init_def)
  then have r: "teavpn2_server_udp_run silent_kernel ?c = Some (Inl (- EINVAL, destroy_state s1))"
    by (simp add: teavpn2_server_udp_run_def run_server_event_loop_def silent_sys)
  moreover have "opened (io (destroy_state s1)) = [0]"
    using i by (simp add: destroy_state_def close_fds_state_def close_tun_fds_def close_udp_fd_def io_event_def)
  ultimately show ?thesis using failed_start_closes [OF r] by blast
qed

end
