(* ===== verification/Cli_State.thy ===== *)
theory Cli_State
  imports Iface
begin

text \<open>
  The client's data: the configuration of \<^verbatim>\<open>src/teavpn2/client/common.h\<close> and the state and
  threads of \<^verbatim>\<open>src/teavpn2/client/linux/udp.h\<close>.  The fields carry the prefix \<open>c_\<close> where the
  server has a field of the same name.  \<open>None\<close> is a NULL pointer to a packet buffer; \<open>c_tick\<close>
  counts the system calls and \<open>c_io\<close> is the trace of their effects.
\<close>

section \<open>Configuration\<close>

record cli_cfg_sys =
  c_cfg_file :: string
  c_data_dir :: string
  c_thread_num :: u8
  c_verbose_level :: u8

record cli_cfg_sock =
  c_use_encryption :: bool
  c_sock_ty :: sock_type
  server_addr :: string
  server_port :: u16
  c_event_loop :: string

record cli_cfg_iface =
  override_default :: bool
  c_iface_dev :: string
  c_iff :: if_info

record cli_cfg_auth =
  c_username :: string
  c_password :: string

record cli_cfg =
  c_sys :: cli_cfg_sys
  c_sock :: cli_cfg_sock
  c_iface :: cli_cfg_iface
  c_auth :: cli_cfg_auth

section \<open>State\<close>

record cli_thread =
  ct_idx :: u16
  ct_epoll_fd :: int
  ct_epoll_timeout :: int
  ct_epoll_set :: "int list"
  ct_is_online :: bool
  ct_pkt :: "sc_pkt option"

record cli_udp_state =
  c_stop :: bool
  c_in_emergency :: bool
  c_timeout_disconnect :: bool
  c_loop_c :: u8
  c_threads_wont_exit :: bool
  c_need_remove_iff :: bool
  c_last_t :: int
  tt_is_online :: bool
  c_sig :: int
  c_evt_loop :: event_loop_t
  c_udp_fd :: int
  c_cfg :: cli_cfg
  c_n_on_threads :: u16
  c_tun_fds :: "int list"
  c_pkt :: "sc_pkt option"
  c_threads :: "cli_thread list"
  c_tick :: nat
  c_io :: "io list"

section \<open>System calls and signals\<close>

definition cli_signal_intr_handler :: "int \<Rightarrow> cli_udp_state \<Rightarrow> cli_udp_state" where
  "cli_signal_intr_handler sg s = (if c_sig s = -1 then s\<lparr>c_stop := True, c_sig := sg\<rparr> else s)"

text \<open>A system call; a signal delivered during it has run its handler when the call returns.\<close>

definition cli_call :: "kernel \<Rightarrow> cli_udp_state \<Rightarrow> cli_udp_state" where
  "cli_call K s =
     (let s1 = s\<lparr>c_tick := c_tick s + 1\<rparr> in
      case k_signal K (c_tick s) of None \<Rightarrow> s1 | Some sg \<Rightarrow> cli_signal_intr_handler sg s1)"

definition cli_event :: "io \<Rightarrow> cli_udp_state \<Rightarrow> cli_udp_state" where
  "cli_event x s = s\<lparr>c_io := c_io s @ [x]\<rparr>"

definition cli_get_unix_time :: "kernel \<Rightarrow> int \<Rightarrow> cli_udp_state \<Rightarrow> int \<times> int \<times> cli_udp_state" where
  "cli_get_unix_time K old s =
     (case k_time K (c_tick s) of Inl e \<Rightarrow> (- e, old, cli_call K s) | Inr t \<Rightarrow> (0, t, cli_call K s))"

lemma cli_call_frame [frame]:
  "c_io (cli_call K s) = c_io s" "c_pkt (cli_call K s) = c_pkt s" "c_cfg (cli_call K s) = c_cfg s"
  "c_udp_fd (cli_call K s) = c_udp_fd s" "c_tun_fds (cli_call K s) = c_tun_fds s"
  "c_threads (cli_call K s) = c_threads s" "c_evt_loop (cli_call K s) = c_evt_loop s"
  "c_need_remove_iff (cli_call K s) = c_need_remove_iff s" "c_tick (cli_call K s) = c_tick s + 1"
  "c_threads_wont_exit (cli_call K s) = c_threads_wont_exit s" "c_last_t (cli_call K s) = c_last_t s"
  "c_loop_c (cli_call K s) = c_loop_c s" "c_n_on_threads (cli_call K s) = c_n_on_threads s"
  "tt_is_online (cli_call K s) = tt_is_online s" "c_timeout_disconnect (cli_call K s) = c_timeout_disconnect s"
  by (simp_all add: cli_call_def cli_signal_intr_handler_def Let_def split: option.split)

lemma cli_event_frame [frame]:
  "c_io (cli_event x s) = c_io s @ [x]" "c_pkt (cli_event x s) = c_pkt s" "c_cfg (cli_event x s) = c_cfg s"
  "c_udp_fd (cli_event x s) = c_udp_fd s" "c_tun_fds (cli_event x s) = c_tun_fds s"
  "c_threads (cli_event x s) = c_threads s" "c_evt_loop (cli_event x s) = c_evt_loop s"
  "c_need_remove_iff (cli_event x s) = c_need_remove_iff s" "c_tick (cli_event x s) = c_tick s"
  "c_threads_wont_exit (cli_event x s) = c_threads_wont_exit s" "c_last_t (cli_event x s) = c_last_t s"
  "c_stop (cli_event x s) = c_stop s" "c_sig (cli_event x s) = c_sig s"
  "c_loop_c (cli_event x s) = c_loop_c s" "c_n_on_threads (cli_event x s) = c_n_on_threads s"
  "tt_is_online (cli_event x s) = tt_is_online s" "c_timeout_disconnect (cli_event x s) = c_timeout_disconnect s"
  by (simp_all add: cli_event_def)

end
