(* ===== verification/Cli_Proto.thy ===== *)
theory Cli_Proto
  imports Cli_State
begin

text \<open>
  The client's protocol, \<^verbatim>\<open>src/teavpn2/client/linux/udp.c\<close>: start-up, handshake,
  authentication and tear-down, one definition per function.  The functions that wait for the
  server return \<open>None\<close> when their retry loop never ends or when they would follow a NULL pointer;
  otherwise the result is the C return value with the new state.
\<close>

section \<open>The state\<close>

definition cli_alloc_tun_fds_array :: "kernel \<Rightarrow> cli_udp_state \<Rightarrow> int \<times> cli_udp_state" where
  "cli_alloc_tun_fds_array K s =
     (let nn = c_thread_num (c_sys (c_cfg s));
          s1 = s\<lparr>c_tick := c_tick s + 1\<rparr>
      in if \<not> k_malloc K (c_tick s) then (- ENOMEM, s1)
         else (0, s1\<lparr>c_tun_fds := replicate (unat nn) (-1)\<rparr>))"

definition cli_select_event_loop :: "cli_udp_state \<Rightarrow> int \<times> cli_udp_state" where
  "cli_select_event_loop s =
     (let evtl = c_event_loop (c_sock (c_cfg s)) in
      if evtl = [] \<or> evtl = ''epoll'' then (0, s\<lparr>c_evt_loop := EVTL_EPOLL, c_threads := []\<rparr>)
      else if evtl \<in> {''io_uring'', ''io uring'', ''iouring'', ''uring''} then (0, s\<lparr>c_evt_loop := EVTL_IO_URING\<rparr>)
      else (- EINVAL, s))"

text \<open>The calls of \<open>signal\<close> for SIGINT, SIGTERM, SIGHUP and SIGPIPE.\<close>

fun cli_set_signals :: "kernel \<Rightarrow> nat \<Rightarrow> cli_udp_state \<Rightarrow> int \<times> cli_udp_state" where
  "cli_set_signals K 0 s = (0, s)"
| "cli_set_signals K (Suc n) s =
     (let ret = k_sys K (c_tick s);
          s1 = s\<lparr>c_tick := c_tick s + 1\<rparr>
      in if ret < 0 then (ret, s1) else cli_set_signals K n s1)"

text \<open>The page of \<^verbatim>\<open>al4096_malloc_mmap\<close> is zeroed; its call returns \<open>-errno\<close>.\<close>

definition cli_init_state :: "kernel \<Rightarrow> cli_udp_state \<Rightarrow> int \<times> cli_udp_state" where
  "cli_init_state K s =
     (let (ret, s1) = cli_alloc_tun_fds_array K (s\<lparr>c_udp_fd := -1, c_sig := -1\<rparr>) in
      if ret \<noteq> 0 then (ret, s1)
      else
        let (ret, s2) = cli_select_event_loop s1 in
        if ret \<noteq> 0 then (ret, s2)
        else
          let ret = k_sys K (c_tick s2);
              s3 = s2\<lparr>c_tick := c_tick s2 + 1\<rparr>
          in
          if ret < 0 then (ret, s3)
          else cli_set_signals K 4 (s3\<lparr>c_pkt := Some \<lparr>pkt_len = 0, raw = (\<lambda>_. 0)\<rparr>\<rparr>))"

section \<open>Socket and interface\<close>

definition cli_sys_call :: "kernel \<Rightarrow> cli_udp_state \<Rightarrow> int \<times> cli_udp_state" where
  "cli_sys_call K s = (k_sys K (c_tick s), cli_call K s)"

text \<open>The four calls of \<open>setsockopt\<close>.\<close>

fun cli_set_sockopts :: "kernel \<Rightarrow> nat \<Rightarrow> cli_udp_state \<Rightarrow> int \<times> cli_udp_state" where
  "cli_set_sockopts K 0 s = (0, s)"
| "cli_set_sockopts K (Suc n) s =
     (case cli_sys_call K s of (ret, s1) \<Rightarrow> if ret \<noteq> 0 then (ret, s1) else cli_set_sockopts K n s1)"

definition cli_socket_setup :: "kernel \<Rightarrow> cli_udp_state \<Rightarrow> int \<times> cli_udp_state" where
  "cli_socket_setup K s = cli_set_sockopts K 4 s"

definition cli_init_socket :: "kernel \<Rightarrow> cli_udp_state \<Rightarrow> int \<times> cli_udp_state" where
  "cli_init_socket K s =
     (let sock = c_sock (c_cfg s);
          (fd, s1) = cli_sys_call K s
      in
      if fd < 0 then (fd, s1)
      else
        let (ret, s2) = cli_socket_setup K (cli_event (Open fd) s1) in
        if ret \<noteq> 0 then (ret, cli_event (Close fd) s2)
        else
          let addr = \<lparr>sin_port = htons (server_port sock), sin_addr = inet_addr (server_addr sock)\<rparr>;
              (ret, s3) = cli_sys_call K s2
          in
          if ret < 0 then (ret, cli_event (Close fd) s3)
          else (0, (cli_event (Connect fd addr) s3)\<lparr>c_udp_fd := fd\<rparr>))"

text \<open>The loop \<^verbatim>\<open>while (i--)\<close> of the error path.\<close>

fun cli_close_tuns :: "nat \<Rightarrow> cli_udp_state \<Rightarrow> cli_udp_state" where
  "cli_close_tuns 0 s = s"
| "cli_close_tuns (Suc i) s =
     cli_close_tuns i ((cli_event (Close (c_tun_fds s ! i)) s)\<lparr>c_tun_fds := (c_tun_fds s)[i := -1]\<rparr>)"

fun cli_init_tuns :: "kernel \<Rightarrow> nat list \<Rightarrow> string \<Rightarrow> int \<Rightarrow> cli_udp_state \<Rightarrow> int \<times> bool \<times> cli_udp_state" where
  "cli_init_tuns K [] dtf ret s = (ret, True, s)"
| "cli_init_tuns K (i # is) dtf ret s =
     (case tun_alloc K dtf (c_iface_dev (c_iface (c_cfg s))) (c_tick s) of
        (tun_fd, dtf', n, l) \<Rightarrow>
          let s1 = s\<lparr>c_tick := n, c_io := c_io s @ l\<rparr> in
          if tun_fd < 0 then (tun_fd, False, cli_close_tuns i s1)
          else if c_evt_loop s \<noteq> EVTL_IO_URING then
            (case fd_set_nonblock K n of
               (ret, n') \<Rightarrow>
                 let s2 = s1\<lparr>c_tick := n'\<rparr> in
                 if ret < 0 then (ret, False, cli_close_tuns i (cli_event (Close tun_fd) s2))
                 else cli_init_tuns K is dtf' ret (s2\<lparr>c_tun_fds := (c_tun_fds s2)[i := tun_fd]\<rparr>))
          else cli_init_tuns K is dtf' ret (s1\<lparr>c_tun_fds := (c_tun_fds s1)[i := tun_fd]\<rparr>))"

definition cli_init_iface :: "kernel \<Rightarrow> cli_udp_state \<Rightarrow> int \<times> cli_udp_state" where
  "cli_init_iface K s =
     (if c_iface_dev (c_iface (c_cfg s)) = [] then (- EINVAL, s)
      else case cli_init_tuns K [0..<unat (c_thread_num (c_sys (c_cfg s)))] ''/dev/net/tun'' 0 s of
        (ret, ok, s1) \<Rightarrow> if \<not> ok then (ret, s1) else (ret, s1\<lparr>c_need_remove_iff := False\<rparr>))"

section \<open>Talking to the server\<close>

definition simple_do_send_to :: "kernel \<Rightarrow> mem \<Rightarrow> nat \<Rightarrow> cli_udp_state \<Rightarrow> int \<times> cli_udp_state" where
  "simple_do_send_to K m send_len s =
     (let ret = k_sendto K (c_tick s) in (ret, cli_event (Send (mem_read m 0 send_len) ret) (cli_call K s)))"

definition simple_do_recv_from :: "kernel \<Rightarrow> sc_pkt \<Rightarrow> cli_udp_state \<Rightarrow> int \<times> sc_pkt \<times> cli_udp_state" where
  "simple_do_recv_from K pkt s =
     (case sys_recvfrom K (c_tick s) PKT_MAX_LEN of
        (ret, bs, _) \<Rightarrow>
          if ret < 0 then (ret, pkt, cli_call K s)
          else (ret, pkt\<lparr>raw := mem_write (raw pkt) 0 bs\<rparr>, cli_call K s))"

partial_function (option) poll_fd_input :: "kernel \<Rightarrow> cli_udp_state \<Rightarrow> (int \<times> cli_udp_state) option" where
  "poll_fd_input K s =
     (let ret = k_poll K (c_tick s);
          s1 = cli_call K s
      in
      if ret < 0 then
        (if ret \<noteq> - EINTR then Some (ret, s1)
         else if \<not> c_stop s1 then poll_fd_input K s1
         else Some (ret, s1))
      else if ret = 0 then Some (- ETIMEDOUT, s1)
      else Some (ret, s1))"

text \<open>The checks of a reply; they also change the buffer (the length to host order, a final NUL).\<close>

definition server_handshake_chk :: "mem \<Rightarrow> nat \<Rightarrow> int \<times> mem" where
  "server_handshake_chk m len =
     (let expected_len = SZ_HANDSHAKE in
      if pkt_type m = TSRV_PKT_CLOSE then (- ECONNRESET, m)
      else if len < PKT_MIN_LEN + expected_len then (- EBADMSG, m)
      else
        let dlen = pkt_dlen m;
            m1 = put_le16 m 2 dlen
        in
        if unat dlen \<noteq> expected_len then (- EBADMSG, m1)
        else if pkt_type m1 \<noteq> TSRV_PKT_HANDSHAKE then (- EBADMSG, m1)
        else
          let m2 = m1(35 := 0);
              cur = pkt_handshake_cur m2
          in
          if ver cur \<noteq> VERSION \<or> patch_lvl cur \<noteq> PATCHLEVEL \<or> sub_lvl cur \<noteq> SUBLEVEL
          then (- EBADMSG, m2) else (0, m2))"

definition server_auth_res_chk :: "mem \<Rightarrow> nat \<Rightarrow> int \<times> mem" where
  "server_auth_res_chk m len =
     (let expected_len = SZ_AUTH_RES in
      if pkt_type m = TSRV_PKT_CLOSE then (- ECONNRESET, m)
      else if pkt_type m = TSRV_PKT_AUTH_REJECT then (- EBADMSG, m)
      else if pkt_type m \<noteq> TSRV_PKT_AUTH_OK then (- EBADMSG, m)
      else if len < PKT_MIN_LEN + expected_len then (- EBADMSG, m)
      else
        let dlen = pkt_dlen m;
            m1 = put_le16 m 2 dlen
        in if unat dlen \<noteq> expected_len then (- EBADMSG, m1) else (0, m1))"

text \<open>Sending one prepared packet from the buffer of the state.\<close>

definition cli_send_pkt :: "kernel \<Rightarrow> (mem \<Rightarrow> mem \<times> nat) \<Rightarrow> cli_udp_state \<Rightarrow> (int \<times> cli_udp_state) option" where
  "cli_send_pkt K prep s = do {
     pkt \<leftarrow> c_pkt s;
     let (m, send_len) = prep (raw pkt);
     let (send_ret, s1) = simple_do_send_to K m send_len (s\<lparr>c_pkt := Some (pkt\<lparr>raw := m\<rparr>)\<rparr>);
     Some (if send_ret \<ge> 0 then 0 else send_ret, s1)
   }"

definition teavpn2_cli_udp_send_close_packet :: "kernel \<Rightarrow> cli_udp_state \<Rightarrow> (int \<times> cli_udp_state) option" where
  "teavpn2_cli_udp_send_close_packet K s = cli_send_pkt K (\<lambda>m. cli_pprep m TCLI_PKT_CLOSE 0 0) s"

text \<open>\<^verbatim>\<open>_do_handshake\<close> and \<^verbatim>\<open>_do_auth\<close>\<close>

definition do_handshake_once :: "kernel \<Rightarrow> cli_udp_state \<Rightarrow> (int \<times> cli_udp_state) option" where
  "do_handshake_once K s = cli_send_pkt K cli_pprep_handshake s"

definition do_auth_once :: "kernel \<Rightarrow> cli_udp_state \<Rightarrow> (int \<times> cli_udp_state) option" where
  "do_auth_once K s =
     (let auth_c = c_auth (c_cfg s) in
      cli_send_pkt K (\<lambda>m. cli_pprep_auth m (c_username auth_c) (c_password auth_c)) s)"

text \<open>The part that both waiting functions share: poll, receive, check.\<close>

definition wait_reply :: "kernel \<Rightarrow> (mem \<Rightarrow> nat \<Rightarrow> int \<times> mem) \<Rightarrow> cli_udp_state \<Rightarrow> (int \<times> cli_udp_state) option" where
  "wait_reply K chk s = do {
     (ret, s1) \<leftarrow> poll_fd_input K s;
     if ret < 0 then Some (ret, s1)
     else do {
       pkt \<leftarrow> c_pkt s1;
       let (recv_ret, pkt1, s2) = simple_do_recv_from K pkt s1;
       if recv_ret < 0 then Some (recv_ret, s2)
       else
         let (ret, m) = chk (raw pkt1) (nat recv_ret) in
         Some (ret, s2\<lparr>c_pkt := Some (pkt1\<lparr>raw := m\<rparr>)\<rparr>)
     }
   }"

definition wait_for_handshake_response :: "kernel \<Rightarrow> cli_udp_state \<Rightarrow> (int \<times> cli_udp_state) option" where
  "wait_for_handshake_response K s = wait_reply K server_handshake_chk s"

text \<open>The loop of \<open>do_handshake\<close> after the label \<open>try_again\<close>.\<close>

partial_function (option) handshake_loop :: "kernel \<Rightarrow> u8 \<Rightarrow> cli_udp_state \<Rightarrow> (int \<times> cli_udp_state) option" where
  "handshake_loop K try_count s = do {
     (ret, s1) \<leftarrow> do_handshake_once K s;
     if ret \<noteq> 0 then Some (ret, s1)
     else do {
       let n = try_count + 1;
       (ret, s2) \<leftarrow> wait_for_handshake_response K s1;
       if ret = - ETIMEDOUT \<and> n < 5 then handshake_loop K n s2
       else if ret = - ECONNRESET then
         (if n \<ge> 3 then Some (ret, s2) else handshake_loop K n s2)
       else Some (ret, s2)
     }
   }"

definition do_handshake :: "kernel \<Rightarrow> cli_udp_state \<Rightarrow> (int \<times> cli_udp_state) option" where
  "do_handshake K s = do {
     (_, s1) \<leftarrow> teavpn2_cli_udp_send_close_packet K s;
     handshake_loop K 0 s1
   }"

section \<open>Authentication\<close>

text \<open>The device name replaces the one in the packet, then the description becomes the client's.\<close>

definition bring_up_iface :: "kernel \<Rightarrow> cli_udp_state \<Rightarrow> (int \<times> cli_udp_state) option" where
  "bring_up_iface K s = do {
     pkt \<leftarrow> c_pkt s;
     let c = c_cfg s;
     let m = mem_write (raw pkt) 6 (strncpy2_bytes (c_iface_dev (c_iface c)) 16);
     let iff = get_if_info m 6;
     let iff2 = (if override_default (c_iface c)
                 then iff\<lparr>ipv4_pub := strncpy2 (server_addr (c_sock c)) 16\<rparr> else iff);
     let s1 = s\<lparr>c_pkt := Some (pkt\<lparr>raw := m\<rparr>), c_cfg := c\<lparr>c_iface := (c_iface c)\<lparr>c_iff := iff2\<rparr>\<rparr>\<rparr>;
     let (up, n, l) = teavpn_iface_up K iff2 (c_tick s1);
     let s2 = s1\<lparr>c_tick := n, c_io := c_io s1 @ l\<rparr>;
     if \<not> up then Some (- ENETDOWN, s2) else Some (0, s2\<lparr>c_need_remove_iff := True\<rparr>)
   }"

definition wait_for_auth_response :: "kernel \<Rightarrow> cli_udp_state \<Rightarrow> (int \<times> cli_udp_state) option" where
  "wait_for_auth_response K s = do {
     (ret, s1) \<leftarrow> wait_reply K server_auth_res_chk s;
     if ret = 0 then bring_up_iface K s1 else Some (ret, s1)
   }"

partial_function (option) auth_loop :: "kernel \<Rightarrow> u8 \<Rightarrow> cli_udp_state \<Rightarrow> (int \<times> cli_udp_state) option" where
  "auth_loop K try_count s = do {
     (ret, s1) \<leftarrow> do_auth_once K s;
     if ret \<noteq> 0 then Some (ret, s1)
     else do {
       (ret, s2) \<leftarrow> wait_for_auth_response K s1;
       if ret = - ETIMEDOUT \<and> try_count < 5 then auth_loop K (try_count + 1) s2
       else Some (ret, s2)
     }
   }"

definition do_auth :: "kernel \<Rightarrow> cli_udp_state \<Rightarrow> (int \<times> cli_udp_state) option" where
  "do_auth K s = auth_loop K 0 s"

section \<open>Tear-down\<close>

text \<open>\<open>close_tun_fds\<close> logs the descriptors it does not close and frees the array.\<close>

definition cli_close_tun_fds :: "cli_udp_state \<Rightarrow> cli_udp_state" where
  "cli_close_tun_fds s = s\<lparr>c_tun_fds := []\<rparr>"

definition cli_close_udp_fd :: "cli_udp_state \<Rightarrow> cli_udp_state" where
  "cli_close_udp_fd s =
     (if c_udp_fd s \<noteq> -1 then (cli_event (Close (c_udp_fd s)) s)\<lparr>c_udp_fd := -1\<rparr> else s)"

definition cli_destroy_state :: "kernel \<Rightarrow> cli_udp_state \<Rightarrow> cli_udp_state" where
  "cli_destroy_state K s =
     (let s1 = (if c_need_remove_iff s
                then case teavpn_iface_down K (c_iff (c_iface (c_cfg s))) (c_tick s) of
                       (_, n, l) \<Rightarrow> s\<lparr>c_tick := n, c_io := c_io s @ l\<rparr>
                else s)
      in if c_threads_wont_exit s1 then s1
         else (cli_close_udp_fd (cli_close_tun_fds s1))\<lparr>c_pkt := None\<rparr>)"

section \<open>The run\<close>

definition cli_seq ::
  "(cli_udp_state \<Rightarrow> (int \<times> cli_udp_state) option) \<Rightarrow> (int \<times> cli_udp_state) option \<Rightarrow> (int \<times> cli_udp_state) option" where
  "cli_seq f r = do { (ret, s) \<leftarrow> r; if ret \<noteq> 0 then Some (ret, s) else f s }"

text \<open>The steps of \<open>teavpn2_client_udp_run\<close> before the event loop.\<close>

definition client_connect :: "kernel \<Rightarrow> cli_udp_state \<Rightarrow> (int \<times> cli_udp_state) option" where
  "client_connect K s =
     cli_seq (do_auth K)
       (cli_seq (do_handshake K)
         (cli_seq (\<lambda>s. Some (cli_init_iface K s))
           (cli_seq (\<lambda>s. Some (cli_init_socket K s))
             (Some (cli_init_state K s)))))"

text \<open>The end of \<open>teavpn2_client_udp_run\<close> after the label \<open>out\<close>.\<close>

definition client_out :: "kernel \<Rightarrow> int \<Rightarrow> cli_udp_state \<Rightarrow> (int \<times> cli_udp_state) option" where
  "client_out K ret s = do {
     s1 \<leftarrow> (if c_udp_fd s \<noteq> -1 then map_option snd (teavpn2_cli_udp_send_close_packet K s) else Some s);
     Some (ret, cli_destroy_state K s1)
   }"

definition cli_zero_state :: "cli_cfg \<Rightarrow> cli_udp_state" where
  "cli_zero_state c = \<lparr>c_stop = False, c_in_emergency = False, c_timeout_disconnect = False,
     c_loop_c = 0, c_threads_wont_exit = False, c_need_remove_iff = False, c_last_t = 0,
     tt_is_online = False, c_sig = 0, c_evt_loop = EVTL_NOP, c_udp_fd = 0, c_cfg = c,
     c_n_on_threads = 0, c_tun_fds = [], c_pkt = None, c_threads = [], c_tick = 1, c_io = []\<rparr>"
section \<open>Retry loops\<close>

text \<open>
  The contract the handshake and the authentication share: an attempt sends one packet of its
  kind and waits for a reply, and the loop decides from the number of the attempt and the result
  of the wait whether to try again.  \<open>sent\<close> lists the kinds of the packets sent so far.
\<close>

locale retry_loop =
  fixes send wait :: "'s \<Rightarrow> (int \<times> 's) option"
    and again :: "nat \<Rightarrow> int \<Rightarrow> bool"
    and loop :: "nat \<Rightarrow> 's \<Rightarrow> (int \<times> 's) option"
    and sent :: "'s \<Rightarrow> u8 list"
    and kind :: u8
    and ok :: "'s \<Rightarrow> bool"
    and lim :: nat
  assumes loop_eq: "n < lim \<Longrightarrow> loop n s =
      Option.bind (send s) (\<lambda>(ret, s1). if ret \<noteq> 0 then Some (ret, s1)
        else Option.bind (wait s1) (\<lambda>(ret, s2). if again n ret then loop (Suc n) s2 else Some (ret, s2)))"
    and send_spec: "ok s \<Longrightarrow> \<exists>ret s'. send s = Some (ret, s') \<and> ok s' \<and> sent s' = sent s @ [kind]"
    and wait_spec: "ok s \<Longrightarrow> \<exists>ret s'. wait s = Some (ret, s') \<and> ok s' \<and> sent s' = sent s"
    and again_lim: "again n ret \<Longrightarrow> Suc n < lim"
begin

text \<open>The loop returns after at least one and at most \<open>lim - n\<close> attempts.\<close>

lemma loop_bounded:
  assumes "n < lim" "ok s"
  shows "\<exists>ret s' k. loop n s = Some (ret, s') \<and> ok s' \<and> 0 < k \<and> k \<le> lim - n \<and> sent s' = sent s @ replicate k kind"
  using assms
proof (induction "lim - n" arbitrary: n s rule: less_induct)
  case less
  obtain r1 s1 where s: "send s = Some (r1, s1)" "ok s1" "sent s1 = sent s @ [kind]"
    using send_spec [OF less.prems(2)] by blast
  obtain r2 s2 where w: "wait s1 = Some (r2, s2)" "ok s2" "sent s2 = sent s1"
    using wait_spec [OF s(2)] by blast
  note eq = loop_eq [OF less.prems(1), of s]
  have one: "0 < (1 :: nat) \<and> 1 \<le> lim - n" using less.prems by simp
  show ?case
  proof (cases "r1 = 0 \<and> again n r2")
    case True
    then have l: "Suc n < lim" using again_lim by blast
    then have d: "lim - Suc n < lim - n" by simp
    obtain r3 s3 k where h: "loop (Suc n) s2 = Some (r3, s3)" "ok s3" "0 < k" "k \<le> lim - Suc n"
        "sent s3 = sent s2 @ replicate k kind"
      using less.hyps [OF d l w(2)] by blast
    have "sent s3 = sent s @ replicate (Suc k) kind" "Suc k \<le> lim - n" using h s w l by simp_all
    moreover have "loop n s = Some (r3, s3)" using eq True s w h by simp
    ultimately show ?thesis using h(2) by blast
  next
    case False
    have "loop n s = Some (if r1 \<noteq> 0 then (r1, s1) else (r2, s2))" using eq False s w by simp
    moreover have "sent s2 = sent s @ replicate 1 kind" "sent s1 = sent s @ replicate 1 kind" using s w by simp_all
    ultimately show ?thesis using one s w by (cases "r1 = 0") auto
  qed
qed

text \<open>A success is the success of the last wait.\<close>

lemma loop_success:
  assumes "n < lim" "ok s" "loop n s = Some (0, s')"
  shows "\<exists>s1. ok s1 \<and> wait s1 = Some (0, s')"
  using assms
proof (induction "lim - n" arbitrary: n s rule: less_induct)
  case less
  obtain r1 s1 where s: "send s = Some (r1, s1)" "ok s1" using send_spec [OF less.prems(2)] by blast
  obtain r2 s2 where w: "wait s1 = Some (r2, s2)" "ok s2" using wait_spec [OF s(2)] by blast
  note eq = loop_eq [OF less.prems(1), of s]
  show ?case
  proof (cases "again n r2 \<and> r1 = 0")
    case True
    then have "Suc n < lim" "loop (Suc n) s2 = Some (0, s')" using again_lim eq less.prems(3) s w by auto
    then show ?thesis using less.hyps [of "Suc n" s2] w(2) by auto
  next
    case False
    then have "r1 = 0 \<and> r2 = 0 \<and> s2 = s'" using eq less.prems(3) s w by (auto split: if_splits)
    then show ?thesis using s w by blast
  qed
qed

end
section \<open>The retry loops of the client\<close>

text \<open>The packet types of the datagrams sent.\<close>

fun sent_types :: "io list \<Rightarrow> u8 list" where
  "sent_types [] = []"
| "sent_types (x # l) = (case x of Send bs _ \<Rightarrow> hd bs # sent_types l | _ \<Rightarrow> sent_types l)"

lemma sent_types_append [simp]: "sent_types (a @ b) = sent_types a @ sent_types b"
  by (induction a) (auto split: io.splits)

text \<open>The operating system does not interrupt \<open>poll\<close> for ever.\<close>

definition poll_answers :: "kernel \<Rightarrow> bool" where
  "poll_answers K \<longleftrightarrow> (\<forall>n. \<exists>m \<ge> n. k_poll K m \<noteq> - EINTR)"

fun connects :: "io list \<Rightarrow> (int \<times> sockaddr_in) list" where
  "connects [] = []"
| "connects (x # l) = (case x of Connect fd a \<Rightarrow> (fd, a) # connects l | _ \<Rightarrow> connects l)"

lemma connects_append [simp]: "connects (a @ b) = connects a @ connects b"
  by (induction a) (auto split: io.splits)

text \<open>What sending and waiting keep of the socket and the buffer.\<close>

definition same_conn :: "cli_udp_state \<Rightarrow> cli_udp_state \<Rightarrow> bool" where
  "same_conn s t \<longleftrightarrow> connects (c_io t) = connects (c_io s) \<and> c_udp_fd t = c_udp_fd s \<and> (c_pkt s \<noteq> None \<longrightarrow> c_pkt t \<noteq> None)
     \<and> c_threads_wont_exit t = c_threads_wont_exit s \<and> c_evt_loop t = c_evt_loop s \<and> c_n_on_threads t = c_n_on_threads s
     \<and> c_thread_num (c_sys (c_cfg t)) = c_thread_num (c_sys (c_cfg s)) \<and> (\<exists>l. c_io t = c_io s @ l)"

lemma same_conn_refl [simp]: "same_conn s s"
  by (simp add: same_conn_def)

lemma same_conn_trans: "same_conn s t \<Longrightarrow> same_conn t u \<Longrightarrow> same_conn s u"
  by (auto simp: same_conn_def)

lemma same_conn_call [simp]: "same_conn s (cli_call K s)"
  by (simp add: same_conn_def frame)

text \<open>A state with its packet buffer, on a system that answers, with the connection of \<open>s0\<close>.\<close>

definition cli_ok :: "kernel \<Rightarrow> cli_udp_state \<Rightarrow> cli_udp_state \<Rightarrow> bool" where
  "cli_ok K s0 s \<longleftrightarrow> poll_answers K \<and> c_pkt s \<noteq> None \<and> same_conn s0 s"

text \<open>Two states that differ by calls and delivered signals only.\<close>

definition signalled :: "cli_udp_state \<Rightarrow> cli_udp_state \<Rightarrow> bool" where
  "signalled s t \<longleftrightarrow> t\<lparr>c_tick := c_tick s, c_stop := c_stop s, c_sig := c_sig s\<rparr> = s"

lemma signalled_call: "signalled s (cli_call K s)"
  by (cases s) (simp add: signalled_def cli_call_def cli_signal_intr_handler_def Let_def split: option.split)

lemma signalled_trans: "signalled s t \<Longrightarrow> signalled t u \<Longrightarrow> signalled s u"
  by (cases s; cases t; cases u) (simp add: signalled_def)

lemma signalled_fields:
  assumes "signalled s t"
  shows "c_io t = c_io s" "c_pkt t = c_pkt s" "c_cfg t = c_cfg s" "c_udp_fd t = c_udp_fd s"
    "c_need_remove_iff t = c_need_remove_iff s" "c_tun_fds t = c_tun_fds s" "c_evt_loop t = c_evt_loop s"
    "c_threads_wont_exit t = c_threads_wont_exit s" "c_n_on_threads t = c_n_on_threads s"
  using assms by (cases s; cases t; simp add: signalled_def)+

lemma poll_returns:
  assumes "poll_answers K"
  shows "\<exists>ret s'. poll_fd_input K s = Some (ret, s') \<and> signalled s s'"
proof -
  obtain m where "c_tick s \<le> m" "k_poll K m \<noteq> - EINTR" using assms by (auto simp: poll_answers_def)
  then show ?thesis
  proof (induction "m - c_tick s" arbitrary: s)
    case 0
    then have "k_poll K (c_tick s) \<noteq> - EINTR" by simp
    then show ?case using signalled_call [of s K] by (subst poll_fd_input.simps) (auto simp: Let_def)
  next
    case (Suc d)
    have h: "\<exists>ret s'. poll_fd_input K (cli_call K s) = Some (ret, s') \<and> signalled (cli_call K s) s'"
      using Suc.hyps(1) [of "cli_call K s"] Suc.hyps(2) Suc.prems by (simp add: cli_call_frame)
    then show ?case
      using signalled_call [of s K] signalled_trans by (subst poll_fd_input.simps) (auto simp: Let_def)
  qed
qed
lemma cli_send_pkt_spec:
  assumes "cli_ok K s0 s" and "\<And>m. pkt_type (fst (prep m)) = ty" and "\<And>m. 0 < snd (prep m)"
  shows "\<exists>ret s'. cli_send_pkt K prep s = Some (ret, s') \<and> cli_ok K s0 s'
    \<and> sent_types (c_io s') = sent_types (c_io s) @ [ty]"
proof -
  obtain pkt where p: "c_pkt s = Some pkt" using assms(1) by (auto simp: cli_ok_def)
  obtain m n where mn: "prep (raw pkt) = (m, n)" by fastforce
  have "m 0 = ty" "0 < n" using assms(2) [of "raw pkt"] assms(3) [of "raw pkt"] mn by (simp_all add: pkt_type_def)
  then have "hd (mem_read m 0 n) = ty" by (simp add: hd_conv_nth mem_read_def)
  then show ?thesis
    using assms(1) p mn
    by (auto simp: cli_send_pkt_def simple_do_send_to_def Let_def cli_ok_def same_conn_def frame)
qed

lemma wait_reply_spec:
  assumes "cli_ok K s0 s"
  shows "\<exists>ret s'. wait_reply K chk s = Some (ret, s') \<and> cli_ok K s0 s' \<and> c_io s' = c_io s"
proof -
  obtain ret s1 where p: "poll_fd_input K s = Some (ret, s1)" "signalled s s1"
    using assms poll_returns [of K s] by (auto simp: cli_ok_def)
  note f = signalled_fields [OF p(2)]
  obtain pkt where "c_pkt s1 = Some pkt" using assms f(2) by (auto simp: cli_ok_def)
  then show ?thesis
    using p(1) f assms
    by (auto simp: wait_reply_def simple_do_recv_from_def sys_recvfrom_def cli_ok_def same_conn_def frame split: prod.split)
qed

lemma wait_reply_ok:
  assumes "wait_reply K chk s = Some (0, s')"
  shows "\<exists>m len pkt. c_pkt s' = Some pkt \<and> chk m len = (0, raw pkt)"
proof -
  obtain ret s1 where p: "poll_fd_input K s = Some (ret, s1)" using assms by (auto simp: wait_reply_def bind_eq_Some_conv)
  obtain r bs a where k: "k_recvfrom K (c_tick s1) = (r, bs, a)" by (metis prod.exhaust)
  show ?thesis
    using assms p k
    by (auto simp: wait_reply_def simple_do_recv_from_def sys_recvfrom_def bind_eq_Some_conv split: prod.splits if_splits) blast
qed

lemma handshake_chk_ok:
  assumes "server_handshake_chk m len = (0, m')"
  shows "pkt_type m' = TSRV_PKT_HANDSHAKE" "ver (pkt_handshake_cur m') = VERSION"
    "patch_lvl (pkt_handshake_cur m') = PATCHLEVEL" "sub_lvl (pkt_handshake_cur m') = SUBLEVEL"
  using assms by (auto simp: server_handshake_chk_def Let_def pkt_type_def split: if_splits)

lemma auth_chk_ok: "server_auth_res_chk m len = (0, m') \<Longrightarrow> pkt_type m' = TSRV_PKT_AUTH_OK"
  by (auto simp: server_auth_res_chk_def Let_def pkt_type_def split: if_splits)

lemma handshake_loop_eq:
  "handshake_loop K (word_of_nat n) s =
      Option.bind (do_handshake_once K s) (\<lambda>(ret, s1). if ret \<noteq> 0 then Some (ret, s1)
        else Option.bind (wait_for_handshake_response K s1) (\<lambda>(ret, s2).
          if ret = - ETIMEDOUT \<and> Suc n < 5 \<or> ret = - ECONNRESET \<and> Suc n < 3
          then handshake_loop K (word_of_nat (Suc n)) s2 else Some (ret, s2)))" if "n < 5"
proof -
  have w: "(word_of_nat n + 1 :: u8) = word_of_nat (Suc n)" by simp
  have l: "(word_of_nat (Suc n) < (5 :: u8)) = (Suc n < 5)" "((3 :: u8) \<le> word_of_nat (Suc n)) = (3 \<le> Suc n)"
    using that by (simp_all add: word_less_nat_alt word_le_nat_alt unat_of_nat del: of_nat_Suc)
  show ?thesis
    by (subst handshake_loop.simps) (auto simp: w l Let_def not_le simp del: of_nat_Suc intro!: Option.bind_cong split: prod.splits)
qed

lemma auth_loop_eq:
  "auth_loop K (word_of_nat n) s =
      Option.bind (do_auth_once K s) (\<lambda>(ret, s1). if ret \<noteq> 0 then Some (ret, s1)
        else Option.bind (wait_for_auth_response K s1) (\<lambda>(ret, s2).
          if ret = - ETIMEDOUT \<and> n < 5
          then auth_loop K (word_of_nat (Suc n)) s2 else Some (ret, s2)))" if "n < 6"
proof -
  have w: "(word_of_nat n + 1 :: u8) = word_of_nat (Suc n)" by simp
  have l: "(word_of_nat n < (5 :: u8)) = (n < 5)"
    using that by (simp add: word_less_nat_alt unat_of_nat)
  show ?thesis
    by (subst auth_loop.simps) (auto simp: w l Let_def simp del: of_nat_Suc intro!: Option.bind_cong split: prod.splits)
qed
text \<open>The interface description in a reply, as the client uses it.\<close>

definition offered_iff :: "cli_cfg \<Rightarrow> mem \<Rightarrow> if_info" where
  "offered_iff c m =
     (if override_default (c_iface c)
      then (get_if_info m 6)\<lparr>ipv4_pub := strncpy2 (server_addr (c_sock c)) 16\<rparr> else get_if_info m 6)"

lemma toggle_sent:
  assumes "teavpn_iface_toggle K iface up q n = (b, k, l)"
  shows "sent_types l = [] \<and> connects l = [] \<and> opened l = []"
  using toggle_events [OF assms] by (induction l) (auto split: io.splits)

text \<open>The interface of the state was brought up, and nothing happened since.\<close>

definition iface_came_up :: "kernel \<Rightarrow> cli_udp_state \<Rightarrow> bool" where
  "iface_came_up K s \<longleftrightarrow>
     (\<exists>n l0 l. teavpn_iface_up K (c_iff (c_iface (c_cfg s))) n = (True, c_tick s, l) \<and> c_io s = l0 @ l)"

lemma bring_up_spec:
  assumes "cli_ok K s0 s"
  shows "\<exists>ret s'. bring_up_iface K s = Some (ret, s') \<and> cli_ok K s0 s' \<and> sent_types (c_io s') = sent_types (c_io s)
    \<and> (ret = 0 \<longrightarrow> c_need_remove_iff s' \<and> iface_came_up K s'
        \<and> (\<exists>pkt. c_pkt s' = Some pkt \<and> pkt_type (raw pkt) = pkt_type (raw (the (c_pkt s)))
        \<and> c_iff (c_iface (c_cfg s')) = offered_iff (c_cfg s') (raw pkt)))"
proof -
  obtain pkt where "c_pkt s = Some pkt" using assms by (auto simp: cli_ok_def)
  then show ?thesis
    using assms
    by (auto simp: bring_up_iface_def Let_def cli_ok_def same_conn_def teavpn_iface_up_def offered_iff_def pkt_type_def
        iface_came_up_def split: prod.split dest: toggle_sent)
qed

lemma wait_auth_spec:
  assumes "cli_ok K s0 s"
  shows "\<exists>ret s'. wait_for_auth_response K s = Some (ret, s') \<and> cli_ok K s0 s' \<and> sent_types (c_io s') = sent_types (c_io s)"
proof -
  obtain ret s1 where w: "wait_reply K server_auth_res_chk s = Some (ret, s1)" "cli_ok K s0 s1" "c_io s1 = c_io s"
    using wait_reply_spec [OF assms, of server_auth_res_chk] by blast
  then show ?thesis
    using bring_up_spec [OF w(2)] by (cases "ret = 0") (auto simp: wait_for_auth_response_def)
qed

interpretation hs: retry_loop "do_handshake_once K" "wait_for_handshake_response K"
    "\<lambda>n ret. ret = - ETIMEDOUT \<and> Suc n < 5 \<or> ret = - ECONNRESET \<and> Suc n < 3"
    "\<lambda>n. handshake_loop K (word_of_nat n)" "\<lambda>s. sent_types (c_io s)" TCLI_PKT_HANDSHAKE "cli_ok K s0" 5
proof (unfold_locales, goal_cases)
  case (1 n s) then show ?case by (rule handshake_loop_eq)
next
  case (2 s)
  from cli_send_pkt_spec [OF this, of cli_pprep_handshake TCLI_PKT_HANDSHAKE] show ?case
    by (auto simp: do_handshake_once_def cli_pprep_handshake_def cli_pprep_eq pprep_simps)
next
  case (3 s)
  from wait_reply_spec [OF this, of server_handshake_chk] show ?case
    by (auto simp: wait_for_handshake_response_def)
qed auto

interpretation au: retry_loop "do_auth_once K" "wait_for_auth_response K"
    "\<lambda>n ret. ret = - ETIMEDOUT \<and> n < 5"
    "\<lambda>n. auth_loop K (word_of_nat n)" "\<lambda>s. sent_types (c_io s)" TCLI_PKT_AUTH "cli_ok K s0" 6
proof (unfold_locales, goal_cases)
  case (1 n s) then show ?case by (rule auth_loop_eq)
next
  case (2 s)
  from cli_send_pkt_spec [OF this, of "\<lambda>m. cli_pprep_auth m (c_username (c_auth (c_cfg s))) (c_password (c_auth (c_cfg s)))" TCLI_PKT_AUTH]
  show ?case by (auto simp: do_auth_once_def cli_pprep_auth_def cli_pprep_eq pprep_simps Let_def)
next
  case (3 s) then show ?case by (rule wait_auth_spec)
qed auto
section \<open>Properties\<close>

text \<open>
  C32: the handshake ends.  On a system that does not interrupt \<open>poll\<close> for ever,
  \<open>do_handshake\<close> returns, having sent one close packet and then between one and five handshake
  packets and nothing else; and it reports success only with a handshake packet of the client's
  own version in the buffer.
\<close>

theorem client_handshake_bounded:
  assumes "poll_answers K" and "c_pkt s \<noteq> None"
  shows "\<exists>ret s' k. do_handshake K s = Some (ret, s') \<and> 1 \<le> k \<and> k \<le> 5
    \<and> sent_types (c_io s') = sent_types (c_io s) @ TCLI_PKT_CLOSE # replicate k TCLI_PKT_HANDSHAKE
    \<and> (ret = 0 \<longrightarrow> (\<exists>pkt. c_pkt s' = Some pkt \<and> pkt_type (raw pkt) = TSRV_PKT_HANDSHAKE
        \<and> (case pkt_handshake_cur (raw pkt) of cur \<Rightarrow> ver cur = VERSION \<and> patch_lvl cur = PATCHLEVEL \<and> sub_lvl cur = SUBLEVEL)))"
proof -
  obtain r0 s1 where c: "teavpn2_cli_udp_send_close_packet K s = Some (r0, s1)" "cli_ok K s s1"
      "sent_types (c_io s1) = sent_types (c_io s) @ [TCLI_PKT_CLOSE]"
    using cli_send_pkt_spec [of K s s "\<lambda>m. cli_pprep m TCLI_PKT_CLOSE 0 0" TCLI_PKT_CLOSE] assms
    by (auto simp: cli_ok_def teavpn2_cli_udp_send_close_packet_def cli_pprep_eq pprep_simps)
  obtain ret s' k where l: "handshake_loop K 0 s1 = Some (ret, s')" "0 < k" "k \<le> 5"
      "sent_types (c_io s') = sent_types (c_io s1) @ replicate k TCLI_PKT_HANDSHAKE"
    using hs.loop_bounded [of 0 K s s1] c(2) by auto
  have "\<exists>m len pkt. c_pkt s' = Some pkt \<and> server_handshake_chk m len = (0, raw pkt)" if z: "ret = 0"
  proof -
    obtain s2 where "wait_for_handshake_response K s2 = Some (0, s')"
      using hs.loop_success [of 0 K s s1 s'] c(2) l(1) z by auto
    then show ?thesis using wait_reply_ok by (simp add: wait_for_handshake_response_def)
  qed
  then have "ret = 0 \<longrightarrow> (\<exists>pkt. c_pkt s' = Some pkt \<and> pkt_type (raw pkt) = TSRV_PKT_HANDSHAKE
        \<and> (case pkt_handshake_cur (raw pkt) of cur \<Rightarrow> ver cur = VERSION \<and> patch_lvl cur = PATCHLEVEL \<and> sub_lvl cur = SUBLEVEL))"
    by (auto dest: handshake_chk_ok)
  moreover have "do_handshake K s = Some (ret, s')" using c l by (simp add: do_handshake_def)
  ultimately show ?thesis using l c(3) by (intro exI [of _ ret] exI [of _ s'] exI [of _ k]) simp
qed

text \<open>A client with its buffer; the silent system never answers.\<close>

definition sample_cli_cfg :: cli_cfg where
  "sample_cli_cfg = \<lparr>c_sys = \<lparr>c_cfg_file = [], c_data_dir = [], c_thread_num = 1, c_verbose_level = 0\<rparr>,
     c_sock = \<lparr>c_use_encryption = False, c_sock_ty = SOCK_UDP, server_addr = ''192.168.1.10'',
       server_port = 44444, c_event_loop = ''epoll''\<rparr>,
     c_iface = \<lparr>override_default = False, c_iface_dev = ''tun0'', c_iff = sample_iface\<rparr>,
     c_auth = \<lparr>c_username = ''ammarfaizi2'', c_password = ''mypassword123''\<rparr>\<rparr>"

definition sample_cli :: cli_udp_state where
  "sample_cli = (cli_zero_state sample_cli_cfg)\<lparr>c_pkt := Some \<lparr>pkt_len = 0, raw = (\<lambda>_. 0)\<rparr>\<rparr>"

lemma silent_poll_answers: "poll_answers silent_kernel"
  by (auto simp: poll_answers_def silent_kernel_def)

text \<open>Witness of C32.\<close>

theorem client_handshake_bounded_witness:
  "\<exists>ret s' k. do_handshake silent_kernel sample_cli = Some (ret, s') \<and> k \<le> 5
     \<and> sent_types (c_io s') = TCLI_PKT_CLOSE # replicate k TCLI_PKT_HANDSHAKE"
proof -
  have p: "c_pkt sample_cli \<noteq> None" "c_io sample_cli = []" by (simp_all add: sample_cli_def cli_zero_state_def)
  show ?thesis using client_handshake_bounded [OF silent_poll_answers p(1)] p(2) by auto
qed

text \<open>
  C33: the authentication ends.  On such a system \<open>do_auth\<close> returns after at most six
  authentication packets.  It reports success only with an accepting packet in the buffer, and
  then its last action was a successful \<open>teavpn_iface_up\<close>, whose commands end the trace, with
  the description of that packet; the interface is marked to be removed at the end.
\<close>

theorem client_auth_bounded:
  assumes "poll_answers K" and "c_pkt s \<noteq> None"
  shows "\<exists>ret s' k. do_auth K s = Some (ret, s') \<and> 1 \<le> k \<and> k \<le> 6
    \<and> sent_types (c_io s') = sent_types (c_io s) @ replicate k TCLI_PKT_AUTH
    \<and> (ret = 0 \<longrightarrow> c_need_remove_iff s'
        \<and> (\<exists>n l0 l. teavpn_iface_up K (c_iff (c_iface (c_cfg s'))) n = (True, c_tick s', l) \<and> c_io s' = l0 @ l)
        \<and> (\<exists>pkt. c_pkt s' = Some pkt \<and> pkt_type (raw pkt) = TSRV_PKT_AUTH_OK
        \<and> c_iff (c_iface (c_cfg s')) = offered_iff (c_cfg s') (raw pkt)))"
proof -
  have ok: "cli_ok K s s" using assms by (simp add: cli_ok_def)
  obtain ret s' k where l: "auth_loop K 0 s = Some (ret, s')" "0 < k" "k \<le> 6"
      "sent_types (c_io s') = sent_types (c_io s) @ replicate k TCLI_PKT_AUTH"
    using au.loop_bounded [of 0 K s s] ok by auto
  have "c_need_remove_iff s' \<and> iface_came_up K s' \<and> (\<exists>pkt. c_pkt s' = Some pkt \<and> pkt_type (raw pkt) = TSRV_PKT_AUTH_OK
        \<and> c_iff (c_iface (c_cfg s')) = offered_iff (c_cfg s') (raw pkt))" if z: "ret = 0"
  proof -
    obtain s1 where s1: "cli_ok K s s1" "wait_for_auth_response K s1 = Some (0, s')"
      using au.loop_success [of 0 K s s s'] ok l(1) z by auto
    then obtain s2 where s2: "wait_reply K server_auth_res_chk s1 = Some (0, s2)" "bring_up_iface K s2 = Some (0, s')"
      by (auto simp: wait_for_auth_response_def bind_eq_Some_conv split: if_splits)
    then obtain m len pkt where "c_pkt s2 = Some pkt" "server_auth_res_chk m len = (0, raw pkt)" using wait_reply_ok by blast
    then have "pkt_type (raw (the (c_pkt s2))) = TSRV_PKT_AUTH_OK"
      by (simp add: auth_chk_ok)
    moreover have "cli_ok K s s2" using wait_reply_spec [OF s1(1), of server_auth_res_chk] s2(1) by auto
    ultimately show ?thesis using bring_up_spec [of K s s2] s2(2) by auto
  qed
  then show ?thesis using l by (intro exI [of _ ret] exI [of _ s'] exI [of _ k]) (simp add: do_auth_def iface_came_up_def)
qed

end
