(* ===== verification/Cli_Epoll.thy ===== *)
theory Cli_Epoll
  imports Cli_Proto
begin

text \<open>
  The client's event handlers, timer and thread set-up, \<^verbatim>\<open>src/teavpn2/client/linux/udp_epoll.c\<close>,
  one definition per function.  A handler takes the packet buffer of its thread and the client
  state and returns the C result with both; none of them loops.  The functions whose C name
  begins with an underscore, or that the server has too, carry a prefix or a name of their own.
\<close>

section \<open>Setting up the threads\<close>

definition upd_cthread :: "nat \<Rightarrow> (cli_thread \<Rightarrow> cli_thread) \<Rightarrow> cli_udp_state \<Rightarrow> cli_udp_state" where
  "upd_cthread t f s = s\<lparr>c_threads := (c_threads s)[t := f (c_threads s ! t)]\<rparr>"

text \<open>The answers of \<open>epoll_create\<close> and \<open>epoll_ctl\<close>; a thread collects its descriptors.\<close>

definition cli_create_epoll_fd :: "kernel \<Rightarrow> cli_udp_state \<Rightarrow> int \<times> cli_udp_state" where
  "cli_create_epoll_fd K s =
     (case cli_sys_call K s of (fd, s1) \<Rightarrow> (fd, if fd < 0 then s1 else cli_event (Open fd) s1))"

definition cli_epoll_add :: "kernel \<Rightarrow> nat \<Rightarrow> int \<Rightarrow> cli_udp_state \<Rightarrow> int \<times> cli_udp_state" where
  "cli_epoll_add K t fd s =
     (case cli_sys_call K s of
        (ret, s1) \<Rightarrow>
          if ret < 0 then (ret, s1)
          else (ret, upd_cthread t (\<lambda>x. x\<lparr>ct_epoll_set := ct_epoll_set x @ [fd]\<rparr>) s1))"

text \<open>\<open>None\<close> is the panic on a thread number below one.\<close>

definition do_epoll_fd_registration :: "kernel \<Rightarrow> nat \<Rightarrow> cli_udp_state \<Rightarrow> (int \<times> cli_udp_state) option" where
  "do_epoll_fd_registration K t s =
     (let i = ct_idx (c_threads s ! t);
          nn = c_thread_num (c_sys (c_cfg s))
      in
      if nn < 1 then None
      else if i = 0 then
        let (ret, s1) = cli_epoll_add K t (c_udp_fd s) s in
        if ret \<noteq> 0 then Some (ret, s1)
        else if nn = 1 then
          let (ret, s2) = cli_epoll_add K t (c_tun_fds s1 ! 0) s1 in
          if ret \<noteq> 0 then Some (ret, s2) else Some (0, s2)
        else Some (0, s1)
      else
        let (ret, s1) = cli_epoll_add K t (c_tun_fds s ! unat i) s in
        if ret \<noteq> 0 then Some (ret, s1)
        else if i = 1 then
          let (ret, s2) = cli_epoll_add K t (c_tun_fds s1 ! 0) s1 in
          if ret \<noteq> 0 then Some (ret, s2) else Some (0, s2)
        else Some (0, s1))"

definition cli_init_epoll_thread :: "kernel \<Rightarrow> nat \<Rightarrow> cli_udp_state \<Rightarrow> (int \<times> cli_udp_state) option" where
  "cli_init_epoll_thread K t s =
     (let (ret, s1) = cli_create_epoll_fd K s in
      if ret < 0 then Some (ret, s1)
      else do_epoll_fd_registration K t
             (upd_cthread t (\<lambda>x. x\<lparr>ct_epoll_fd := ret, ct_epoll_timeout := 10000\<rparr>) s1))"

fun cli_init_threads_loop :: "kernel \<Rightarrow> nat list \<Rightarrow> cli_udp_state \<Rightarrow> (int \<times> cli_udp_state) option" where
  "cli_init_threads_loop K [] s = Some (0, s)"
| "cli_init_threads_loop K (t # ts) s = do {
     (ret, s1) \<leftarrow> cli_init_epoll_thread K t s;
     if ret \<noteq> 0 then Some (ret, s1)
     else case cli_sys_call K s1 of
       (ret, s2) \<Rightarrow>
         if ret < 0 then Some (ret, s2)
         else cli_init_threads_loop K ts
                (upd_cthread t (\<lambda>x. x\<lparr>ct_pkt := Some \<lparr>pkt_len = 0, raw = (\<lambda>_. 0)\<rparr>\<rparr>) s2)
   }"

definition cli_init_epoll_thread_array :: "kernel \<Rightarrow> cli_udp_state \<Rightarrow> (int \<times> cli_udp_state) option" where
  "cli_init_epoll_thread_array K s =
     (let nn = unat (c_thread_num (c_sys (c_cfg s)));
          s0 = cli_call K (s\<lparr>c_threads := []\<rparr>)
      in
      if \<not> k_malloc K (c_tick s) then Some (- ENOMEM, s0)
      else cli_init_threads_loop K [0..<nn]
             (s0\<lparr>c_threads := map (\<lambda>i. \<lparr>ct_idx = word_of_nat i, ct_epoll_fd = -1, ct_epoll_timeout = 0,
                ct_epoll_set = [], ct_is_online = False, ct_pkt = None\<rparr>) [0..<nn]\<rparr>))"

section \<open>Sending and receiving\<close>

text \<open>\<^verbatim>\<open>_do_send_to\<close> and \<^verbatim>\<open>do_send_to\<close>; \<^verbatim>\<open>_do_recv_from\<close> and \<^verbatim>\<open>do_recv_from\<close>\<close>

definition cli_do_send_to :: "kernel \<Rightarrow> mem \<Rightarrow> nat \<Rightarrow> cli_udp_state \<Rightarrow> int \<times> cli_udp_state" where
  "cli_do_send_to K m len s =
     (let ret = k_sendto K (c_tick s) in (ret, cli_event (Send (mem_read m 0 len) ret) (cli_call K s)))"

definition cli_do_recv_from :: "kernel \<Rightarrow> sc_pkt \<Rightarrow> cli_udp_state \<Rightarrow> int \<times> sc_pkt \<times> cli_udp_state" where
  "cli_do_recv_from K pkt s =
     (case sys_recvfrom K (c_tick s) PKT_RAW_LEN of
        (ret, bs, _) \<Rightarrow>
          (ret, if ret < 0 then pkt else pkt\<lparr>raw := mem_write (raw pkt) 0 bs\<rparr>, cli_call K s))"

definition recv_from_server :: "kernel \<Rightarrow> sc_pkt \<Rightarrow> cli_udp_state \<Rightarrow> int \<times> sc_pkt \<times> cli_udp_state" where
  "recv_from_server K pkt s =
     (case cli_do_recv_from K pkt s of
        (recv_ret, pkt1, s1) \<Rightarrow>
          if recv_ret \<le> 0 then
            (if recv_ret = 0 then (- ENETDOWN, pkt1, s1)
             else if recv_ret = - EAGAIN then (0, pkt1, s1)
             else (recv_ret, pkt1, s1))
          else (recv_ret, pkt1\<lparr>pkt_len := nat recv_ret\<rparr>, s1))"

section \<open>Events\<close>

type_synonym cli_handler_result = "int \<times> sc_pkt \<times> cli_udp_state"

definition handle_tun_data :: "kernel \<Rightarrow> sc_pkt \<Rightarrow> cli_udp_state \<Rightarrow> cli_handler_result" where
  "handle_tun_data K pkt s =
     (let tun_fd = c_tun_fds s ! 0;
          data_len = pkt_dlen (raw pkt);
          write_ret = k_write K (c_tick s)
      in (if write_ret < 0 then write_ret else 0, pkt,
          cli_event (Write tun_fd (mem_read (raw pkt) 4 (unat data_len)) write_ret) (cli_call K s)))"

definition handle_req_sync :: "kernel \<Rightarrow> sc_pkt \<Rightarrow> cli_udp_state \<Rightarrow> cli_handler_result" where
  "handle_req_sync K pkt s =
     (let (m, send_len) = cli_pprep (raw pkt) TSRV_PKT_SYNC 0 0;
          (send_ret, s1) = cli_do_send_to K m send_len s
      in (if send_ret < 0 then send_ret else 0, pkt\<lparr>raw := m\<rparr>, s1))"

definition set_last_t :: "kernel \<Rightarrow> cli_udp_state \<Rightarrow> cli_udp_state" where
  "set_last_t K s = (case cli_get_unix_time K (c_last_t s) s of (_, t, s1) \<Rightarrow> s1\<lparr>c_last_t := t\<rparr>)"

text \<open>\<^verbatim>\<open>_handle_event_udp\<close>\<close>

definition handle_srvpkt :: "kernel \<Rightarrow> sc_pkt \<Rightarrow> cli_udp_state \<Rightarrow> cli_handler_result" where
  "handle_srvpkt K pkt s =
     (let type = pkt_type (raw pkt) in
      if type = TSRV_PKT_HANDSHAKE \<or> type = TSRV_PKT_AUTH_OK then (0, pkt, s)
      else if type = TSRV_PKT_TUN_DATA then handle_tun_data K pkt s
      else if type = TSRV_PKT_REQSYNC then
        (case handle_req_sync K pkt s of (ret, pkt1, s1) \<Rightarrow> (ret, pkt1, set_last_t K s1))
      else if type = TSRV_PKT_SYNC then (0, pkt, set_last_t K s)
      else if type = TSRV_PKT_CLOSE then (0, pkt, s\<lparr>c_stop := True\<rparr>)
      else (- EBADRQC, pkt, s))"

definition handle_event_udp :: "kernel \<Rightarrow> sc_pkt \<Rightarrow> cli_udp_state \<Rightarrow> cli_handler_result" where
  "handle_event_udp K pkt s =
     (case recv_from_server K pkt s of
        (recv_ret, pkt1, s1) \<Rightarrow> if recv_ret \<le> 0 then (recv_ret, pkt1, s1) else handle_srvpkt K pkt1 s1)"

definition handle_event_tun :: "kernel \<Rightarrow> sc_pkt \<Rightarrow> cli_udp_state \<Rightarrow> cli_handler_result" where
  "handle_event_tun K pkt s =
     (case sys_read K (c_tick s) PKT_RAW_LEN of
        (read_ret, bs) \<Rightarrow>
          let s1 = cli_call K s in
          if read_ret < 0 then (if read_ret = - EAGAIN then 0 else read_ret, pkt, s1)
          else
            let (m, send_len) = cli_pprep (mem_write (raw pkt) 4 bs)
                                  TCLI_PKT_TUN_DATA (word_of_int read_ret) 0;
                (send_ret, s2) = cli_do_send_to K m send_len s1
            in (if send_ret < 0 then send_ret else 0, pkt\<lparr>raw := m\<rparr>, s2))"

abbreviation UDP_LOOP_C_DEADLINE :: u8 where "UDP_LOOP_C_DEADLINE \<equiv> 64"

definition cli_handle_event :: "kernel \<Rightarrow> int \<Rightarrow> sc_pkt \<Rightarrow> cli_udp_state \<Rightarrow> cli_handler_result" where
  "cli_handle_event K fd pkt s =
     (case (if fd = c_udp_fd s then handle_event_udp K pkt s else handle_event_tun K pkt s) of
        (ret, pkt1, s1) \<Rightarrow>
          let s2 = s1\<lparr>c_loop_c := c_loop_c s1 + 1\<rparr> in
          (ret, pkt1, if c_loop_c s1 mod UDP_LOOP_C_DEADLINE = 0 then set_last_t K s2 else s2))"

text \<open>\<^verbatim>\<open>_do_epoll_wait\<close>, the loop over the events, and \<open>do_epoll_wait\<close>\<close>

definition cli_epoll_wait :: "kernel \<Rightarrow> cli_udp_state \<Rightarrow> int \<times> int list \<times> cli_udp_state" where
  "cli_epoll_wait K s =
     (case k_epoll_wait K (c_tick s) of
        (ret, evs) \<Rightarrow> (if ret < 0 \<and> ret = - EINTR then 0 else ret, evs, cli_call K s))"

fun cli_handle_events :: "kernel \<Rightarrow> int list \<Rightarrow> sc_pkt \<Rightarrow> cli_udp_state \<Rightarrow> cli_handler_result" where
  "cli_handle_events K [] pkt s = (0, pkt, s)"
| "cli_handle_events K (fd # evs) pkt s =
     (case cli_handle_event K fd pkt s of
        (tmp, pkt1, s1) \<Rightarrow> if tmp \<noteq> 0 then (tmp, pkt1, s1) else cli_handle_events K evs pkt1 s1)"

text \<open>\<open>None\<close> is a thread without its buffer.\<close>

definition cli_do_epoll_wait :: "kernel \<Rightarrow> nat \<Rightarrow> cli_udp_state \<Rightarrow> (int \<times> cli_udp_state) option" where
  "cli_do_epoll_wait K t s =
     (case cli_epoll_wait K s of
        (ret, evs, s1) \<Rightarrow>
          if ret < 0 then Some (ret, s1)
          else do {
            pkt \<leftarrow> ct_pkt (c_threads s1 ! t);
            let (ret, pkt1, s2) = cli_handle_events K (take (nat ret) evs) pkt s1;
            Some (ret, upd_cthread t (\<lambda>x. x\<lparr>ct_pkt := Some pkt1\<rparr>) s2)
          })"

section \<open>The timer\<close>

abbreviation UDP_SESS_TIMEOUT :: int where "UDP_SESS_TIMEOUT \<equiv> 180"

text \<open>The packet of \<open>tt_send_reqsync\<close> lies on the stack; only its header is sent.\<close>

definition tt_send_reqsync :: "kernel \<Rightarrow> cli_udp_state \<Rightarrow> cli_udp_state" where
  "tt_send_reqsync K s =
     (let (m, send_len) = cli_pprep (\<lambda>_. 0) TCLI_PKT_REQSYNC 0 0 in snd (cli_do_send_to K m send_len s))"

fun tt_reqsyncs :: "kernel \<Rightarrow> nat \<Rightarrow> cli_udp_state \<Rightarrow> cli_udp_state" where
  "tt_reqsyncs K 0 s = s"
| "tt_reqsyncs K (Suc i) s = tt_reqsyncs K i (tt_send_reqsync K s)"

text \<open>\<^verbatim>\<open>_run_timer_thread\<close>; the arithmetic on \<open>time_t\<close> does not overflow for real times.\<close>

definition timer_round :: "kernel \<Rightarrow> cli_udp_state \<Rightarrow> cli_udp_state" where
  "timer_round K s =
     (case cli_get_unix_time K 0 s of
        (_, t, s1) \<Rightarrow>
          let time_diff = t - c_last_t s1;
              max_diff = UDP_SESS_TIMEOUT
          in
          if time_diff > max_diff then s1\<lparr>c_timeout_disconnect := True, c_stop := True\<rparr>
          else if time_diff > (max_diff * 4) div 5 then tt_reqsyncs K 7 s1
          else if time_diff > (max_diff * 3) div 5 then tt_reqsyncs K 5 s1
          else if time_diff > (max_diff * 2) div 5 then tt_reqsyncs K 3 s1
          else if time_diff > (max_diff * 1) div 5 then tt_reqsyncs K 1 s1
          else s1)"

section \<open>Shut-down\<close>

definition cli_close_epoll_fds :: "cli_udp_state \<Rightarrow> cli_udp_state" where
  "cli_close_epoll_fds s =
     fold (\<lambda>x s. if ct_epoll_fd x = -1 then s else cli_event (Close (ct_epoll_fd x)) s) (c_threads s) s"

text \<open>\<open>destroy_epoll\<close>; \<open>exited\<close> is the result of \<open>wait_for_threads_to_exit\<close>.\<close>

definition cli_destroy_epoll :: "bool \<Rightarrow> cli_udp_state \<Rightarrow> cli_udp_state" where
  "cli_destroy_epoll exited s =
     (if \<not> exited then s\<lparr>c_threads_wont_exit := True\<rparr>
      else (cli_close_epoll_fds s)\<lparr>c_threads := []\<rparr>)"

end
