(* ===== verification/Cli_Machine.thy ===== *)
theory Cli_Machine
  imports Cli_Epoll Threads
begin

text \<open>
  The threads of the client: \<open>run_event_loop\<close>, the life of a worker, the timer thread and the
  shut-down of \<^verbatim>\<open>src/teavpn2/client/linux/udp_epoll.c\<close> as a step relation, and
  \<open>teavpn2_client_udp_run\<close> of \<^verbatim>\<open>udp.c\<close>.  A step is one access of a thread to what it shares
  with the others or one round of its loop; any thread may take the next step, a signal may
  arrive between any two, and the user interface may call \<open>teavpn2_client_udp_stop\<close>.  The
  callbacks of the user interface are empty functions outside of it.
\<close>

section \<open>Positions\<close>

text \<open>The end of \<open>destroy_epoll\<close> keeps whether the threads had exited.\<close>

datatype tt_pc = T_unspawned | T_spawned | T_online | T_looping | T_sleeping | T_leaving | T_exited

datatype cli_main_pc = C_tt | C_reset | C_spawn nat | C_run
  | C_tt_check int | C_tt_poll nat int | C_tun_check int | C_tun_poll nat int | C_destroy bool int | C_end bool int

record cmachine =
  cm_cli :: cli_udp_state
  cm_pc :: "thread_pc list"
  cm_rel :: bool
  cm_tt :: tt_pc
  cm_main :: cli_main_pc

abbreviation set_cpc :: "nat \<Rightarrow> thread_pc \<Rightarrow> cmachine \<Rightarrow> cmachine" where
  "set_cpc t p m \<equiv> m\<lparr>cm_pc := (cm_pc m)[t := p]\<rparr>"

section \<open>Steps\<close>

text \<open>One round of the loops of \<open>thread_wait\<close>: whether it returns, and the new state.\<close>

definition cli_thread_wait :: "nat \<Rightarrow> cmachine \<Rightarrow> bool \<times> cmachine" where
  "cli_thread_wait t m =
     (let s = cm_cli m;
          nn = c_thread_num (c_sys (c_cfg s))
      in
      if t \<noteq> 0 then (cm_rel m \<or> c_stop s, m)
      else if c_n_on_threads s \<noteq> ucast nn then (c_stop s, m)
      else (True, m\<lparr>cm_rel := True\<rparr>))"

definition client_udp_epoll_run_event_loop :: "kernel \<Rightarrow> nat \<Rightarrow> cmachine \<Rightarrow> cmachine option" where
  "client_udp_epoll_run_event_loop K t m =
     (let s = cm_cli m in
      case cm_pc m ! t of
        Unspawned \<Rightarrow> None
      | Spawned \<Rightarrow> Some (set_cpc t Marked (m\<lparr>cm_cli := upd_cthread t (\<lambda>x. x\<lparr>ct_is_online := True\<rparr>) s\<rparr>))
      | Marked \<Rightarrow> Some (set_cpc t Waiting (m\<lparr>cm_cli := s\<lparr>c_n_on_threads := c_n_on_threads s + 1\<rparr>\<rparr>))
      | Waiting \<Rightarrow> (case cli_thread_wait t m of (done, m') \<Rightarrow> Some (if done then set_cpc t Looping m' else m'))
      | Looping \<Rightarrow>
          if c_stop s then Some (set_cpc t (Leaving 0) m)
          else do {
            (ret, s') \<leftarrow> cli_do_epoll_wait K t s;
            Some (if ret \<noteq> 0 then set_cpc t (Leaving ret) (m\<lparr>cm_cli := s'\<lparr>c_stop := True\<rparr>\<rparr>)
                  else m\<lparr>cm_cli := s'\<rparr>)
          }
      | Leaving r \<Rightarrow> Some (set_cpc t (Unmarked r) (m\<lparr>cm_cli := upd_cthread t (\<lambda>x. x\<lparr>ct_is_online := False\<rparr>) s\<rparr>))
      | Unmarked r \<Rightarrow> Some (set_cpc t (Exited r) (m\<lparr>cm_cli := s\<lparr>c_n_on_threads := c_n_on_threads s - 1\<rparr>\<rparr>))
      | Exited r \<Rightarrow> None)"

definition run_timer_thread :: "kernel \<Rightarrow> cmachine \<Rightarrow> cmachine option" where
  "run_timer_thread K m =
     (let s = cm_cli m in
      case cm_tt m of
        T_unspawned \<Rightarrow> None
      | T_spawned \<Rightarrow> Some (m\<lparr>cm_cli := (cli_call K s)\<lparr>tt_is_online := True\<rparr>, cm_tt := T_online\<rparr>)
      | T_online \<Rightarrow> Some (m\<lparr>cm_cli := s\<lparr>c_timeout_disconnect := False\<rparr>, cm_tt := T_looping\<rparr>)
      | T_looping \<Rightarrow> Some (m\<lparr>cm_tt := (if c_stop s then T_leaving else T_sleeping)\<rparr>)
      | T_sleeping \<Rightarrow> Some (m\<lparr>cm_cli := timer_round K s, cm_tt := T_looping\<rparr>)
      | T_leaving \<Rightarrow> Some (m\<lparr>cm_cli := s\<lparr>tt_is_online := False\<rparr>, cm_tt := T_exited\<rparr>)
      | T_exited \<Rightarrow> None)"

text \<open>
  \<open>pthread_create\<close> and \<open>pthread_detach\<close>, which return an error number: the result of the
  spawning function and whether the thread was created.
\<close>

definition cli_pthread :: "kernel \<Rightarrow> cli_udp_state \<Rightarrow> int \<times> bool \<times> cli_udp_state" where
  "cli_pthread K s =
     (let (ret, s1) = cli_sys_call K s in
      if ret \<noteq> 0 then (- ret, False, s1)
      else
        let (ret, s2) = cli_sys_call K s1 in
        if ret \<noteq> 0 then (- ret, True, s2) else (ret, True, s2))"

definition cli_spawn_thread :: "kernel \<Rightarrow> nat \<Rightarrow> cmachine \<Rightarrow> int \<times> cmachine" where
  "cli_spawn_thread K t m =
     (case cli_pthread K (cm_cli m) of
        (ret, created, s) \<Rightarrow> (ret, (if created then set_cpc t Spawned m else m)\<lparr>cm_cli := s\<rparr>))"

definition spawn_timer_thread :: "kernel \<Rightarrow> cmachine \<Rightarrow> int \<times> cmachine" where
  "spawn_timer_thread K m =
     (case cli_pthread K (cm_cli m) of
        (ret, created, s) \<Rightarrow> (ret, m\<lparr>cm_cli := s, cm_tt := (if created then T_spawned else cm_tt m)\<rparr>))"

definition cli_run_event_loop :: "kernel \<Rightarrow> cmachine \<Rightarrow> cmachine option" where
  "cli_run_event_loop K m =
     (let s = cm_cli m;
          nn = unat (c_thread_num (c_sys (c_cfg s)))
      in
      case cm_main m of
        C_tt \<Rightarrow>
          (case spawn_timer_thread K m of
             (ret, m') \<Rightarrow> Some (m'\<lparr>cm_main := (if ret \<noteq> 0 then C_tt_check ret else C_reset)\<rparr>))
      | C_reset \<Rightarrow> Some (m\<lparr>cm_cli := s\<lparr>c_n_on_threads := 0\<rparr>, cm_main := C_spawn 1\<rparr>)
      | C_spawn i \<Rightarrow>
          if i < nn then
            (case cli_spawn_thread K i m of
               (ret, m') \<Rightarrow> Some (m'\<lparr>cm_main := (if ret \<noteq> 0 then C_tt_check ret else C_spawn (i + 1))\<rparr>))
          else Some (set_cpc 0 Spawned (m\<lparr>cm_main := C_run\<rparr>))
      | C_run \<Rightarrow> (case cm_pc m ! 0 of Exited r \<Rightarrow> Some (m\<lparr>cm_main := C_tt_check r\<rparr>) | _ \<Rightarrow> None)
      | _ \<Rightarrow> None)"

text \<open>
  \<open>pthread_kill\<close> with SIGTERM runs the signal handler in the thread when it succeeds.
\<close>

definition cli_pthread_kill :: "kernel \<Rightarrow> cli_udp_state \<Rightarrow> cli_udp_state" where
  "cli_pthread_kill K s =
     (let (ret, s1) = cli_sys_call K s in if ret \<noteq> 0 then s1 else cli_signal_intr_handler 15 s1)"

text \<open>
  \<open>wait_for_threads_to_exit\<close>: the entry tests and a round of its two polling loops, whose
  counter is \<open>wait_c\<close>.
\<close>

definition cli_wait_for_threads_to_exit :: "kernel \<Rightarrow> cmachine \<Rightarrow> cmachine option" where
  "cli_wait_for_threads_to_exit K m =
     (let s = cm_cli m in
      case cm_main m of
        C_tt_check r \<Rightarrow>
          if tt_is_online s then Some (m\<lparr>cm_cli := cli_pthread_kill K s, cm_main := C_tt_poll 0 r\<rparr>)
          else Some (m\<lparr>cm_main := C_tun_check r\<rparr>)
      | C_tt_poll c r \<Rightarrow>
          if tt_is_online s then Some (m\<lparr>cm_main := (if c > 1000 then C_destroy False r else C_tt_poll (c + 1) r)\<rparr>)
          else Some (m\<lparr>cm_main := C_tun_check r\<rparr>)
      | C_tun_check r \<Rightarrow>
          if c_n_on_threads s = 0 then Some (m\<lparr>cm_main := C_destroy True r\<rparr>)
          else Some (m\<lparr>cm_cli := fold (\<lambda>x s. if ct_is_online x then cli_pthread_kill K s else s) (c_threads s) s,
                       cm_main := C_tun_poll 0 r\<rparr>)
      | C_tun_poll c r \<Rightarrow>
          if c_n_on_threads s > 0 then Some (m\<lparr>cm_main := (if c > 1000 then C_destroy False r else C_tun_poll (c + 1) r)\<rparr>)
          else Some (m\<lparr>cm_main := C_destroy True r\<rparr>)
      | _ \<Rightarrow> None)"

text \<open>The last step of \<open>destroy_epoll\<close>.\<close>

definition cli_finish_epoll :: "cmachine \<Rightarrow> cmachine option" where
  "cli_finish_epoll m =
     (case cm_main m of
        C_destroy ex r \<Rightarrow> Some (m\<lparr>cm_cli := cli_destroy_epoll ex (cm_cli m), cm_main := C_end ex r\<rparr>)
      | _ \<Rightarrow> None)"

definition teavpn2_client_udp_stop :: "cli_udp_state \<Rightarrow> cli_udp_state" where
  "teavpn2_client_udp_stop s = s\<lparr>c_stop := True\<rparr>"

inductive cstep :: "kernel \<Rightarrow> cmachine \<Rightarrow> cmachine \<Rightarrow> bool" for K where
  worker: "t < length (cm_pc m) \<Longrightarrow> client_udp_epoll_run_event_loop K t m = Some m' \<Longrightarrow> cstep K m m'"
| timer: "run_timer_thread K m = Some m' \<Longrightarrow> cstep K m m'"
| main_run: "cli_run_event_loop K m = Some m' \<Longrightarrow> cstep K m m'"
| main_wait: "cli_wait_for_threads_to_exit K m = Some m' \<Longrightarrow> cstep K m m'"
| main_end: "cli_finish_epoll m = Some m' \<Longrightarrow> cstep K m m'"
| signal: "cstep K m (m\<lparr>cm_cli := cli_signal_intr_handler sg (cm_cli m)\<rparr>)"
| gui_stop: "cstep K m (m\<lparr>cm_cli := teavpn2_client_udp_stop (cm_cli m)\<rparr>)"

inductive_cases cstepE: "cstep K m m'"

section \<open>The run\<close>

definition cli_start_machine :: "cli_udp_state \<Rightarrow> cmachine" where
  "cli_start_machine s = \<lparr>cm_cli = s, cm_pc = replicate (unat (c_thread_num (c_sys (c_cfg s)))) Unspawned,
     cm_rel = False, cm_tt = T_unspawned, cm_main = C_tt\<rparr>"

definition teavpn2_udp_client_epoll :: "kernel \<Rightarrow> cli_udp_state \<Rightarrow> cmachine option" where
  "teavpn2_udp_client_epoll K s = do {
     (ret, s1) \<leftarrow> cli_init_epoll_thread_array K s;
     Some (if ret \<noteq> 0 then (cli_start_machine s1)\<lparr>cm_main := C_tt_check ret\<rparr>
           else cli_start_machine (set_last_t K (s1\<lparr>c_stop := False\<rparr>)))
   }"

text \<open>The event loop either refuses with an error or is the machine; \<open>None\<close> is a panic.\<close>

definition run_client_event_loop :: "kernel \<Rightarrow> cli_udp_state \<Rightarrow> (int + cmachine) option" where
  "run_client_event_loop K s =
     (case c_evt_loop s of
        EVTL_EPOLL \<Rightarrow> map_option Inr (teavpn2_udp_client_epoll K s)
      | EVTL_IO_URING \<Rightarrow> Some (Inl (- EOPNOTSUPP))
      | EVTL_NOP \<Rightarrow> None)"

definition teavpn2_client_udp_run :: "kernel \<Rightarrow> cli_cfg \<Rightarrow> ((int \<times> cli_udp_state) + cmachine) option" where
  "teavpn2_client_udp_run K c =
     (if \<not> k_malloc K 0 then Some (Inl (- ENOMEM, cli_zero_state c))
      else do {
        (ret, s) \<leftarrow> client_connect K (cli_zero_state c);
        if ret \<noteq> 0 then map_option Inl (client_out K ret s)
        else do {
          r \<leftarrow> run_client_event_loop K s;
          (case r of Inl ret \<Rightarrow> map_option Inl (client_out K ret s) | Inr m \<Rightarrow> Some (Inr m))
        }
      })"

text \<open>The end of the run, once the main thread has returned from the event loop.\<close>

definition client_udp_exit :: "kernel \<Rightarrow> cmachine \<Rightarrow> (int \<times> cli_udp_state) option" where
  "client_udp_exit K m = (case cm_main m of C_end ex ret \<Rightarrow> client_out K ret (cm_cli m) | _ \<Rightarrow> None)"
section \<open>What a round leaves alone\<close>

text \<open>The counter of the threads and the configuration stay, and a stop stays.\<close>

definition served :: "cli_udp_state \<Rightarrow> cli_udp_state \<Rightarrow> bool" where
  "served s s' \<longleftrightarrow> c_n_on_threads s' = c_n_on_threads s \<and> c_cfg s' = c_cfg s \<and> (c_stop s \<longrightarrow> c_stop s')"

lemma served_refl [simp]: "served s s"
  by (simp add: served_def)

lemma served_trans: "served s t \<Longrightarrow> served t u \<Longrightarrow> served s u"
  by (simp add: served_def)

lemma served_call: "served s (cli_call K s)"
  by (auto simp: served_def frame) (simp add: cli_call_def cli_signal_intr_handler_def Let_def split: option.split)

lemma served_upd [simp]:
  "served s (cli_event x t) = served s t" "served s (upd_cthread i f t) = served s t"
  "served s (t\<lparr>c_last_t := a\<rparr>) = served s t" "served s (t\<lparr>c_loop_c := b\<rparr>) = served s t"
  "served s (t\<lparr>c_timeout_disconnect := d\<rparr>) = served s t" "served s (t\<lparr>tt_is_online := d\<rparr>) = served s t"
  by (simp_all add: served_def cli_event_def upd_cthread_def)

lemma served_stop: "served s t \<Longrightarrow> served s (t\<lparr>c_stop := True\<rparr>)"
  by (simp add: served_def)

lemma served_signal: "served s (cli_signal_intr_handler sg s)"
  by (simp add: served_def cli_signal_intr_handler_def)

lemma served_send: "cli_do_send_to K m n s = (r, s') \<Longrightarrow> served s s'"
  using served_call [of s K] by (auto simp: cli_do_send_to_def Let_def)

lemma served_last_t: "served s (set_last_t K s)"
  using served_call [of s K] by (auto simp: set_last_t_def cli_get_unix_time_def split: sum.split)

lemma served_srvpkt: "handle_srvpkt K pkt s = (r, pkt', s') \<Longrightarrow> served s s'"
  using served_call [of s K] served_last_t [of s K]
  by (auto simp: handle_srvpkt_def handle_tun_data_def handle_req_sync_def Let_def served_stop
      split: if_splits prod.splits dest!: served_send intro: served_trans served_last_t)

lemma served_event:
  assumes "cli_handle_event K fd pkt s = (r, pkt', s')"
  shows "served s s'"
proof -
  have u: "served s s1" if "handle_event_udp K pkt s = (r1, pkt1, s1)" for r1 pkt1 s1
    using that served_call [of s K]
    by (auto simp: handle_event_udp_def recv_from_server_def cli_do_recv_from_def
        split: if_splits prod.splits dest!: served_srvpkt intro: served_trans)
  have t: "served s s1" if "handle_event_tun K pkt s = (r1, pkt1, s1)" for r1 pkt1 s1
    using that served_call [of s K]
    by (auto simp: handle_event_tun_def Let_def split: if_splits prod.splits dest!: served_send intro: served_trans)
  obtain r1 pkt1 s1 where e: "(if fd = c_udp_fd s then handle_event_udp K pkt s else handle_event_tun K pkt s) = (r1, pkt1, s1)"
    by (metis prod.exhaust)
  have "served s s1" using e u t by (auto split: if_splits)
  then have "served s (s1\<lparr>c_loop_c := c_loop_c s1 + 1\<rparr>)" by simp
  then show ?thesis
    using assms e served_trans served_last_t by (fastforce simp: cli_handle_event_def Let_def split: if_splits)
qed

lemma served_events: "cli_handle_events K evs pkt s = (r, pkt', s') \<Longrightarrow> served s s'"
proof (induction evs arbitrary: pkt s)
  case (Cons fd evs)
  obtain r1 pkt1 s1 where e: "cli_handle_event K fd pkt s = (r1, pkt1, s1)" by (metis prod.exhaust)
  then show ?case using Cons served_event [OF e] by (auto split: if_splits intro: served_trans)
qed simp

lemma served_round:
  assumes "cli_do_epoll_wait K t s = Some (r, s')"
  shows "served s s'"
proof -
  obtain r0 evs where w: "cli_epoll_wait K s = (r0, evs, cli_call K s)"
    by (cases "k_epoll_wait K (c_tick s)") (simp add: cli_epoll_wait_def)
  show ?thesis
  proof (cases "r0 < 0")
    case True
    then show ?thesis using assms w served_call by (auto simp: cli_do_epoll_wait_def)
  next
    case False
    then obtain pkt where p: "ct_pkt (c_threads (cli_call K s) ! t) = Some pkt"
      using assms w by (auto simp: cli_do_epoll_wait_def bind_eq_Some_conv)
    obtain r1 pkt1 s2 where e: "cli_handle_events K (take (nat r0) evs) pkt (cli_call K s) = (r1, pkt1, s2)"
      by (metis prod.exhaust)
    then have "s' = upd_cthread t (\<lambda>x. x\<lparr>ct_pkt := Some pkt1\<rparr>) s2"
      using assms w False p by (simp add: cli_do_epoll_wait_def)
    then show ?thesis using served_events [OF e] served_call [of s K] served_trans by simp
  qed
qed

lemma served_timer: "served s (timer_round K s)"
proof -
  have q: "served u (tt_reqsyncs K i u)" for i u
  proof (induction i arbitrary: u)
    case (Suc i)
    have "served u (tt_send_reqsync K u)"
      using served_call [of u K] by (simp add: tt_send_reqsync_def cli_do_send_to_def Let_def split: prod.split)
    then show ?case using Suc served_trans by simp
  qed simp
  have "served s (tt_reqsyncs K i (cli_call K s))" for i by (rule served_trans [OF served_call q])
  then show ?thesis
    by (simp add: timer_round_def cli_get_unix_time_def Let_def served_stop served_call
        del: tt_reqsyncs.simps split: sum.split)
qed

section \<open>The client refines the pool\<close>

fun cli_phase :: "cli_main_pc \<Rightarrow> pool_main" where
  "cli_phase C_tt = Starting 1"
| "cli_phase C_reset = Starting 1"
| "cli_phase (C_spawn i) = Starting i"
| "cli_phase C_run = Serving"
| "cli_phase (C_destroy ex r) = (if ex then Freed else Gave_Up)"
| "cli_phase (C_end ex r) = (if ex then Freed else Gave_Up)"
| "cli_phase _ = Stopping"

definition cli_pool :: "cmachine \<Rightarrow> pool" where
  "cli_pool m = \<lparr>p_pc = cm_pc m, p_cnt = unat (c_n_on_threads (cm_cli m)), p_rel = cm_rel m,
     p_stop = c_stop (cm_cli m), p_main = cli_phase (cm_main m)\<rparr>"

definition cli_wf :: "cmachine \<Rightarrow> bool" where
  "cli_wf m \<longleftrightarrow> length (cm_pc m) = unat (c_thread_num (c_sys (c_cfg (cm_cli m))))"

text \<open>A step that moves no worker and not the main thread's phase.\<close>

lemma pool_quiet:
  assumes "served (cm_cli m) (cm_cli m')" "cm_pc m' = cm_pc m" "cm_rel m' = cm_rel m"
    "cli_phase (cm_main m') = cli_phase (cm_main m)"
  shows "pool_step\<^sup>*\<^sup>* (cli_pool m) (cli_pool m')"
proof (cases "c_stop (cm_cli m') = c_stop (cm_cli m)")
  case True
  then have "cli_pool m' = cli_pool m" using assms by (simp add: cli_pool_def served_def)
  then show ?thesis by simp
next
  case False
  then have "cli_pool m' = (cli_pool m)\<lparr>p_stop := True\<rparr>" using assms by (auto simp: cli_pool_def served_def)
  then show ?thesis using pool_step.stop_all [of "cli_pool m"] by simp
qed

text \<open>The counter does not wrap.\<close>

lemma cli_count:
  assumes "cli_wf m" "pool_inv (cli_pool m)"
  shows "unat (c_n_on_threads (cm_cli m) + 1) = unat (c_n_on_threads (cm_cli m)) + 1"
    "t < length (cm_pc m) \<Longrightarrow> counted (cm_pc m ! t) \<Longrightarrow>
      unat (c_n_on_threads (cm_cli m) - 1) = unat (c_n_on_threads (cm_cli m)) - 1"
proof -
  have c: "unat (c_n_on_threads (cm_cli m)) = length (filter counted (cm_pc m))"
    using assms(2) by (simp add: pool_inv_def cli_pool_def)
  moreover have "length (filter counted (cm_pc m)) \<le> length (cm_pc m)" by (rule length_filter_le)
  moreover have "length (cm_pc m) < 256"
    using assms(1) unsigned_less [of "c_thread_num (c_sys (c_cfg (cm_cli m)))", where 'a = nat] by (simp add: cli_wf_def)
  ultimately have "unat (c_n_on_threads (cm_cli m)) < 256" by linarith
  then show "unat (c_n_on_threads (cm_cli m) + 1) = unat (c_n_on_threads (cm_cli m)) + 1" by (simp add: unat_word_ariths)
  show "unat (c_n_on_threads (cm_cli m) - 1) = unat (c_n_on_threads (cm_cli m)) - 1"
    if "t < length (cm_pc m)" "counted (cm_pc m ! t)"
  proof -
    have "0 < unat (c_n_on_threads (cm_cli m))"
      unfolding c using that by (metis length_greater_0_conv filter_empty_conv nth_mem)
    then show ?thesis by (metis One_nat_def unat_minus_one unat_gt_0)
  qed
qed

lemma worker_pool_step:
  assumes wf: "cli_wf m" and inv: "pool_inv (cli_pool m)" and t: "t < length (cm_pc m)"
    and w: "client_udp_epoll_run_event_loop K t m = Some m'"
  shows "cli_wf m' \<and> pool_step\<^sup>*\<^sup>* (cli_pool m) (cli_pool m')"
proof (cases "cm_pc m ! t")
  case Spawned
  then have m': "m' = set_cpc t Marked (m\<lparr>cm_cli := upd_cthread t (\<lambda>x. x\<lparr>ct_is_online := True\<rparr>) (cm_cli m)\<rparr>)"
    using w by (simp add: client_udp_epoll_run_event_loop_def Let_def)
  then have "cli_pool m' = pool_set t Marked (cli_pool m)" by (simp add: cli_pool_def upd_cthread_def)
  then show ?thesis using pool_step.mark [of t "cli_pool m"] t wf Spawned
    by (simp add: m' cli_wf_def upd_cthread_def cli_pool_def r_into_rtranclp)
next
  case Marked
  then have m': "m' = set_cpc t Waiting (m\<lparr>cm_cli := (cm_cli m)\<lparr>c_n_on_threads := c_n_on_threads (cm_cli m) + 1\<rparr>\<rparr>)"
    using w by (simp add: client_udp_epoll_run_event_loop_def Let_def)
  then have "cli_pool m' = (pool_set t Waiting (cli_pool m))\<lparr>p_cnt := p_cnt (cli_pool m) + 1\<rparr>"
    using cli_count(1) [OF wf inv] by (simp add: cli_pool_def)
  then show ?thesis using pool_step.count [of t "cli_pool m"] t wf Marked
    by (simp add: m' cli_wf_def cli_pool_def r_into_rtranclp)
next
  case Waiting
  obtain d m1 where tw: "cli_thread_wait t m = (d, m1)" by fastforce
  have m': "m' = (if d then set_cpc t Looping m1 else m1)"
    using w Waiting tw by (simp add: client_udp_epoll_run_event_loop_def Let_def)
  show ?thesis
  proof (cases "t = 0 \<and> c_n_on_threads (cm_cli m) = ucast (c_thread_num (c_sys (c_cfg (cm_cli m))))")
    case True
    then have e: "d" "m1 = m\<lparr>cm_rel := True\<rparr>" using tw by (auto simp: cli_thread_wait_def Let_def)
    have "p_cnt (cli_pool m) = length (p_pc (cli_pool m))" using True wf u8_u16 by (simp add: cli_pool_def cli_wf_def)
    then have "pool_step (cli_pool m) ((pool_set 0 Looping (cli_pool m))\<lparr>p_rel := True\<rparr>)"
      using t Waiting True by (intro pool_step.release) (auto simp: cli_pool_def)
    moreover have "cli_pool m' = (pool_set 0 Looping (cli_pool m))\<lparr>p_rel := True\<rparr>" using e True by (simp add: m' cli_pool_def)
    ultimately show ?thesis using wf e by (simp add: m' cli_wf_def r_into_rtranclp)
  next
    case False
    then have e: "m1 = m" "d \<longrightarrow> cm_rel m \<or> c_stop (cm_cli m)" using tw by (auto simp: cli_thread_wait_def Let_def split: if_splits)
    have "pool_step (cli_pool m) (pool_set t Looping (cli_pool m))" if d
      using t Waiting e that by (intro pool_step.go) (auto simp: cli_pool_def)
    moreover have "cli_pool (set_cpc t Looping m) = pool_set t Looping (cli_pool m)" by (simp add: cli_pool_def)
    ultimately show ?thesis using wf e by (cases d) (simp_all add: m' cli_wf_def r_into_rtranclp)
  qed
next
  case Looping
  have lv: "pool_step q (pool_set t (Leaving r) q)" if "p_pc q = cm_pc m" for q r
    using t Looping that by (intro pool_step.leave) simp_all
  show ?thesis
  proof (cases "c_stop (cm_cli m)")
    case True
    then have m': "m' = set_cpc t (Leaving 0) m" using w Looping by (simp add: client_udp_epoll_run_event_loop_def Let_def)
    then have "cli_pool m' = pool_set t (Leaving 0) (cli_pool m)" by (simp add: cli_pool_def)
    then show ?thesis using lv [of "cli_pool m" 0] wf by (simp add: m' cli_wf_def cli_pool_def r_into_rtranclp)
  next
    case False
    then obtain r s' where r: "cli_do_epoll_wait K t (cm_cli m) = Some (r, s')"
        and m': "m' = (if r \<noteq> 0 then set_cpc t (Leaving r) (m\<lparr>cm_cli := s'\<lparr>c_stop := True\<rparr>\<rparr>) else m\<lparr>cm_cli := s'\<rparr>)"
      using w Looping by (auto simp: client_udp_epoll_run_event_loop_def Let_def bind_eq_Some_conv)
    have sv: "served (cm_cli m) s'" by (rule served_round [OF r])
    let ?m1 = "m\<lparr>cm_cli := (if r \<noteq> 0 then s'\<lparr>c_stop := True\<rparr> else s')\<rparr>"
    have q: "pool_step\<^sup>*\<^sup>* (cli_pool m) (cli_pool ?m1)" by (rule pool_quiet) (use sv served_stop in auto)
    have "cli_wf m'" using wf sv by (simp add: m' cli_wf_def served_def)
    moreover have "pool_step (cli_pool ?m1) (cli_pool m')" if "r \<noteq> 0"
      using lv [of "cli_pool ?m1" r] that by (simp add: m' cli_pool_def)
    ultimately show ?thesis using q by (cases "r = 0") (auto simp: m' intro: rtranclp.rtrancl_into_rtrancl)
  qed
next
  case (Leaving r)
  then have m': "m' = set_cpc t (Unmarked r) (m\<lparr>cm_cli := upd_cthread t (\<lambda>x. x\<lparr>ct_is_online := False\<rparr>) (cm_cli m)\<rparr>)"
    using w by (simp add: client_udp_epoll_run_event_loop_def Let_def)
  then have "cli_pool m' = pool_set t (Unmarked r) (cli_pool m)" by (simp add: cli_pool_def upd_cthread_def)
  then show ?thesis using pool_step.unmark [of t "cli_pool m" r] t wf Leaving
    by (simp add: m' cli_wf_def upd_cthread_def cli_pool_def r_into_rtranclp)
next
  case (Unmarked r)
  then have m': "m' = set_cpc t (Exited r) (m\<lparr>cm_cli := (cm_cli m)\<lparr>c_n_on_threads := c_n_on_threads (cm_cli m) - 1\<rparr>\<rparr>)"
    using w by (simp add: client_udp_epoll_run_event_loop_def Let_def)
  then have "cli_pool m' = (pool_set t (Exited r) (cli_pool m))\<lparr>p_cnt := p_cnt (cli_pool m) - 1\<rparr>"
    using cli_count(2) [OF wf inv t] Unmarked by (simp add: cli_pool_def)
  then show ?thesis using pool_step.uncount [of t "cli_pool m" r] t wf Unmarked
    by (simp add: m' cli_wf_def cli_pool_def r_into_rtranclp)
qed (use w in \<open>simp_all add: client_udp_epoll_run_event_loop_def Let_def\<close>)
lemma pthread_served: "cli_pthread K s = (ret, created, s') \<Longrightarrow> served s s' \<and> (\<not> created \<longrightarrow> ret \<noteq> 0)"
  using served_call [of s K] served_call [of "cli_call K s" K]
  by (auto simp: cli_pthread_def cli_sys_call_def intro: served_trans split: if_splits)

lemma kill_served: "served s (cli_pthread_kill K s)"
  using served_call [of s K] served_signal [of "cli_call K s" 15]
  by (auto simp: cli_pthread_kill_def cli_sys_call_def intro: served_trans)

lemma kills_served: "served s (fold (\<lambda>x s. if ct_is_online x then cli_pthread_kill K s else s) xs s)"
proof (induction xs arbitrary: s)
  case (Cons x xs)
  then show ?case using kill_served [of s K] by (auto intro: served_trans)
qed simp

lemma main_run_pool:
  assumes wf: "cli_wf m" and inv: "pool_inv (cli_pool m)" and r: "cli_run_event_loop K m = Some m'"
  shows "cli_wf m' \<and> pool_step\<^sup>*\<^sup>* (cli_pool m) (cli_pool m')"
proof (cases "cm_main m")
  case C_tt
  obtain ret created s1 where p: "cli_pthread K (cm_cli m) = (ret, created, s1)" by (metis prod.exhaust)
  have m': "m' = m\<lparr>cm_cli := s1, cm_tt := (if created then T_spawned else cm_tt m),
      cm_main := (if ret \<noteq> 0 then C_tt_check ret else C_reset)\<rparr>"
    using r C_tt p by (simp add: cli_run_event_loop_def spawn_timer_thread_def Let_def)
  have sv: "served (cm_cli m) s1" using pthread_served [OF p] by simp
  let ?m1 = "m\<lparr>cm_cli := s1\<rparr>"
  have q: "pool_step\<^sup>*\<^sup>* (cli_pool m) (cli_pool ?m1)" by (rule pool_quiet) (use sv in simp_all)
  have "pool_step (cli_pool ?m1) ((cli_pool ?m1)\<lparr>p_main := Stopping\<rparr>)"
    by (rule pool_step.spawn_fail) (simp add: cli_pool_def C_tt)
  then have "pool_step\<^sup>*\<^sup>* (cli_pool ?m1) (cli_pool m')" using C_tt by (auto simp: m' cli_pool_def)
  then show ?thesis using q wf sv by (auto simp: m' cli_wf_def served_def)
next
  case C_reset
  have m': "m' = m\<lparr>cm_cli := (cm_cli m)\<lparr>c_n_on_threads := 0\<rparr>, cm_main := C_spawn 1\<rparr>"
    using r C_reset by (simp add: cli_run_event_loop_def Let_def)
  have "cm_pc m ! 0 = Unspawned \<and> (\<forall>t. 1 \<le> t \<and> t < length (cm_pc m) \<longrightarrow> cm_pc m ! t = Unspawned)"
    using inv C_reset by (simp add: pool_inv_def cli_pool_def)
  then have "cm_pc m ! t = Unspawned" if "t < length (cm_pc m)" for t using that by (cases t) auto
  then have "filter counted (cm_pc m) = []" by (auto simp: filter_empty_conv in_set_conv_nth)
  then have "unat (c_n_on_threads (cm_cli m)) = 0" using inv by (simp add: pool_inv_def cli_pool_def)
  then have "cli_pool m' = cli_pool m" by (simp add: m' cli_pool_def C_reset)
  then show ?thesis using wf by (simp add: m' cli_wf_def)
next
  case (C_spawn i)
  show ?thesis
  proof (cases "i < length (cm_pc m)")
    case False
    then have m': "m' = set_cpc 0 Spawned (m\<lparr>cm_main := C_run\<rparr>)"
      using r C_spawn wf by (simp add: cli_run_event_loop_def cli_wf_def Let_def)
    have "pool_step (cli_pool m) ((pool_set 0 Spawned (cli_pool m))\<lparr>p_main := Serving\<rparr>)"
      by (rule pool_step.serve) (use C_spawn False in \<open>simp_all add: cli_pool_def\<close>)
    then show ?thesis using wf by (simp add: m' cli_wf_def cli_pool_def r_into_rtranclp)
  next
    case True
    obtain ret created s1 where p: "cli_pthread K (cm_cli m) = (ret, created, s1)" by (metis prod.exhaust)
    have m': "m' = (if created then set_cpc i Spawned m else m)
        \<lparr>cm_cli := s1, cm_main := (if ret \<noteq> 0 then C_tt_check ret else C_spawn (i + 1))\<rparr>"
      using r C_spawn True wf p by (simp add: cli_run_event_loop_def cli_spawn_thread_def cli_wf_def Let_def)
    have sv: "served (cm_cli m) s1" "\<not> created \<longrightarrow> ret \<noteq> 0" using pthread_served [OF p] by simp_all
    let ?m1 = "m\<lparr>cm_cli := s1\<rparr>"
    have q: "pool_step\<^sup>*\<^sup>* (cli_pool m) (cli_pool ?m1)" by (rule pool_quiet) (use sv in simp_all)
    have "pool_step (cli_pool ?m1) (cli_pool m')"
    proof (cases created)
      case True
      have "pool_step (cli_pool ?m1) ((pool_set i Spawned (cli_pool ?m1))\<lparr>p_main := cli_phase (cm_main m')\<rparr>)"
        by (rule pool_step.spawn [of _ i]) (use C_spawn \<open>i < length (cm_pc m)\<close> in \<open>auto simp: cli_pool_def m'\<close>)
      then show ?thesis using True by (simp add: m' cli_pool_def)
    next
      case False
      have "pool_step (cli_pool ?m1) ((cli_pool ?m1)\<lparr>p_main := Stopping\<rparr>)"
        by (rule pool_step.spawn_fail) (simp add: cli_pool_def C_spawn)
      then show ?thesis using False sv(2) by (simp add: m' cli_pool_def)
    qed
    then show ?thesis using q wf sv by (auto simp: m' cli_wf_def served_def)
  qed
next
  case C_run
  then obtain c where c: "cm_pc m ! 0 = Exited c" and m': "m' = m\<lparr>cm_main := C_tt_check c\<rparr>"
    using r by (auto simp: cli_run_event_loop_def Let_def split: thread_pc.splits)
  have "pool_step (cli_pool m) ((cli_pool m)\<lparr>p_main := Stopping\<rparr>)"
    by (rule pool_step.served) (use C_run c in \<open>simp_all add: cli_pool_def\<close>)
  then show ?thesis using wf by (simp add: m' cli_wf_def cli_pool_def r_into_rtranclp)
qed (use r in \<open>simp_all add: cli_run_event_loop_def Let_def\<close>)

lemma main_wait_pool:
  assumes wf: "cli_wf m" and w: "cli_wait_for_threads_to_exit K m = Some m'"
  shows "cli_wf m' \<and> pool_step\<^sup>*\<^sup>* (cli_pool m) (cli_pool m')"
proof -
  have sv: "served (cm_cli m) (cm_cli m') \<and> cm_pc m' = cm_pc m \<and> cm_rel m' = cm_rel m \<and> cli_phase (cm_main m) = Stopping"
    using w kill_served [of "cm_cli m" K] kills_served [of "cm_cli m" K "c_threads (cm_cli m)"]
    by (auto simp: cli_wait_for_threads_to_exit_def Let_def split: cli_main_pc.splits if_splits)
  have ph: "cli_phase (cm_main m') \<in> {Stopping, Gave_Up, Freed}"
      "cli_phase (cm_main m') = Freed \<longrightarrow> c_n_on_threads (cm_cli m) = 0"
    using w by (auto simp: cli_wait_for_threads_to_exit_def Let_def word_gt_0 split: cli_main_pc.splits if_splits)
  let ?m1 = "m\<lparr>cm_cli := cm_cli m'\<rparr>"
  have q: "pool_step\<^sup>*\<^sup>* (cli_pool m) (cli_pool ?m1)" by (rule pool_quiet) (use sv in simp_all)
  have p: "p_main (cli_pool ?m1) = Stopping" using sv by (simp add: cli_pool_def)
  have e: "cli_pool m' = (cli_pool ?m1)\<lparr>p_main := cli_phase (cm_main m')\<rparr>" using sv by (simp add: cli_pool_def)
  have "p_cnt (cli_pool ?m1) = 0" if "cli_phase (cm_main m') = Freed"
    using ph(2) that sv by (simp add: cli_pool_def served_def)
  then have "pool_step\<^sup>*\<^sup>* (cli_pool ?m1) (cli_pool m')"
  proof (cases "cli_phase (cm_main m') = Stopping")
    case True
    then have "cli_pool m' = cli_pool ?m1" using sv by (simp add: cli_pool_def)
    then show ?thesis by simp
  next
    case False
    then show ?thesis using ph(1) pool_step.free [OF p] pool_step.give_up [OF p] \<open>_ \<Longrightarrow> p_cnt _ = 0\<close> unfolding e by auto
  qed
  then show ?thesis using q wf sv by (auto simp: cli_wf_def served_def)
qed
text \<open>The machine that \<open>teavpn2_udp_client_epoll\<close> starts.\<close>

definition cli_started :: "kernel \<Rightarrow> cmachine \<Rightarrow> bool" where
  "cli_started K m \<longleftrightarrow> (\<exists>s. teavpn2_udp_client_epoll K s = Some m \<and> c_n_on_threads s = 0
     \<and> 1 \<le> c_thread_num (c_sys (c_cfg s)))"

lemma registration_served: "do_epoll_fd_registration K t s = Some (r, s') \<Longrightarrow> served s s'"
proof -
  have a: "served u u'" if "cli_epoll_add K t fd u = (r, u')" for fd u r u'
    using that served_call [of u K] by (auto simp: cli_epoll_add_def cli_sys_call_def split: if_splits)
  show "do_epoll_fd_registration K t s = Some (r, s') \<Longrightarrow> served s s'"
    by (auto simp: do_epoll_fd_registration_def Let_def split: if_splits prod.splits dest!: a intro: served_trans)
qed

lemma init_thread_served:
  assumes "cli_init_epoll_thread K t s = Some (r, s')"
  shows "served s s'"
proof -
  have u: "served s (upd_cthread t f (cli_event x (cli_call K s)))" for f x using served_call by simp
  show ?thesis
    using assms served_call [of s K] served_trans [OF u registration_served]
    by (auto simp: cli_init_epoll_thread_def cli_create_epoll_fd_def cli_sys_call_def Let_def split: if_splits)
qed

lemma init_loop_served: "cli_init_threads_loop K ts s = Some (r, s') \<Longrightarrow> served s s'"
proof (induction ts arbitrary: s)
  case (Cons t ts)
  obtain r1 s1 where i: "cli_init_epoll_thread K t s = Some (r1, s1)" using Cons.prems by (auto simp: bind_eq_Some_conv)
  note s1 = init_thread_served [OF i]
  then have c: "served s (cli_call K s1)" using served_call served_trans by blast
  then have u: "served s (upd_cthread t f (cli_call K s1))" for f by simp
  show ?case
    using Cons.prems i s1 c served_trans [OF u Cons.IH] by (auto simp: cli_sys_call_def split: if_splits)
qed simp

lemma init_array_served:
  assumes "cli_init_epoll_thread_array K s = Some (r, s')"
  shows "served s s'"
proof -
  have "served s (s\<lparr>c_threads := []\<rparr>)" by (simp add: served_def)
  then have c: "served s (cli_call K (s\<lparr>c_threads := []\<rparr>))" using served_call served_trans by blast
  then have "served s ((cli_call K (s\<lparr>c_threads := []\<rparr>))\<lparr>c_threads := th\<rparr>)" for th by (simp add: served_def)
  then show ?thesis
    using assms c by (auto simp: cli_init_epoll_thread_array_def Let_def split: if_splits dest!: init_loop_served intro: served_trans)
qed

lemma started_pool:
  assumes "cli_started K m"
  shows "cli_wf m \<and> pool_init (length (p_pc (cli_pool m))) (cli_pool m)"
proof -
  obtain s r s1 where s: "cli_init_epoll_thread_array K s = Some (r, s1)" "c_n_on_threads s = 0" "1 \<le> c_thread_num (c_sys (c_cfg s))"
      and m: "m = (if r \<noteq> 0 then (cli_start_machine s1)\<lparr>cm_main := C_tt_check r\<rparr>
           else cli_start_machine (set_last_t K (s1\<lparr>c_stop := False\<rparr>)))"
    using assms by (auto simp: cli_started_def teavpn2_udp_client_epoll_def bind_eq_Some_conv)
  have sv: "c_n_on_threads s1 = 0" "c_cfg s1 = c_cfg s" using init_array_served [OF s(1)] s(2) by (simp_all add: served_def)
  have l: "c_n_on_threads (set_last_t K (s1\<lparr>c_stop := False\<rparr>)) = 0" "c_cfg (set_last_t K (s1\<lparr>c_stop := False\<rparr>)) = c_cfg s"
    using served_last_t [of "s1\<lparr>c_stop := False\<rparr>" K] sv by (simp_all add: served_def)
  have "1 \<le> unat (c_thread_num (c_sys (c_cfg s)))" using s(3) by (simp add: word_le_nat_alt)
  then show ?thesis using sv l by (auto simp: m cli_start_machine_def cli_wf_def pool_init_def cli_pool_def)
qed

lemma cstep_pool:
  assumes wf: "cli_wf m" and inv: "pool_inv (cli_pool m)" and st: "cstep K m m'"
  shows "cli_wf m' \<and> pool_step\<^sup>*\<^sup>* (cli_pool m) (cli_pool m')"
  using st
proof cases
  case (worker t)
  then show ?thesis by (intro worker_pool_step [OF wf inv])
next
  case timer
  then have "served (cm_cli m) (cm_cli m') \<and> cm_pc m' = cm_pc m \<and> cm_rel m' = cm_rel m \<and> cm_main m' = cm_main m"
    using served_call [of "cm_cli m" K] served_timer [of "cm_cli m" K]
    by (auto simp: run_timer_thread_def Let_def split: tt_pc.splits)
  then show ?thesis using pool_quiet [of m m'] wf by (auto simp: cli_wf_def served_def)
next
  case main_run
  then show ?thesis by (rule main_run_pool [OF wf inv])
next
  case main_wait
  then show ?thesis by (rule main_wait_pool [OF wf])
next
  case main_end
  then obtain ex r where e: "cm_main m = C_destroy ex r" "m' = m\<lparr>cm_cli := cli_destroy_epoll ex (cm_cli m), cm_main := C_end ex r\<rparr>"
    by (auto simp: cli_finish_epoll_def split: cli_main_pc.splits)
  have "served t (fold (\<lambda>x s. if ct_epoll_fd x = -1 then s else cli_event (Close (ct_epoll_fd x)) s) xs t)" for xs t
  proof (induction xs arbitrary: t)
    case (Cons x xs)
    have "served t (if ct_epoll_fd x = -1 then t else cli_event (Close (ct_epoll_fd x)) t)" by simp
    then show ?case using Cons served_trans by (simp only: fold.simps o_def)
  qed simp
  then have "served (cm_cli m) (cli_destroy_epoll ex (cm_cli m))"
    by (auto simp: cli_destroy_epoll_def cli_close_epoll_fds_def served_def)
  then show ?thesis using pool_quiet [of m m'] wf e by (auto simp: cli_wf_def served_def)
next
  case (signal sg)
  then show ?thesis using pool_quiet [of m m'] served_signal [of "cm_cli m" sg] wf by (auto simp: cli_wf_def served_def)
next
  case gui_stop
  then show ?thesis
    using pool_quiet [of m m'] wf by (auto simp: cli_wf_def served_def teavpn2_client_udp_stop_def)
qed

interpretation cli: worker_pool cli_pool cli_wf "cli_started K" "cstep K"
  by unfold_locales (use started_pool cstep_pool in blast)+

end
