(* ===== verification/Cli_Run.thy ===== *)
theory Cli_Run
  imports Cli_Machine
begin

text \<open>
  Properties of the whole client: that \<open>teavpn2_client_udp_run\<close> returns, what it leaves behind
  when it fails, and what its threads promise.
\<close>

section \<open>Connecting\<close>

text \<open>
  The socket is the only connection and the first descriptor that is opened; it is closed again
  unless the state still has it, and a state with a socket has its buffer.
\<close>

definition sock_closed :: "io list \<Rightarrow> bool" where
  "sock_closed l \<longleftrightarrow> opened l = [] \<or> hd (opened l) \<in> set (closed l)"

definition linked :: "cli_udp_state \<Rightarrow> bool" where
  "linked s \<longleftrightarrow> (\<forall>x \<in> set (connects (c_io s)). fst x = c_udp_fd s \<and> c_udp_fd s \<noteq> -1)
     \<and> (sock_closed (c_io s) \<or> hd (opened (c_io s)) = c_udp_fd s \<and> c_udp_fd s \<noteq> -1)
     \<and> (c_udp_fd s \<noteq> -1 \<longrightarrow> c_pkt s \<noteq> None) \<and> \<not> c_threads_wont_exit s"

text \<open>What every later step relies on.\<close>

definition linked_buf :: "cli_udp_state \<Rightarrow> bool" where
  "linked_buf s \<longleftrightarrow> linked s \<and> c_pkt s \<noteq> None"

lemma set_signals_same: "cli_set_signals K n s = (ret, t) \<Longrightarrow> same_conn s t \<and> c_io t = c_io s"
proof (induction n arbitrary: s)
  case (Suc n)
  have "same_conn s (s\<lparr>c_tick := c_tick s + 1\<rparr>)" by (simp add: same_conn_def)
  then show ?case using Suc same_conn_trans by (fastforce simp: Let_def split: if_splits)
qed simp

lemma init_state_spec:
  assumes "cli_init_state K s = (ret, t)"
  shows "c_udp_fd t = -1 \<and> c_io t = c_io s \<and> c_threads_wont_exit t = c_threads_wont_exit s
    \<and> c_n_on_threads t = c_n_on_threads s \<and> c_thread_num (c_sys (c_cfg t)) = c_thread_num (c_sys (c_cfg s))
    \<and> (ret = 0 \<longrightarrow> c_pkt t \<noteq> None \<and> c_evt_loop t \<noteq> EVTL_NOP)"
proof -
  have sg: "c_udp_fd t = c_udp_fd u \<and> c_io t = c_io u \<and> c_threads_wont_exit t = c_threads_wont_exit u
    \<and> c_n_on_threads t = c_n_on_threads u \<and> c_thread_num (c_sys (c_cfg t)) = c_thread_num (c_sys (c_cfg u))
    \<and> (c_pkt u \<noteq> None \<longrightarrow> c_pkt t \<noteq> None) \<and> c_evt_loop t = c_evt_loop u" if "cli_set_signals K 4 u = (ret, t)" for u
    using set_signals_same [OF that] by (simp add: same_conn_def)
  obtain r1 s1 where a: "cli_alloc_tun_fds_array K (s\<lparr>c_udp_fd := -1, c_sig := -1\<rparr>) = (r1, s1)" by fastforce
  have s1: "c_udp_fd s1 = -1 \<and> c_io s1 = c_io s \<and> c_threads_wont_exit s1 = c_threads_wont_exit s
    \<and> c_n_on_threads s1 = c_n_on_threads s \<and> c_cfg s1 = c_cfg s"
    using a by (auto simp: cli_alloc_tun_fds_array_def Let_def split: if_splits)
  obtain r2 s2 where b: "cli_select_event_loop s1 = (r2, s2)" by fastforce
  have s2: "c_udp_fd s2 = c_udp_fd s1 \<and> c_io s2 = c_io s1 \<and> c_threads_wont_exit s2 = c_threads_wont_exit s1
    \<and> c_n_on_threads s2 = c_n_on_threads s1 \<and> c_cfg s2 = c_cfg s1 \<and> (r2 = 0 \<longrightarrow> c_evt_loop s2 \<noteq> EVTL_NOP)"
    using b by (auto simp: cli_select_event_loop_def Let_def split: if_splits)
  show ?thesis
    using assms a b s1 s2 by (auto simp: cli_init_state_def Let_def split: if_splits dest!: sg)
qed

lemma sockopts_keep:
  "cli_set_sockopts K n s = (ret, s') \<Longrightarrow> c_io s' = c_io s \<and> c_pkt s' = c_pkt s \<and> c_udp_fd s' = c_udp_fd s
    \<and> c_threads_wont_exit s' = c_threads_wont_exit s \<and> c_evt_loop s' = c_evt_loop s
    \<and> c_n_on_threads s' = c_n_on_threads s \<and> c_cfg s' = c_cfg s"
  by (induction n arbitrary: s) (auto simp: cli_sys_call_def frame split: if_splits)

lemma init_socket_linked:
  assumes "linked_buf s" "c_udp_fd s = -1" "opened (c_io s) = []" "cli_init_socket K s = (ret, s')"
  shows "linked_buf s' \<and> (ret = 0 \<longrightarrow> opened (c_io s') \<noteq> [])"
proof -
  have c: "connects (c_io s) = []" using assms(1,2) by (cases "connects (c_io s)") (auto simp: linked_buf_def linked_def)
  show ?thesis
    using assms c
    by (auto simp: cli_init_socket_def cli_socket_setup_def cli_sys_call_def Let_def frame linked_buf_def linked_def
        sock_closed_def split: if_splits prod.splits dest!: sockopts_keep)
qed

lemma close_tuns_same: "same_conn s (cli_close_tuns i s)"
proof (induction i arbitrary: s)
  case (Suc i)
  have "same_conn s ((cli_event (Close (c_tun_fds s ! i)) s)\<lparr>c_tun_fds := (c_tun_fds s)[i := -1]\<rparr>)"
    by (simp add: same_conn_def frame)
  then show ?case using Suc same_conn_trans by (simp only: cli_close_tuns.simps)
qed simp

lemma init_tuns_same: "cli_init_tuns K is dtf ret s = (r, ok, t) \<Longrightarrow> same_conn s t"
proof (induction "is" arbitrary: dtf ret s)
  case (Cons i "is")
  obtain fd dtf' n l where a: "tun_alloc K dtf (c_iface_dev (c_iface (c_cfg s))) (c_tick s) = (fd, dtf', n, l)"
    by (metis prod.exhaust)
  obtain r1 n1 where nb: "fd_set_nonblock K n = (r1, n1)" by fastforce
  have l: "connects l = []" using a by (auto simp: tun_alloc_def split: if_splits prod.splits)
  have same: "same_conn s (s\<lparr>c_tick := k, c_io := c_io s @ l\<rparr>)"
      "same_conn s (s\<lparr>c_tick := k, c_io := c_io s @ l, c_tun_fds := tf\<rparr>)"
      "same_conn s (s\<lparr>c_io := c_io s @ l, c_tick := k, c_tun_fds := tf\<rparr>)"
      "same_conn s (cli_event (Close fd) (s\<lparr>c_io := c_io s @ l, c_tick := k\<rparr>))" for k tf
    by (simp_all add: same_conn_def l frame)
  show ?case
    using Cons.prems a nb
    by (auto simp: Let_def split: if_splits intro: same_conn_trans [OF same(1) close_tuns_same]
        same_conn_trans [OF same(4) close_tuns_same] same_conn_trans [OF same(2) Cons.IH] same_conn_trans [OF same(3) Cons.IH])
qed simp

lemma init_iface_same: "cli_init_iface K s = (ret, t) \<Longrightarrow> same_conn s t"
  by (auto simp: cli_init_iface_def split: if_splits prod.splits dest!: init_tuns_same) (auto simp: same_conn_def)
text \<open>The two loops with the server, through the retry contract.\<close>

lemma do_handshake_same:
  assumes "poll_answers K" "c_pkt s \<noteq> None"
  shows "\<exists>ret t. do_handshake K s = Some (ret, t) \<and> cli_ok K s t"
proof -
  have "cli_ok K s s" using assms by (simp add: cli_ok_def)
  from cli_send_pkt_spec [OF this, of "\<lambda>m. cli_pprep m TCLI_PKT_CLOSE 0 0" TCLI_PKT_CLOSE] obtain r t where
    "teavpn2_cli_udp_send_close_packet K s = Some (r, t)" "cli_ok K s t"
    by (auto simp: teavpn2_cli_udp_send_close_packet_def cli_pprep_eq pprep_simps)
  then show ?thesis using hs.loop_bounded [of 0 K s t] by (auto simp: do_handshake_def)
qed

lemma do_auth_same:
  assumes "poll_answers K" "c_pkt s \<noteq> None"
  shows "\<exists>ret t. do_auth K s = Some (ret, t) \<and> cli_ok K s t"
  using au.loop_bounded [of 0 K s s] assms by (auto simp: cli_ok_def do_auth_def)

text \<open>The outcome of the steps before the event loop.\<close>

definition cli_met :: "cli_cfg \<Rightarrow> int \<Rightarrow> cli_udp_state \<Rightarrow> bool" where
  "cli_met c ret s \<longleftrightarrow> linked s \<and> (ret = 0 \<longrightarrow> c_pkt s \<noteq> None \<and> c_evt_loop s \<noteq> EVTL_NOP \<and> opened (c_io s) \<noteq> []) \<and> c_n_on_threads s = 0
     \<and> c_thread_num (c_sys (c_cfg s)) = c_thread_num (c_sys c)"

lemma cli_met_same: "same_conn s t \<Longrightarrow> cli_met c 0 s \<Longrightarrow> cli_met c ret t"
  by (auto simp: cli_met_def linked_def same_conn_def sock_closed_def)

lemma cli_seq_met:
  assumes "\<exists>ret s. x = Some (ret, s) \<and> cli_met c ret s"
    and "\<And>s. cli_met c 0 s \<Longrightarrow> \<exists>ret t. f s = Some (ret, t) \<and> cli_met c ret t"
  shows "\<exists>ret s. cli_seq f x = Some (ret, s) \<and> cli_met c ret s"
  using assms by (fastforce simp: cli_seq_def)

lemma init_socket_keeps:
  "cli_init_socket K s = (r, t) \<Longrightarrow> c_evt_loop t = c_evt_loop s \<and> c_n_on_threads t = c_n_on_threads s \<and> c_cfg t = c_cfg s"
  by (auto simp: cli_init_socket_def cli_socket_setup_def cli_sys_call_def Let_def frame
      split: if_splits prod.splits dest!: sockopts_keep)

lemma start_met:
  "\<exists>ret t. cli_seq (\<lambda>s. Some (cli_init_socket K s)) (Some (cli_init_state K (cli_zero_state c))) = Some (ret, t) \<and> cli_met c ret t"
proof -
  obtain r0 s0 where i: "cli_init_state K (cli_zero_state c) = (r0, s0)" by fastforce
  have s0: "c_udp_fd s0 = -1" "c_io s0 = []" "\<not> c_threads_wont_exit s0" "c_n_on_threads s0 = 0"
      "c_thread_num (c_sys (c_cfg s0)) = c_thread_num (c_sys c)" "r0 = 0 \<longrightarrow> c_pkt s0 \<noteq> None \<and> c_evt_loop s0 \<noteq> EVTL_NOP"
    using init_state_spec [OF i] by (simp_all add: cli_zero_state_def)
  show ?thesis
  proof (cases "r0 = 0")
    case False
    then show ?thesis using i s0 by (simp add: cli_seq_def cli_met_def linked_def sock_closed_def)
  next
    case True
    obtain r t where so: "cli_init_socket K s0 = (r, t)" by fastforce
    have "linked_buf s0" using s0 True by (simp add: linked_buf_def linked_def sock_closed_def)
    then have "linked_buf t \<and> (r = 0 \<longrightarrow> opened (c_io t) \<noteq> [])" using init_socket_linked [OF _ s0(1) _ so] s0(2) by simp
    then have "cli_met c r t" using init_socket_keeps [OF so] s0 True by (simp add: cli_met_def linked_buf_def)
    then show ?thesis using i so True by (simp add: cli_seq_def)
  qed
qed

lemma step_met:
  "cli_met c 0 s \<Longrightarrow> \<exists>ret t. Some (cli_init_iface K s) = Some (ret, t) \<and> cli_met c ret t"
  "poll_answers K \<Longrightarrow> cli_met c 0 s \<Longrightarrow> \<exists>ret t. do_handshake K s = Some (ret, t) \<and> cli_met c ret t"
  "poll_answers K \<Longrightarrow> cli_met c 0 s \<Longrightarrow> \<exists>ret t. do_auth K s = Some (ret, t) \<and> cli_met c ret t"
proof -
  have p: "cli_met c 0 s \<Longrightarrow> c_pkt s \<noteq> None" by (simp add: cli_met_def)
  obtain ret t where i: "cli_init_iface K s = (ret, t)" by fastforce
  show "cli_met c 0 s \<Longrightarrow> \<exists>ret t. Some (cli_init_iface K s) = Some (ret, t) \<and> cli_met c ret t"
    using cli_met_same [OF init_iface_same [OF i]] i by simp
  show "\<exists>ret t. do_handshake K s = Some (ret, t) \<and> cli_met c ret t" if "poll_answers K" "cli_met c 0 s"
    using do_handshake_same [OF that(1) p [OF that(2)]] cli_met_same [OF _ that(2)] by (auto simp: cli_ok_def)
  show "\<exists>ret t. do_auth K s = Some (ret, t) \<and> cli_met c ret t" if "poll_answers K" "cli_met c 0 s"
    using do_auth_same [OF that(1) p [OF that(2)]] cli_met_same [OF _ that(2)] by (auto simp: cli_ok_def)
qed

lemma client_connect_met:
  assumes K: "poll_answers K"
  shows "\<exists>ret s. client_connect K (cli_zero_state c) = Some (ret, s) \<and> cli_met c ret s"
  unfolding client_connect_def
  by (rule cli_seq_met [OF cli_seq_met [OF cli_seq_met [OF start_met]]]) (rule step_met K | assumption)+

section \<open>Leaving\<close>

lemma client_out_spec:
  assumes "linked s"
  shows "\<exists>t. client_out K ret s = Some (ret, t) \<and> c_udp_fd t = -1 \<and> sock_closed (c_io t)
    \<and> (\<forall>x \<in> set (connects (c_io t)). Close (fst x) \<in> set (c_io t) \<and> sent_types (c_io t) \<noteq> []
        \<and> last (sent_types (c_io t)) = TCLI_PKT_CLOSE)"
proof -
  have down: "\<exists>k l. cli_destroy_state K u = (cli_close_udp_fd ((u\<lparr>c_tick := k, c_io := c_io u @ l\<rparr>)\<lparr>c_tun_fds := []\<rparr>))\<lparr>c_pkt := None\<rparr>
      \<and> sent_types l = [] \<and> connects l = [] \<and> opened l = []" if "\<not> c_threads_wont_exit u" for u
  proof (cases "c_need_remove_iff u")
    case True
    obtain b k l where d: "teavpn_iface_down K (c_iff (c_iface (c_cfg u))) (c_tick u) = (b, k, l)" by (metis prod.exhaust)
    then have "sent_types l = [] \<and> connects l = [] \<and> opened l = []" using toggle_sent by (simp add: teavpn_iface_down_def)
    then show ?thesis using that True d
      by (intro exI [of _ k] exI [of _ l]) (simp add: cli_destroy_state_def cli_close_tun_fds_def)
  next
    case False
    then show ?thesis using that
      by (intro exI [of _ "c_tick u"] exI [of _ "[]"]) (simp add: cli_destroy_state_def cli_close_tun_fds_def)
  qed
  show ?thesis
  proof (cases "c_udp_fd s = -1")
    case True
    then have "connects (c_io s) = []" using assms by (cases "connects (c_io s)") (auto simp: linked_def)
    then show ?thesis using down [of s] assms True
      by (auto simp: client_out_def linked_def cli_close_udp_fd_def sock_closed_def)
  next
    case False
    then obtain pkt where p: "c_pkt s = Some pkt" using assms by (auto simp: linked_def)
    obtain r u where u: "teavpn2_cli_udp_send_close_packet K s = Some (r, u)" "c_udp_fd u = c_udp_fd s"
        "connects (c_io u) = connects (c_io s)" "sent_types (c_io u) = sent_types (c_io s) @ [TCLI_PKT_CLOSE]"
        "c_threads_wont_exit u = c_threads_wont_exit s" "opened (c_io u) = opened (c_io s)" "closed (c_io u) = closed (c_io s)"
      using p by (simp add: teavpn2_cli_udp_send_close_packet_def cli_send_pkt_def simple_do_send_to_def cli_pprep_def Let_def frame
          put_be16_def mem_read_def upt_conv_Cons)
    have fd: "fst x = c_udp_fd s" if "x \<in> set (connects (c_io s))" for x using assms that by (simp add: linked_def)
    obtain k l where d: "cli_destroy_state K u = (cli_close_udp_fd ((u\<lparr>c_tick := k, c_io := c_io u @ l\<rparr>)\<lparr>c_tun_fds := []\<rparr>))\<lparr>c_pkt := None\<rparr>"
        "sent_types l = []" "connects l = []" "opened l = []" using down [of u] u(5) assms by (auto simp: linked_def)
    have "sock_closed (c_io u @ l @ [Close (c_udp_fd s)])"
      using assms u(6,7) d(4) by (auto simp: linked_def sock_closed_def)
    then show ?thesis using fd u d False by (auto simp: client_out_def cli_close_udp_fd_def frame dest: fd)
  qed
qed

section \<open>The event loop starts\<close>

lemma init_loop_some:
  "1 \<le> c_thread_num (c_sys (c_cfg s)) \<Longrightarrow> \<exists>r t. cli_init_threads_loop K ts s = Some (r, t)"
proof (induction ts arbitrary: s)
  case (Cons t ts)
  have "\<exists>r u. do_epoll_fd_registration K t v = Some (r, u)" if "c_cfg v = c_cfg s" for v
    using that Cons.prems by (auto simp: do_epoll_fd_registration_def Let_def linorder_not_less [symmetric] split: prod.split)
  then obtain r1 s1 where i: "cli_init_epoll_thread K t s = Some (r1, s1)"
    by (fastforce simp: cli_init_epoll_thread_def cli_create_epoll_fd_def cli_sys_call_def Let_def frame upd_cthread_def)
  have "c_cfg s1 = c_cfg s" using init_thread_served [OF i] by (simp add: served_def)
  then have "\<exists>r u. cli_init_threads_loop K ts (upd_cthread t f (cli_call K s1)) = Some (r, u)" for f
    using Cons by (intro Cons.IH) (simp add: upd_cthread_def frame)
  then show ?case using i by (simp add: cli_sys_call_def)
qed simp

lemma client_epoll_started:
  assumes "1 \<le> c_thread_num (c_sys (c_cfg s))" "c_n_on_threads s = 0"
  shows "\<exists>m. teavpn2_udp_client_epoll K s = Some m \<and> cli_started K m"
proof -
  have "\<exists>r t. cli_init_epoll_thread_array K s = Some (r, t)"
    using assms init_loop_some by (simp add: cli_init_epoll_thread_array_def Let_def frame)
  then have "\<exists>m. teavpn2_udp_client_epoll K s = Some m" by (auto simp: teavpn2_udp_client_epoll_def)
  then show ?thesis using assms by (auto simp: cli_started_def)
qed

text \<open>The way out of a run that was not served by the event loop.\<close>

definition left_closed :: "cli_udp_state \<Rightarrow> bool" where
  "left_closed t \<longleftrightarrow> c_udp_fd t = -1 \<and> sock_closed (c_io t)
     \<and> (\<forall>x \<in> set (connects (c_io t)). Close (fst x) \<in> set (c_io t) \<and> sent_types (c_io t) \<noteq> []
          \<and> last (sent_types (c_io t)) = TCLI_PKT_CLOSE)"

lemma client_run_cases:
  assumes K: "poll_answers K" and th: "1 \<le> c_thread_num (c_sys c)"
  shows "\<exists>r. teavpn2_client_udp_run K c = Some r
    \<and> (case r of Inl (ret, s) \<Rightarrow> ret \<noteq> 0 \<and> (k_malloc K 0 \<longrightarrow> left_closed s) | Inr m \<Rightarrow> cli_started K m)"
proof (cases "k_malloc K 0")
  case True
  obtain ret s where c: "client_connect K (cli_zero_state c) = Some (ret, s)" "cli_met c ret s"
    using client_connect_met [OF K] by blast
  have out: "\<exists>t. client_out K e s = Some (e, t) \<and> left_closed t" for e
    using client_out_spec [of s K e] c(2) by (simp add: cli_met_def left_closed_def)
  show ?thesis
  proof (cases "ret = 0")
    case True
    then have s: "c_evt_loop s \<noteq> EVTL_NOP" "1 \<le> c_thread_num (c_sys (c_cfg s))" "c_n_on_threads s = 0"
      using c(2) th by (simp_all add: cli_met_def)
    then obtain m where m: "teavpn2_udp_client_epoll K s = Some m" "cli_started K m" using client_epoll_started by blast
    show ?thesis
      using c(1) s(1) m True \<open>k_malloc K 0\<close> out [of "- EOPNOTSUPP"]
      by (cases "c_evt_loop s") (auto simp: teavpn2_client_udp_run_def run_client_event_loop_def)
  next
    case False
    then show ?thesis using c(1) True out [of ret] by (auto simp: teavpn2_client_udp_run_def)
  qed
qed (simp add: teavpn2_client_udp_run_def)

section \<open>Properties\<close>

text \<open>
  C34: the client's run has no way to get stuck before its event loop.  With a system that
  does not interrupt \<open>poll\<close> for ever and at least one thread, \<open>teavpn2_client_udp_run\<close>
  follows no NULL pointer and panics nowhere: it either starts the event loop, or returns an
  error.  When the error comes after the allocation of the state, the socket, which is the first
  descriptor opened, is closed at whichever step the run failed, and if it had been connected
  the last packet sent is the close packet.
\<close>

theorem client_run_returns:
  assumes K: "poll_answers K" and th: "1 \<le> c_thread_num (c_sys c)"
  shows "\<exists>r. teavpn2_client_udp_run K c = Some r
    \<and> (case r of
         Inl (ret, s) \<Rightarrow> ret \<noteq> 0 \<and> (k_malloc K 0 \<longrightarrow> c_udp_fd s = -1
           \<and> (opened (c_io s) = [] \<or> hd (opened (c_io s)) \<in> set (closed (c_io s)))
           \<and> (\<forall>x \<in> set (connects (c_io s)). Close (fst x) \<in> set (c_io s) \<and> sent_types (c_io s) \<noteq> []
                \<and> last (sent_types (c_io s)) = TCLI_PKT_CLOSE))
       | Inr m \<Rightarrow> cli_started K m)"
  using client_run_cases [OF assms] by (simp only: left_closed_def sock_closed_def)

text \<open>Witness of C34: the socket is opened, setting its options fails, and it is closed.\<close>

definition sock_fails :: kernel where
  "sock_fails = silent_kernel\<lparr>k_sys := (\<lambda>_. 3)\<rparr>"

lemma sock_fails_run:
  "case teavpn2_client_udp_run sock_fails sample_cli_cfg of
     Some (Inl (ret, s)) \<Rightarrow> opened (c_io s) = [3] | _ \<Rightarrow> False"
  by code_simp

theorem client_run_returns_witness:
  "\<exists>ret s. teavpn2_client_udp_run sock_fails sample_cli_cfg = Some (Inl (ret, s)) \<and> ret \<noteq> 0
     \<and> opened (c_io s) = [3] \<and> 3 \<in> set (closed (c_io s))"
proof -
  have K: "poll_answers sock_fails" "k_malloc sock_fails 0" by (auto simp: poll_answers_def sock_fails_def silent_kernel_def)
  have "1 \<le> c_thread_num (c_sys sample_cli_cfg)" by (simp add: sample_cli_cfg_def)
  from client_run_returns [OF K(1) this] K(2) sock_fails_run show ?thesis
    by (fastforce split: option.splits sum.splits prod.splits)
qed

text \<open>
  C35: the threads of the client refine the abstract pool of workers.  Along every
  interleaving of the workers, the timer, the main thread, signals and the user interface, the
  run of the client is a run of the pool; no worker handles an event before every worker is
  counted unless the client is stopping; and once the workers were released, the main thread
  frees their memory only when every worker has exited.  (Before the release it may free the
  memory too early: theorem \<open>memory_freed_early\<close>.)
\<close>

theorem client_threads_refine:
  assumes "cli_started K m0" and "(cstep K)\<^sup>*\<^sup>* m0 m"
  shows "pool_step\<^sup>*\<^sup>* (cli_pool m0) (cli_pool m)
    \<and> (Looping \<in> set (cm_pc m) \<and> \<not> c_stop (cm_cli m) \<longrightarrow> (\<forall>p \<in> set (cm_pc m). counted p \<or> exited p))
    \<and> (cm_main m = C_end True r \<and> cm_rel m \<longrightarrow> (\<forall>p \<in> set (cm_pc m). exited p))"
proof -
  have "\<forall>p \<in> set (cm_pc m). exited p" if "cm_main m = C_end True r" "cm_rel m"
    using cli.freed_exited [OF assms(2,1)] that by (simp add: cli_pool_def)
  moreover have "\<forall>p \<in> set (cm_pc m). counted p \<or> exited p" if "Looping \<in> set (cm_pc m)" "\<not> c_stop (cm_cli m)"
    using cli.barrier [OF assms(2,1)] that by (simp add: cli_pool_def)
  ultimately show ?thesis using cli.run_refines [OF assms(2,1)] by blast
qed

text \<open>A schedule: the functions of the threads in the order in which they move.\<close>

fun cli_schedule :: "(cmachine \<Rightarrow> cmachine option) list \<Rightarrow> cmachine \<Rightarrow> cmachine option" where
  "cli_schedule [] m = Some m"
| "cli_schedule (f # fs) m = do { m1 \<leftarrow> f m; cli_schedule fs m1 }"

lemma schedule_run:
  assumes "\<And>f m m'. f \<in> set fs \<Longrightarrow> f m = Some m' \<Longrightarrow> cstep K m m'" "cli_schedule fs m = Some m'"
  shows "(cstep K)\<^sup>*\<^sup>* m m'"
  using assms
proof (induction fs arbitrary: m)
  case (Cons f fs)
  then obtain m1 where m1: "f m = Some m1" "cli_schedule fs m1 = Some m'" by (auto simp: bind_eq_Some_conv)
  have "cstep K m m1" using Cons.prems(1) [of f m m1] m1(1) by simp
  moreover have "(cstep K)\<^sup>*\<^sup>* m1 m'" using Cons.IH [of m1] Cons.prems(1) m1(2) by (meson list.set_intros(2))
  ultimately show ?case by (rule converse_rtranclp_into_rtranclp)
qed simp

text \<open>Start of the only worker, a stop from the user interface, shut-down.\<close>

definition sample_schedule :: "(cmachine \<Rightarrow> cmachine option) list" where
  "sample_schedule =
     (let w = (\<lambda>m. if cm_pc m = [] then None else client_udp_epoll_run_event_loop silent_kernel 0 m);
          r = cli_run_event_loop silent_kernel;
          x = cli_wait_for_threads_to_exit silent_kernel
      in [r, r, r, w, w, w, \<lambda>m. Some (m\<lparr>cm_cli := teavpn2_client_udp_stop (cm_cli m)\<rparr>), w, w, w, r, x, x, cli_finish_epoll])"

lemma sample_schedule_steps: "f \<in> set sample_schedule \<Longrightarrow> f m = Some m' \<Longrightarrow> cstep silent_kernel m m'"
  by (auto simp: sample_schedule_def Let_def intro: cstep.intros cstep.worker [of 0] split: if_splits)

definition sample_shutdown :: "cmachine option" where
  "sample_shutdown = Option.bind (teavpn2_udp_client_epoll silent_kernel (sample_cli\<lparr>c_tun_fds := [4]\<rparr>)) (cli_schedule sample_schedule)"

lemma sample_shutdown_end:
  "case sample_shutdown of Some m \<Rightarrow> cm_main m = C_end True 0 \<and> cm_rel m \<and> cm_pc m = [Exited 0] | None \<Rightarrow> False"
  by code_simp

text \<open>Witness of C35: the client with one thread runs, is stopped and shuts down.\<close>

theorem client_threads_refine_witness:
  "\<exists>m0 m. cli_started silent_kernel m0 \<and> (cstep silent_kernel)\<^sup>*\<^sup>* m0 m \<and> cm_main m = C_end True 0
     \<and> pool_step\<^sup>*\<^sup>* (cli_pool m0) (cli_pool m) \<and> (\<forall>p \<in> set (cm_pc m). exited p)"
proof -
  let ?s = "sample_cli\<lparr>c_tun_fds := [4]\<rparr>"
  obtain m0 m where m: "teavpn2_udp_client_epoll silent_kernel ?s = Some m0" "cli_schedule sample_schedule m0 = Some m"
      "cm_main m = C_end True 0" "cm_rel m"
    using sample_shutdown_end by (auto simp: sample_shutdown_def bind_eq_Some_conv split: option.splits)
  have "c_n_on_threads ?s = 0" "1 \<le> c_thread_num (c_sys (c_cfg ?s))"
    by (simp_all add: sample_cli_def cli_zero_state_def sample_cli_cfg_def)
  then have "cli_started silent_kernel m0" using m(1) unfolding cli_started_def by blast
  moreover have r: "(cstep silent_kernel)\<^sup>*\<^sup>* m0 m" by (rule schedule_run [OF sample_schedule_steps m(2)])
  ultimately show ?thesis using client_threads_refine [of silent_kernel m0 m 0] m(3,4) by blast
qed


text \<open>
  Without the release the last guarantee fails: when the first of two workers was created and the
  creation of the second fails, the main thread finds no worker counted and frees the memory that
  the created worker is about to use.
\<close>

definition failing_kernel :: kernel where
  "failing_kernel = silent_kernel\<lparr>k_sys := (\<lambda>n. if n = 17 then EAGAIN else 0)\<rparr>"

definition three_workers :: cli_udp_state where
  "three_workers = sample_cli\<lparr>c_cfg := sample_cli_cfg\<lparr>c_sys := (c_sys sample_cli_cfg)\<lparr>c_thread_num := 3\<rparr>\<rparr>, c_tun_fds := [4, 5, 6]\<rparr>"

definition failing_schedule :: "(cmachine \<Rightarrow> cmachine option) list" where
  "failing_schedule =
     (let r = cli_run_event_loop failing_kernel;
          x = cli_wait_for_threads_to_exit failing_kernel
      in [r, r, r, r, x, x, cli_finish_epoll])"

lemma failing_end:
  "case Option.bind (teavpn2_udp_client_epoll failing_kernel three_workers) (cli_schedule failing_schedule) of
     Some m \<Rightarrow> cm_main m = C_end True (- EAGAIN) \<and> cm_pc m = [Unspawned, Spawned, Unspawned] \<and> c_threads (cm_cli m) = []
   | None \<Rightarrow> False"
  by code_simp

theorem memory_freed_early:
  "\<exists>m0 m. cli_started failing_kernel m0 \<and> (cstep failing_kernel)\<^sup>*\<^sup>* m0 m \<and> cm_main m = C_end True (- EAGAIN)
     \<and> Spawned \<in> set (cm_pc m) \<and> c_threads (cm_cli m) = []"
proof -
  obtain m0 m where m: "teavpn2_udp_client_epoll failing_kernel three_workers = Some m0"
      "cli_schedule failing_schedule m0 = Some m" "cm_main m = C_end True (- EAGAIN)" "Spawned \<in> set (cm_pc m)"
      "c_threads (cm_cli m) = []"
    using failing_end by (auto simp: bind_eq_Some_conv split: option.splits)
  have "c_n_on_threads three_workers = 0" "1 \<le> c_thread_num (c_sys (c_cfg three_workers))"
    by (simp_all add: three_workers_def sample_cli_def cli_zero_state_def sample_cli_cfg_def)
  then have "cli_started failing_kernel m0" using m(1) unfolding cli_started_def by blast
  moreover have "cstep failing_kernel a b" if "f \<in> set failing_schedule" "f a = Some b" for f a b
    using that by (auto simp: failing_schedule_def Let_def intro: cstep.intros)
  ultimately show ?thesis using schedule_run [OF _ m(2)] m(3-5) by blast
qed

section \<open>The timer\<close>

lemma reqsyncs_sent: "sent_types (c_io (tt_reqsyncs K n s)) = sent_types (c_io s) @ replicate n TCLI_PKT_REQSYNC
    \<and> c_timeout_disconnect (tt_reqsyncs K n s) = c_timeout_disconnect s"
proof (induction n arbitrary: s)
  case (Suc n)
  have "sent_types (c_io (tt_send_reqsync K s)) = sent_types (c_io s) @ [TCLI_PKT_REQSYNC]
      \<and> c_timeout_disconnect (tt_send_reqsync K s) = c_timeout_disconnect s"
    by (simp add: tt_send_reqsync_def cli_do_send_to_def cli_pprep_def Let_def frame mem_read_def upt_conv_Cons put_be16_def)
  then show ?case using Suc [of "tt_send_reqsync K s"] by simp
qed simp

text \<open>The number of sync requests for a silence of \<open>d\<close> seconds.\<close>

definition reqsync_count :: "int \<Rightarrow> nat" where
  "reqsync_count d = (if d > 144 then 7 else if d > 108 then 5 else if d > 72 then 3 else if d > 36 then 1 else 0)"

text \<open>
  C36: a silent server.  A round of the timer sends nothing and stops the client when the
  server has been silent for more than 180 seconds, and otherwise sends the more sync requests
  the longer the silence lasts: none up to a fifth of the limit, then one, three, five and
  seven; it sends no other packet and does not stop the client unless the limit is passed.
\<close>

theorem client_timer_round:
  assumes "k_time K (c_tick s) = Inr now"
  shows "if now - c_last_t s > UDP_SESS_TIMEOUT
    then c_stop (timer_round K s) \<and> c_timeout_disconnect (timer_round K s) \<and> c_io (timer_round K s) = c_io s
    else c_timeout_disconnect (timer_round K s) = c_timeout_disconnect s
      \<and> sent_types (c_io (timer_round K s))
          = sent_types (c_io s) @ replicate (reqsync_count (now - c_last_t s)) TCLI_PKT_REQSYNC"
proof (cases "now - c_last_t s > UDP_SESS_TIMEOUT")
  case True
  then show ?thesis using assms by (simp add: timer_round_def cli_get_unix_time_def frame)
next
  case False
  then have "timer_round K s = tt_reqsyncs K (reqsync_count (now - c_last_t s)) (cli_call K s)"
    using assms by (simp add: timer_round_def cli_get_unix_time_def reqsync_count_def frame del: tt_reqsyncs.simps(2))
  then show ?thesis using False reqsyncs_sent [of K _ "cli_call K s"] by (simp add: frame)
qed

text \<open>Witness of C36: the silent system counts one second per call.\<close>

theorem client_timer_round_witness:
  "c_stop (timer_round silent_kernel (sample_cli\<lparr>c_last_t := -500\<rparr>))"
proof -
  have "k_time silent_kernel (c_tick (sample_cli\<lparr>c_last_t := -500\<rparr>)) = Inr 1"
    by (simp add: silent_kernel_def sample_cli_def cli_zero_state_def)
  from client_timer_round [OF this] show ?thesis by simp
qed

end
