(* ===== verification/Link.thy ===== *)
theory Link
  imports Srv_Init Cli_Run
begin

text \<open>
  Client and server on one network: lemmas on what a datagram of one side does at the other.
  The network is the assumption that \<open>recvfrom\<close> returns the bytes that \<open>sendto\<close> was given.
\<close>

section \<open>A received datagram\<close>

text \<open>The buffer after \<open>recvfrom\<close> agrees with the sender's as far as the datagram reaches.\<close>

lemma recv_byte [simp]: "i < len \<Longrightarrow> mem_write m 0 (mem_read x 0 len) i = x i"
  by simp

lemma recv_read: "off + n \<le> len \<Longrightarrow> mem_read (mem_write m 0 (mem_read x 0 len)) off n = mem_read x off n"
  by (rule nth_equalityI) simp_all

lemma recv_header:
  "4 \<le> len \<Longrightarrow> pkt_type (mem_write m 0 (mem_read x 0 len)) = pkt_type x"
  "4 \<le> len \<Longrightarrow> pkt_dlen (mem_write m 0 (mem_read x 0 len)) = pkt_dlen x"
  by (simp_all add: pkt_type_def pkt_dlen_def get_be16_def numeral_2_eq_2)

lemma recv_handshake: "100 \<le> len \<Longrightarrow> pkt_handshake_cur (mem_write m 0 (mem_read x 0 len)) = pkt_handshake_cur x"
  by (simp add: pkt_handshake_cur_def recv_read)

lemma recv_auth: "516 \<le> len \<Longrightarrow> get_pkt_auth (mem_write m 0 (mem_read x 0 len)) = get_pkt_auth x"
  by (simp add: get_pkt_auth_def recv_read)

lemma recv_if_info: "88 \<le> len \<Longrightarrow> get_if_info (mem_write m 0 (mem_read x 0 len)) 6 = get_if_info x 6"
  by (simp add: get_if_info_def recv_read)

text \<open>The bytes that were sent last.\<close>

definition sent_last :: "cli_udp_state \<Rightarrow> u8 list \<Rightarrow> bool" where
  "sent_last c bs \<longleftrightarrow> (\<exists>r l. c_io c = l @ [Send bs r])"

lemma send_pkt_last:
  assumes "cli_send_pkt K prep c = Some (ret, c')" "sent_last c' bs"
  shows "\<exists>m. bs = mem_read (fst (prep m)) 0 (snd (prep m))"
proof -
  obtain pkt where p: "c_pkt c = Some pkt" using assms(1) by (auto simp: cli_send_pkt_def bind_eq_Some_conv)
  obtain m n where mn: "prep (raw pkt) = (m, n)" by fastforce
  have "c_io c' = c_io c @ [Send (mem_read m 0 n) (k_sendto K (c_tick c))]"
    using assms(1) p mn by (auto simp: cli_send_pkt_def simple_do_send_to_def Let_def frame)
  then have "bs = mem_read m 0 n" using assms(2) by (auto simp: sent_last_def)
  then show ?thesis using mn by (intro exI [of _ "raw pkt"]) simp
qed

text \<open>The client reads a datagram that is waiting for it.\<close>

definition arrives :: "kernel \<Rightarrow> cli_udp_state \<Rightarrow> u8 list \<Rightarrow> bool" where
  "arrives K c bs \<longleftrightarrow> c_pkt c \<noteq> None \<and> 0 < k_poll K (c_tick c)
     \<and> (\<exists>a. k_recvfrom K (c_tick c + 1) = (int (length bs), bs, a))"

lemma wait_reply_arrives:
  assumes "arrives K c bs" and l: "length bs \<le> 4100"
  shows "\<exists>pkt c'. c_pkt c = Some pkt \<and> wait_reply K chk c
      = Some (fst (chk (mem_write (raw pkt) 0 bs) (length bs)),
          c'\<lparr>c_pkt := Some (pkt\<lparr>raw := snd (chk (mem_write (raw pkt) 0 bs) (length bs))\<rparr>)\<rparr>)
    \<and> c_cfg c' = c_cfg c \<and> c_tick c' = c_tick c + 2"
proof -
  obtain pkt a where p: "c_pkt c = Some pkt" "0 < k_poll K (c_tick c)"
      "k_recvfrom K (c_tick c + 1) = (int (length bs), bs, a)" using assms by (auto simp: arrives_def)
  have "poll_fd_input K c = Some (k_poll K (c_tick c), cli_call K c)"
    using p(2) by (subst poll_fd_input.simps) (simp add: Let_def)
  then show ?thesis using p
    by (intro exI [of _ pkt] exI [of _ "cli_call K (cli_call K c)"])
      (simp add: wait_reply_def simple_do_recv_from_def sys_recvfrom_whole [OF _ l] frame split_def Let_def)
qed

section \<open>Handshake\<close>

lemma handshake_accepted:
  assumes "m' = mem_write m 0 (mem_read (fst (srv_pprep_handshake x)) 0 100)"
  shows "fst (server_handshake_chk m' 100) = 0"
proof -
  note h = handshake_roundtrip [of x]
  have t: "pkt_type m' = TSRV_PKT_HANDSHAKE" "pkt_dlen m' = 96"
    by (simp_all add: assms recv_header srv_pprep_handshake_def pprep_simps)
  have c: "m' 4 = VERSION" "m' 5 = PATCHLEVEL" "m' 6 = SUBLEVEL"
    using h by (simp_all add: assms pkt_handshake_cur_def)
  show ?thesis using t c by (simp add: server_handshake_chk_def Let_def) (simp add: pkt_type_def pkt_handshake_cur_def)
qed

lemma server_answers_handshake:
  assumes K: "sends_ok K" and x: "addr (sess_arr s ! i) = saddr"
    and p: "pkt_len pkt = 100" "raw pkt = mem_write m 0 (mem_read (fst (cli_pprep_handshake y)) 0 100)"
  shows "\<exists>pkt' s' x. handle_client_handshake K i pkt s = Some (0, pkt', s')
    \<and> delivers [(saddr, mem_read (fst (srv_pprep_handshake x)) 0 100)] s s'"
proof -
  note h = handshake_roundtrip [of y]
  have t: "pkt_type (raw pkt) = TCLI_PKT_HANDSHAKE" "pkt_dlen (raw pkt) = 96"
    by (simp_all add: p recv_header cli_pprep_handshake_def cli_pprep_eq pprep_simps)
  have c: "raw pkt 4 = VERSION" "raw pkt 5 = PATCHLEVEL" "raw pkt 6 = SUBLEVEL"
    using h by (simp_all add: p pkt_handshake_cur_def)
  define q where "q = pkt\<lparr>raw := (put_le16 (raw pkt) 2 96)(35 := 0)\<rparr>"
  have "handle_client_handshake K i pkt s = send_handshake K i q s"
    using t c p(1) by (simp add: handle_client_handshake_def Let_def q_def) (simp add: pkt_type_def pkt_handshake_cur_def)
  moreover obtain r s1 where "send_to_client K i (fst (srv_pprep_handshake (raw q))) 100 s = Some (r, s1)" "0 < r"
      "delivers [(saddr, mem_read (fst (srv_pprep_handshake (raw q))) 0 100)] s s1"
    using send_ok [OF K, of 100] x by fastforce
  moreover have "snd (srv_pprep_handshake (raw q)) = 100" using handshake_roundtrip [of "raw q"] by simp
  ultimately show ?thesis by (auto simp: send_handshake_def split_def Let_def)
qed

text \<open>The server receives a datagram.\<close>

definition srv_receives :: "kernel \<Rightarrow> srv_udp_state \<Rightarrow> sockaddr_in \<Rightarrow> u8 list \<Rightarrow> bool" where
  "srv_receives K s saddr bs \<longleftrightarrow> k_recvfrom K (tick s) = (int (length bs), bs, saddr)"

abbreviation srv_lookup :: "srv_udp_state \<Rightarrow> sockaddr_in \<Rightarrow> nat option" where
  "srv_lookup s saddr \<equiv> lookup_udp_sess s (ntohl (sin_addr saddr)) (ntohs (sin_port saddr))"

lemma srv_receives_datagram:
  assumes "srv_receives K s saddr bs" "bs \<noteq> []"
  shows "handle_event_from_udp K pkt s = handle_datagram K saddr
      (pkt\<lparr>pkt_len := min (length bs) 4096, raw := mem_write (raw pkt) 0 (take 4096 bs)\<rparr>) (s\<lparr>tick := tick s + 1\<rparr>)"
proof -
  have "sys_recvfrom K (tick s) 4096 = (int (min (length bs) 4096), take 4096 bs, saddr)"
    using assms(1) by (simp add: srv_receives_def sys_recvfrom_def min_def)
  moreover have "0 < min (length bs) 4096" using assms(2) by simp
  ultimately show ?thesis by (simp add: handle_event_from_udp_def do_recv_from_def del: min_less_iff_conj)
qed

lemma lookup_tick [simp]: "lookup_udp_sess (s\<lparr>tick := n\<rparr>) a p = lookup_udp_sess s a p"
  by (simp add: lookup_udp_sess_def smap_def)

lemma srv_inv_tick [simp]: "srv_inv (s\<lparr>tick := n\<rparr>) = srv_inv s"
  using io_only_inv [of "\<lambda>_. True" s "s\<lparr>tick := n\<rparr>"] by simp

lemma delivers_lookup:
  assumes "srv_inv s" "delivers xs s t"
  shows "srv_inv t" "srv_lookup t a = srv_lookup s a"
proof -
  have i: "io_only (\<lambda>_. True) s t" using assms(2) by (simp add: delivers_def)
  then show "srv_inv t" using assms(1) io_only_inv by blast
  then have "srv_lookup t a = Some j \<longleftrightarrow> srv_lookup s a = Some j" for j
    using assms i io_only_conn [OF i] delivers_arr [OF assms(2)] by (simp add: lookup_iff srv_inv_def sess_key_def)
  then show "srv_lookup t a = srv_lookup s a" by (metis not_None_eq)
qed

lemma new_client_handshake:
  assumes inv: "srv_inv s" and K: "sends_ok K" and n: "srv_lookup s saddr = None"
    and c: "create_udp_sess K (ntohl (sin_addr saddr)) (ntohs (sin_port saddr)) s = (Some i, err, s1)"
    and p: "pkt_len pkt = 100" "raw pkt = mem_write m 0 (mem_read (fst (cli_pprep_handshake y)) 0 100)"
  shows "\<exists>pkt' s' x. handle_datagram K saddr pkt s = Some (0, pkt', s') \<and> srv_inv s'
    \<and> srv_lookup s' saddr = Some i \<and> (\<exists>r. io s' = io s @ [Sendto saddr (mem_read (fst (srv_pprep_handshake x)) 0 100) r])"
proof -
  define s2 where "s2 = upd_sess i (\<lambda>x. x\<lparr>addr := saddr\<rparr>) s1"
  have s2: "srv_inv s2" "i \<in> conn s2" "addr (sess_arr s2 ! i) = saddr"
    using create_inv [OF inv n c refl refl, of "\<lambda>_. True"] by (simp_all add: s2_def Let_def)
  have io: "io s2 = io s" using create_frame(3) [of K "ntohl (sin_addr saddr)" "ntohs (sin_port saddr)" s] c
    by (simp add: s2_def frame)
  have "sess_key s2 i = (ntohl (sin_addr saddr), ntohs (sin_port saddr))" using s2 by (simp add: srv_inv_def peer_ok_def)
  then have l: "srv_lookup s2 saddr = Some i" using s2 by (simp add: lookup_iff srv_inv_def)
  obtain pkt' s' x where h: "handle_client_handshake K i pkt s2 = Some (0, pkt', s')"
      "delivers [(saddr, mem_read (fst (srv_pprep_handshake x)) 0 100)] s2 s'"
    using server_answers_handshake [OF K s2(3) p] by blast
  have "pkt_type (raw pkt) = TCLI_PKT_HANDSHAKE"
    by (simp add: p recv_header cli_pprep_handshake_def cli_pprep_eq pprep_simps)
  then have "handle_datagram K saddr pkt s = Some (0, pkt', s')"
    using h(1) n c by (simp add: handle_datagram_def handle_new_client_def skip_session_creation_def
        handle_new_client_sess_def s2_def [symmetric])
  moreover obtain r where "io s' = io s @ [Sendto saddr (mem_read (fst (srv_pprep_handshake x)) 0 100) r]"
    using h(2) io by (auto simp: delivers_def sent_to_def split: io.splits)
  ultimately show ?thesis using delivers_lookup [OF s2(1) h(2)] l by metis
qed

section \<open>Authentication\<close>

lemma auth_reply_accepted:
  assumes m: "m' = mem_write m 0 (mem_read (fst (srv_pprep (put_if_info x 6 ifi) TSRV_PKT_AUTH_OK 84 0)) 0 88)"
    and f: "if_info_fits ifi"
  shows "fst (server_auth_res_chk m' 88) = 0 \<and> get_if_info (snd (server_auth_res_chk m' 88)) 6 = ifi"
proof -
  have t: "pkt_type m' = TSRV_PKT_AUTH_OK" "pkt_dlen m' = 84" by (simp_all add: m recv_header pprep_simps)
  have "get_if_info m' 6 = get_if_info (put_if_info x 6 ifi) 6"
    unfolding m by (simp add: recv_if_info) (simp add: get_if_info_def pprep_simps)
  then have "get_if_info m' 6 = ifi" using if_info_roundtrip [OF f] by simp
  then show ?thesis using t by (simp add: server_auth_res_chk_def Let_def) (simp add: get_if_info_def)
qed

lemma auth_reject_refused:
  "fst (server_auth_res_chk (mem_write m 0 (mem_read (fst (srv_pprep x TSRV_PKT_AUTH_REJECT 0 0)) 0 4)) 4) = - EBADMSG"
  by (simp add: server_auth_res_chk_def recv_header pprep_simps)

text \<open>What the client makes of the description the server offers.\<close>

definition adopted_iff :: "cli_cfg \<Rightarrow> if_info \<Rightarrow> if_info" where
  "adopted_iff c ifi =
     (let i = ifi\<lparr>dev := strncpy2 (c_iface_dev (c_iface c)) 16\<rparr>
      in if override_default (c_iface c) then i\<lparr>ipv4_pub := strncpy2 (server_addr (c_sock c)) 16\<rparr> else i)"

lemma get_if_info_dev:
  "no_nul d \<Longrightarrow> get_if_info (mem_write m 6 (strncpy2_bytes d 16)) 6 = (get_if_info m 6)\<lparr>dev := strncpy2 d 16\<rparr>"
proof -
  assume d: "no_nul d"
  have r: "mem_read (mem_write m 6 (strncpy2_bytes d 16)) 6 16 = strncpy2_bytes d 16" by (simp add: mem_read_write_exact)
  show ?thesis using cstr_strncpy2_bytes [OF _ d, of 16] unfolding get_if_info_def r by simp
qed

lemma client_adopts:
  assumes "arrives K c bs" and l: "length bs \<le> 4100" and n: "no_nul (c_iface_dev (c_iface (c_cfg c)))"
    and chk: "\<And>m. fst (server_auth_res_chk (mem_write m 0 bs) (length bs)) = 0
        \<and> get_if_info (snd (server_auth_res_chk (mem_write m 0 bs) (length bs))) 6 = ifi"
  shows "\<exists>ret c'. wait_for_auth_response K c = Some (ret, c') \<and> c_iff (c_iface (c_cfg c')) = adopted_iff (c_cfg c) ifi
    \<and> (ret = 0 \<longleftrightarrow> fst (teavpn_iface_up K (adopted_iff (c_cfg c) ifi) (c_tick c + 2)))"
proof -
  obtain pkt c1 where w: "c_pkt c = Some pkt" "wait_reply K server_auth_res_chk c
      = Some (0, c1\<lparr>c_pkt := Some (pkt\<lparr>raw := snd (server_auth_res_chk (mem_write (raw pkt) 0 bs) (length bs))\<rparr>)\<rparr>)"
      "c_cfg c1 = c_cfg c" "c_tick c1 = c_tick c + 2"
    using wait_reply_arrives [OF assms(1) l, of server_auth_res_chk] chk by auto
  show ?thesis
    using w n chk [of "raw pkt"]
    by (simp add: wait_for_auth_response_def bring_up_iface_def get_if_info_dev adopted_iff_def Let_def split: prod.split)
qed

text \<open>What the end of \<open>handle_datagram\<close> leaves of a state.\<close>

definition same_sessions :: "srv_udp_state \<Rightarrow> srv_udp_state \<Rightarrow> bool" where
  "same_sessions s t \<longleftrightarrow> conn t = conn s \<and> ipv4_map t = ipv4_map s \<and> (\<exists>l. io t = io s @ l)
     \<and> (\<forall>j. is_authenticated (sess_arr t ! j) = is_authenticated (sess_arr s ! j)
          \<and> username (sess_arr t ! j) = username (sess_arr s ! j) \<and> sess_key t j = sess_key s j)
     \<and> (srv_inv s \<longrightarrow> srv_inv t)"

lemma same_sessions_trans: "same_sessions s t \<Longrightarrow> same_sessions t u \<Longrightarrow> same_sessions s u"
  by (auto simp: same_sessions_def)

lemma same_sessions_tick [simp]: "same_sessions s (s\<lparr>tick := n\<rparr>)"
  by (simp add: same_sessions_def conn_def sess_key_def)

lemma same_sessions_upd:
  assumes "\<And>x. idx (f x) = idx x" "\<And>x. is_connected (f x) = is_connected x"
      "\<And>x. src_addr (f x) = src_addr x" "\<And>x. src_port (f x) = src_port x"
      "\<And>x. addr (f x) = addr x" "\<And>x. is_authenticated (f x) = is_authenticated x"
      "\<And>x. ipv4_iff (f x) = ipv4_iff x" "\<And>x. username (f x) = username x"
  shows "same_sessions s (upd_sess i f s)"
proof -
  have u: "is_connected ((sess_arr s)[i := f (sess_arr s ! i)] ! j) = is_connected (sess_arr s ! j)"
      "src_addr ((sess_arr s)[i := f (sess_arr s ! i)] ! j) = src_addr (sess_arr s ! j)"
      "src_port ((sess_arr s)[i := f (sess_arr s ! i)] ! j) = src_port (sess_arr s ! j)"
      "is_authenticated ((sess_arr s)[i := f (sess_arr s ! i)] ! j) = is_authenticated (sess_arr s ! j)"
      "username ((sess_arr s)[i := f (sess_arr s ! i)] ! j) = username (sess_arr s ! j)" for j
    by (simp_all add: upd_field [where f = f] assms)
  have "srv_inv (upd_sess i f s)" if "srv_inv s"
    using srv_inv_upd_sess [OF that assms(1-7), of i "\<lambda>_. True"] by blast
  then show ?thesis by (simp add: same_sessions_def sess_key_def conn_def frame u)
qed

lemma same_sessions_delivers: "delivers xs s t \<Longrightarrow> same_sessions s t"
  using io_only_conn [of "\<lambda>_. True" s t] io_only_inv [of "\<lambda>_. True" s t] delivers_arr [of xs s t]
  by (auto simp: same_sessions_def delivers_def sess_key_def)

lemma datagram_end:
  assumes l: "srv_lookup s saddr = Some i" and K: "sends_ok K" and h: "handle_clpkt K i pkt s = Some (0, pkt1, s1)"
  shows "\<exists>pkt' s'. handle_datagram K saddr pkt s = Some (0, pkt', s') \<and> same_sessions s1 s'"
proof -
  define s2 where "s2 = upd_sess i (\<lambda>x. x\<lparr>loop_c := loop_c x + 1\<rparr>) s1"
  obtain t ret where u: "udp_sess_update_last_act K i s2 = (ret, upd_sess i (\<lambda>x. x\<lparr>last_act := t\<rparr>) (s2\<lparr>tick := tick s2 + 1\<rparr>))"
    using update_last_act_eq by blast
  have s2: "same_sessions s1 s2" unfolding s2_def by (rule same_sessions_upd) simp_all
  have "same_sessions s2 (upd_sess i (\<lambda>x. x\<lparr>last_act := t\<rparr>) (s2\<lparr>tick := tick s2 + 1\<rparr>))"
    by (rule same_sessions_trans [OF same_sessions_tick same_sessions_upd]) simp_all
  then have s3: "same_sessions s1 (snd (udp_sess_update_last_act K i s2))" using u s2 same_sessions_trans by simp
  obtain m len where m: "srv_pprep_sync (raw pkt1) = (m, len)" by fastforce
  then have "0 < len" by (auto simp: srv_pprep_sync_def srv_pprep_def)
  then obtain r s4 where s4: "send_to_client K i m len (snd (udp_sess_update_last_act K i s2)) = Some (r, s4)"
      "same_sessions s1 s4"
    using send_ok [OF K] same_sessions_trans [OF s3 same_sessions_delivers] by metis
  have "handle_datagram K saddr pkt s = (if loop_c (sess_arr s2 ! i) mod 32 = 0 then do {
      (_, s4) \<leftarrow> send_to_client K i m len (snd (udp_sess_update_last_act K i s2));
      Some (0, pkt1\<lparr>raw := m\<rparr>, s4)
    } else Some (0, pkt1, s2))"
    using l h m unfolding handle_datagram_def s2_def Let_def by (simp cong: if_cong)
  then show ?thesis using s2 s4 by auto
qed

text \<open>Both verdicts of the server, and the packet it answers with.\<close>

lemma server_answers_auth:
  assumes inv: "srv_inv s" and K: "sends_ok K" and l: "srv_lookup s saddr = Some i"
    and a: "\<not> is_authenticated (sess_arr s ! i)" "pkt_type (raw pkt) = TCLI_PKT_AUTH" "auth_result K pkt s = Some ifi"
  shows "\<exists>pkt' s' x r l. handle_datagram K saddr pkt s = Some (0, pkt', s') \<and> srv_inv s'
    \<and> io s' = io s @ Sendto saddr (mem_read (fst (srv_pprep (put_if_info x 6 ifi) TSRV_PKT_AUTH_OK 84 0)) 0 88) r # l
    \<and> srv_lookup s' saddr = Some i \<and> is_authenticated (sess_arr s' ! i)
    \<and> get_ipv4_route_map (ipv4_map s') (ntohl (inet_addr (ipv4 ifi))) = int i"
proof -
  define m where "m = fst (srv_pprep (put_if_info (raw pkt) 6 ifi) TSRV_PKT_AUTH_OK (word_of_nat SZ_AUTH_RES) 0)"
  have i: "i \<in> conn s" "addr (sess_arr s ! i) = saddr" using peer_unique [OF inv l] by simp_all
  have p: "srv_pprep (put_if_info (raw pkt) 6 ifi) TSRV_PKT_AUTH_OK 84 0 = (m, 88)"
    by (simp add: m_def prod_eq_iff pprep_len)
  have "get_if_info m 6 = get_if_info (put_if_info (raw pkt) 6 ifi) 6"
    by (simp add: m_def get_if_info_def pprep_simps)
  then have g: "get_if_info m 6 = ifi" using if_info_roundtrip [OF auth_fits [OF a(3)]] by simp
  obtain r s1 where s1: "send_to_client K i m 88 (s\<lparr>tick := tick s + 1\<rparr>) = Some (r, s1)" "0 < r"
      "delivers [(saddr, mem_read m 0 88)] (s\<lparr>tick := tick s + 1\<rparr>) s1"
    using send_ok [OF K, of 88 i m "s\<lparr>tick := tick s + 1\<rparr>"] i by auto
  define ad un where "ad = ntohl (inet_addr (ipv4 ifi))" and "un = strncpy2 (auth_username (get_pkt_auth (raw pkt))) 256"
  define s2 where "s2 = authenticate i ad un s1"
  have h: "handle_clpkt K i pkt s = Some (0, pkt\<lparr>raw := m\<rparr>, s2)"
    using a s1(1,2) p g by (simp add: handle_clpkt_def handle_clpkt_auth_def Let_def s2_def authenticate_def ad_def un_def)
  obtain pkt' s' where d: "handle_datagram K saddr pkt s = Some (0, pkt', s')" "same_sessions s2 s'"
    using datagram_end [OF l K h] by blast
  have i1: "srv_inv s1" "i \<in> conn s1" "sess_arr s1 = sess_arr s"
    using same_sessions_delivers [OF s1(3)] delivers_arr [OF s1(3)] inv i by (auto simp: same_sessions_def conn_def)
  have au: "srv_inv s2" "conn s2 = conn s1"
    using authenticate_inv [OF i1(1,2), where P = "\<lambda>_. True" and a = ad and u = un] a(1) i1(3)
    by (simp_all add: step_ok_def s2_def)
  note f = authenticate_fields(1,2) [OF conn_less [OF i1(2)], where a = ad and u = un, folded s2_def]
  have "srv_inv s'" "conn s' = conn s" "is_authenticated (sess_arr s' ! i)" "sess_key s' i = sess_key s i" "ipv4_map s' = ipv4_map s2"
    using d(2) au f i1 conn_less [OF i1(2)]
    by (simp_all add: same_sessions_def sess_key_def) (simp_all add: conn_def)
  moreover have "srv_lookup s' saddr = Some i"
    using calculation l i(1) inv by (simp add: lookup_iff srv_inv_def)
  moreover have "get_ipv4_route_map (ipv4_map s2) ad = int i"
  proof -
    have so: "slots_ok s1" using i1(1) by (simp add: srv_inv_def sess_inv_def)
    have "idx (sess_arr s1 ! i) = word_of_nat i" using so conn_less [OF i1(2)] by (simp add: slots_ok_def)
    moreover have "i < 65535" using conn_less [OF i1(2)] sess_len_less [OF so] by simp
    moreover have u: "unat (word_of_nat i :: u16) = i" using calculation(2) by (simp add: unat_of_nat)
    moreover have "(word_of_nat i :: u16) \<noteq> -1"
    proof
      assume "(word_of_nat i :: u16) = -1"
      then have "(word_of_nat i :: u16) = 65535" by simp
      from arg_cong [OF this, of unat] show False using calculation(2) unfolding u by simp
    qed
    ultimately show ?thesis by (simp add: f(2) rt.get_add_cases uint_nat)
  qed
  moreover have "\<exists>r l. io s' = io s @ Sendto saddr (mem_read m 0 88) r # l"
  proof -
    have "io s2 = io s1" by (simp add: s2_def authenticate_def Let_def frame)
    then show ?thesis using s1(3) d(2) by (auto simp: delivers_def same_sessions_def sent_to_def split: io.splits)
  qed
  moreover have "m = fst (srv_pprep (put_if_info (raw pkt) 6 ifi) TSRV_PKT_AUTH_OK 84 0)" by (simp add: m_def)
  ultimately show ?thesis using d(1) unfolding ad_def by metis
qed

lemma server_rejects_auth:
  assumes inv: "srv_inv s" and K: "sends_ok K" and l: "srv_lookup s saddr = Some i"
    and a: "\<not> is_authenticated (sess_arr s ! i)" "pkt_type (raw pkt) = TCLI_PKT_AUTH" "auth_result K pkt s = None"
  shows "\<exists>pkt' s' x r l. handle_datagram K saddr pkt s = Some (0, pkt', s') \<and> srv_inv s'
    \<and> io s' = io s @ Sendto saddr (mem_read (fst (srv_pprep x TSRV_PKT_AUTH_REJECT 0 0)) 0 4) r # l
    \<and> srv_lookup s' saddr = None"
proof -
  define m where "m = fst (srv_pprep (raw pkt) TSRV_PKT_AUTH_REJECT 0 0)"
  define s0 where "s0 = s\<lparr>tick := tick s + 1\<rparr>"
  have i: "i \<in> conn s" "addr (sess_arr s ! i) = saddr" using peer_unique [OF inv l] by simp_all
  obtain r s1 where s1: "send_to_client K i m 4 s0 = Some (r, s1)" "0 < r" "delivers [(saddr, mem_read m 0 4)] s0 s1"
    using send_ok [OF K, of 4 i m s0] i by (auto simp: s0_def)
  have s01: "same_sessions s s1"
    using same_sessions_trans [OF same_sessions_tick same_sessions_delivers] s1(3) unfolding s0_def by blast
  then have i1: "srv_inv s1" "i \<in> conn s1" using inv i by (simp_all add: same_sessions_def)
  obtain r2 s2 where s2: "send_to_client K i (fst (srv_pprep m TSRV_PKT_CLOSE 0 0)) 4 (drop_route i s1) = Some (r2, s2)"
    using send_ok [OF K, of 4] by (metis zero_less_numeral)
  then obtain r3 pkt2 s3 where c: "close_udp_session K i (pkt\<lparr>raw := m\<rparr>) s1 = Some (r3, pkt2, s3)"
    unfolding close_eq by (auto simp: pprep_len split: prod.split)
  note cs = close_spec [OF i1 c]
  have p: "srv_pprep (raw pkt) TSRV_PKT_AUTH_REJECT 0 0 = (m, 4)" by (simp add: m_def prod_eq_iff pprep_len)
  have h: "handle_clpkt K i pkt s = Some (0, pkt2, s3)"
    using a s1(1,2) c p by (simp add: handle_clpkt_def handle_clpkt_auth_def s0_def)
  obtain pkt' s' where d: "handle_datagram K saddr pkt s = Some (0, pkt', s')" "same_sessions s3 s'"
    using datagram_end [OF l K h] by blast
  have "srv_inv s'" using cs d(2) by (simp add: step_ok_def same_sessions_def)
  moreover have "srv_lookup s' saddr = None"
  proof -
    have "sess_key s' j \<noteq> sess_key s i" if j: "j \<in> conn s'" for j
    proof -
      have "j \<in> conn s - {i}" "sess_key s' j = sess_key s j"
        using j cs d(2) s01 by (auto simp: step_ok_def same_sessions_def sess_key_def)
      then show ?thesis using inv l i by (auto simp: srv_inv_def lookup_iff sess_inv_def keys_ok_def inj_on_def)
    qed
    then show ?thesis using l inv \<open>srv_inv s'\<close> by (auto simp: srv_inv_def lookup_None_iff lookup_iff)
  qed
  moreover have "\<exists>r l. io s' = io s @ Sendto saddr (mem_read m 0 4) r # l"
  proof -
    obtain l3 where "io s3 = io s1 @ l3" using cs by (auto simp: step_ok_def handled_def)
    then show ?thesis using s1(3) d(2) by (auto simp: delivers_def same_sessions_def sent_to_def s0_def split: io.splits)
  qed
  ultimately show ?thesis using d(1) unfolding m_def by metis
qed

section \<open>The tunnel\<close>

text \<open>
  What a receiver finds in its buffer \<open>m\<close>, which holds 4096 bytes of the datagram: the packet up to
  4092 bytes, and behind them what the buffer held before.
\<close>

definition tun_received :: "mem \<Rightarrow> u8 list \<Rightarrow> u8 list" where
  "tun_received m p = take 4092 p @ mem_read m 4096 (length p - 4092)"

lemma tun_received_eq:
  "tun_received m p = (if length p \<le> 4092 then p else take 4092 p @ mem_read m 4096 (length p - 4092))"
  by (simp add: tun_received_def mem_read_def)

lemma take_mem_read: "take k (mem_read m off n) = mem_read m off (min k n)"
  by (rule nth_equalityI) simp_all

lemma recv_tun_packet:
  assumes "length p \<le> 4096"
  shows "pkt_type (mem_write m 0 (take 4096 (tun_packet p))) = TSRV_PKT_TUN_DATA"
    and "unat (pkt_dlen (mem_write m 0 (take 4096 (tun_packet p)))) = length p"
    and "mem_read (mem_write m 0 (take 4096 (tun_packet p))) 4 (length p) = tun_received m p"
proof -
  define x where "x = fst (srv_pprep (mem_write m 4 p) TSRV_PKT_TUN_DATA (word_of_int (int (length p))) 0)"
  define k where "k = min 4096 (4 + length p)"
  have l: "snd (srv_pprep (mem_write m 4 p) TSRV_PKT_TUN_DATA (word_of_int (int (length p))) 0) = 4 + length p"
    using assms by (simp add: srv_pprep_def unat_of_nat)
  have t: "tun_packet p = mem_read x 0 (4 + length p)" using tun_packet_bytes [OF assms, of m] unfolding x_def l by simp
  then have e: "take 4096 (tun_packet p) = mem_read x 0 k" by (simp add: take_mem_read k_def)
  have k: "4 \<le> k" by (simp add: k_def)
  show "pkt_type (mem_write m 0 (take 4096 (tun_packet p))) = TSRV_PKT_TUN_DATA"
    unfolding e using k by (simp add: recv_header) (simp add: x_def pprep_simps)
  show "unat (pkt_dlen (mem_write m 0 (take 4096 (tun_packet p)))) = length p"
    unfolding e using assms k by (simp add: recv_header) (simp add: x_def pprep_simps unat_of_nat)
  have p: "mem_read x 4 (length p) = p" by (simp add: x_def pprep_simps)
  have "x (4 + i) = p ! i" if "i < length p" for i using arg_cong [OF p, of "\<lambda>l. l ! i"] that by simp
  then show "mem_read (mem_write m 0 (take 4096 (tun_packet p))) 4 (length p) = tun_received m p"
    unfolding e by (intro nth_equalityI) (auto simp: tun_received_def k_def nth_append min_def)
qed

lemma client_tun_sends:
  assumes "k_read K (c_tick c) = (int (length p), p)" "length p \<le> 4096"
  shows "\<exists>r. c_io (snd (snd (handle_event_tun K pkt c))) = c_io c @ [Send (tun_packet p) r]"
  using assms tun_packet_bytes [OF assms(2), of "raw pkt"]
  by (simp add: handle_event_tun_def sys_read_whole cli_pprep_eq cli_do_send_to_def Let_def split_def frame)

lemma client_tun_writes:
  assumes "k_recvfrom K (c_tick c) = (int (length (tun_packet p)), tun_packet p, a)" "length p \<le> 4096"
  shows "\<exists>r. c_io (snd (snd (handle_event_udp K pkt c))) = c_io c @ [Write (c_tun_fds c ! 0) (tun_received (raw pkt) p) r]"
proof -
  have "sys_recvfrom K (c_tick c) 4096 = (int (min (length (tun_packet p)) 4096), take 4096 (tun_packet p), a)"
    using assms(1) by (simp add: sys_recvfrom_def min_def)
  moreover have "0 < min (length (tun_packet p)) 4096" by (simp add: tun_packet_def)
  ultimately show ?thesis using recv_tun_packet [OF assms(2), of "raw pkt"]
    by (simp add: handle_event_udp_def recv_from_server_def cli_do_recv_from_def handle_srvpkt_def handle_tun_data_def
        Let_def frame)
qed

lemma server_tun_writes:
  assumes l: "srv_lookup s saddr = Some i" and K: "sends_ok K" "\<And>n. 0 < k_write K n"
    and p: "raw pkt = mem_write m 0 (take 4096 (tun_packet p))" "length p \<le> 4096" "p \<noteq> []"
  shows "\<exists>pkt' s' r l. handle_datagram K saddr pkt s = Some (0, pkt', s') \<and> io s' = io s @ Write (tun_fds s ! 0) (tun_received m p) r # l"
proof -
  note b = recv_tun_packet [OF p(2), of m, folded p(1)]
  have "pkt_dlen (raw pkt) \<noteq> 0" using b(2) p(3) by auto
  then have "write_tun_data K (tun_fds s ! 0) (raw pkt) s
      = (k_write K (tick s), s\<lparr>tick := tick s + 1, io := io s @ [Write (tun_fds s ! 0) (tun_received m p) (k_write K (tick s))]\<rparr>)"
    using b K(2) [of "tick s"] by (simp add: write_tun_data_def Let_def)
  then have "handle_clpkt_tun_data K pkt s
      = Some (0, pkt, s\<lparr>tick := tick s + 1, io := io s @ [Write (tun_fds s ! 0) (tun_received m p) (k_write K (tick s))]\<rparr>)"
    using K(2) [of "tick s"] by (subst handle_clpkt_tun_data.simps) (simp add: not_less less_imp_le)
  then have h: "handle_clpkt K i pkt s
      = Some (0, pkt, s\<lparr>tick := tick s + 1, io := io s @ [Write (tun_fds s ! 0) (tun_received m p) (k_write K (tick s))]\<rparr>)"
    using b(1) by (simp add: handle_clpkt_def)
  show ?thesis using datagram_end [OF l K(1) h] by (fastforce simp: same_sessions_def)
qed

section \<open>A server with one client\<close>

text \<open>The state after the first client was entered into the table, for the witnesses.\<close>

definition sample_peer :: sockaddr_in where
  "sample_peer = \<lparr>sin_port = 0x8813, sin_addr = 0x0100000a\<rparr>"

lemma fresh_create_any:
  "\<exists>err s1. create_udp_sess K a p ((fresh_table 2)\<lparr>tick := n\<rparr>) = (Some 0, err, s1)"
proof -
  have "bt_stack_pop (sess_stk ((fresh_table 2)\<lparr>tick := n\<rparr>)) = (0, (sess_stk (fresh_table 2))\<lparr>sp := 1\<rparr>)"
    by (simp add: fresh_table_def bt_stack_pop_def)
  moreover have "sess_map ((fresh_table 2)\<lparr>tick := n\<rparr>) = Some (\<lambda>_ _. Bucket None None)"
    by (simp add: fresh_table_def)
  ultimately show ?thesis
    by (simp add: create_udp_sess_def map_insert_udp_sess_def smap_def Let_def frame split: prod.splits)
qed

lemma one_client:
  "\<exists>s. srv_inv s \<and> srv_lookup s sample_peer = Some 0 \<and> \<not> is_authenticated (sess_arr s ! 0)
     \<and> data_dir (cfg_sys (cfg s)) = [] \<and> io s = []"
proof -
  obtain err s1 where c: "create_udp_sess silent_kernel (ntohl (sin_addr sample_peer)) (ntohs (sin_port sample_peer)) (fresh_table 2)
      = (Some 0, err, s1)"
    using fresh_create_any [of silent_kernel _ _ "tick (fresh_table 2)"] by fastforce
  define s2 where "s2 = upd_sess 0 (\<lambda>x. x\<lparr>addr := sample_peer\<rparr>) s1"
  have s2: "srv_inv s2" "0 \<in> conn s2" "addr (sess_arr s2 ! 0) = sample_peer"
    using create_inv [OF fresh_srv_inv fresh_lookup c refl refl, of "\<lambda>_. True"] by (simp_all add: s2_def Let_def)
  have "create_done (ntohl (sin_addr sample_peer)) (ntohs (sin_port sample_peer)) (fresh_table 2) 0 (Some 0, err, s1)"
    using create_spec [OF fresh_table_inv [of 2] fresh_lookup, where a = "ntohl (sin_addr sample_peer)"
        and p = "ntohs (sin_port sample_peer)" and K = silent_kernel] unfolding c
    by (auto simp: create_full_def create_nomem_def) (simp add: create_done_def)
  then have "is_authenticated (sess_arr s1 ! 0) = is_authenticated (sess_arr (fresh_table 2) ! 0)" "cfg s1 = cfg (fresh_table 2)"
      "io s1 = io (fresh_table 2)" "length (sess_arr s1) = length (sess_arr (fresh_table 2))" by (simp_all add: create_done_def)
  then have "\<not> is_authenticated (sess_arr s2 ! 0)" "data_dir (cfg_sys (cfg s2)) = []" "io s2 = []"
    by (simp_all add: s2_def fresh_table_def no_cfg_def frame reset_udp_session_def zero_sess_def)
  moreover have "srv_lookup s2 sample_peer = Some 0" using s2 by (simp add: lookup_iff srv_inv_def peer_ok_def)
  ultimately show ?thesis using s2(1) by blast
qed

text \<open>The kernel of a server that receives one datagram and grants the account of the sample user.\<close>

definition sample_srv_kernel :: "u8 list \<Rightarrow> kernel" where
  "sample_srv_kernel bs = silent_kernel\<lparr>k_sendto := (\<lambda>_. 88), k_write := (\<lambda>_. 20), k_recvfrom := (\<lambda>_. (int (length bs), bs, sample_peer)),
     k_fopen := (\<lambda>_ path. sample_fs (''data'' @ path)), k_read := (\<lambda>_. (int (length sample_ip), sample_ip))\<rparr>"

lemma sample_srv_kernel_ok:
  "sends_ok (sample_srv_kernel bs)" "srv_receives (sample_srv_kernel bs) s sample_peer bs" "0 < k_write (sample_srv_kernel bs) n"
  "k_fopen (sample_srv_kernel bs) n = (\<lambda>path. sample_fs (''data'' @ path))"
  "k_read (sample_srv_kernel bs) n = (int (length sample_ip), sample_ip)"
  by (simp_all add: sends_ok_def srv_receives_def sample_srv_kernel_def)

lemma sample_account: "teavpn2_auth (\<lambda>path. sample_fs (''data'' @ path)) [] ''ammar'' ''pw'' = Some sample_iff"
  using auth_account [where fopen = "\<lambda>path. sample_fs (''data'' @ path)" and dir = "[]", OF sample_user_ok(1) _
      sample_user_ok(2) _ _ sample_user_ok(3-5)]
  by (simp add: sample_fs_def userfile_path_def sample_iff_def)

text \<open>A client with the credentials of the sample user.\<close>

definition sample_user_cli :: cli_udp_state where
  "sample_user_cli = sample_cli\<lparr>c_cfg := sample_cli_cfg\<lparr>c_auth := \<lparr>c_username = ''ammar'', c_password = ''pw''\<rparr>\<rparr>\<rparr>"

section \<open>A packet to the client\<close>

text \<open>The server of the sample user after it has authenticated its client, and a packet to the user's address.\<close>

lemma authenticated_client:
  "\<exists>s. srv_inv s \<and> srv_lookup s sample_peer = Some 0 \<and> is_authenticated (sess_arr s ! 0)
     \<and> get_ipv4_route_map (ipv4_map s) 0x0a050502 = 0"
proof -
  obtain s where s: "srv_inv s" "srv_lookup s sample_peer = Some 0" "\<not> is_authenticated (sess_arr s ! 0)"
      "data_dir (cfg_sys (cfg s)) = []" using one_client by blast
  define q where "q = \<lparr>pkt_len = 516, raw = fst (cli_pprep_auth (\<lambda>_. 0) ''ammar'' ''pw'')\<rparr>"
  have "no_nul ''ammar''" "no_nul ''pw''" by (simp_all add: no_nul_def)
  note a = auth_packet_roundtrip [OF this, of "\<lambda>_. 0"]
  have q: "pkt_type (raw q) = TCLI_PKT_AUTH" "auth_result (sample_srv_kernel []) q s = Some sample_iff"
    using a sample_account by (simp_all add: q_def sample_srv_kernel_ok(4) s(4))
  have "ntohl (inet_addr (ipv4 sample_iff)) = 0x0a050502" by (simp add: sample_iff_def libc_eval)
  then show ?thesis using server_answers_auth [OF s(1) sample_srv_kernel_ok(1) s(2,3) q] by auto
qed

definition user_ip :: "u8 list" where
  "user_ip = [0x45, 0, 0, 20, 0, 0, 0, 0, 64, 17, 0, 0, 10, 5, 5, 9, 10, 5, 5, 2]"

lemma user_ip_hdr:
  "iphdr_version (mem_write m 4 user_ip) = 4" "iphdr_daddr (mem_write m 4 user_ip) = 0x0a050502"
  by (simp_all add: iphdr_version_def iphdr_daddr_def get_be32_def user_ip_def)

text \<open>Witness of C2: the packet is sent to the authenticated client.\<close>

theorem tun_packets_to_authenticated_witness:
  "\<exists>s pkt' s' r. srv_inv s \<and> is_authenticated (sess_arr s ! 0)
     \<and> handle_event_from_tun (tun_kernel user_ip) \<lparr>pkt_len = 0, raw = (\<lambda>_. 0)\<rparr> s = Some (0, pkt', s')
     \<and> io s' = io s @ [Sendto sample_peer (tun_packet user_ip) r] \<and> srv_inv s' \<and> sess_arr s' = sess_arr s"
proof -
  obtain s where s: "srv_inv s" "srv_lookup s sample_peer = Some 0" "is_authenticated (sess_arr s ! 0)"
      "get_ipv4_route_map (ipv4_map s) 0x0a050502 = 0" using authenticated_client by blast
  let ?pkt = "\<lparr>pkt_len = 0, raw = (\<lambda>_. 0)\<rparr> :: sc_pkt"
  have K: "sends_ok (tun_kernel user_ip)" "k_read (tun_kernel user_ip) (tick s) = (int (length user_ip), user_ip)"
    by (simp_all add: sends_ok_def tun_kernel_def)
  have l: "length user_ip \<le> 4096" by (simp add: user_ip_def)
  have "receivers s (mem_write (raw ?pkt) 4 user_ip) = [0]" unfolding receivers_def user_ip_hdr s(4) by simp
  then obtain pkt' s' log where h: "handle_event_from_tun (tun_kernel user_ip) ?pkt s = Some (0, pkt', s')"
      "io s' = io s @ log" "map sent_to log = [Some (addr (sess_arr s ! 0), tun_packet user_ip)]"
    using tun_delivers [OF K l, of ?pkt] by auto
  moreover obtain r where "log = [Sendto (addr (sess_arr s ! 0)) (tun_packet user_ip) r]"
    using h(3) by (auto simp: sent_to_def split: io.splits)
  moreover have "addr (sess_arr s ! 0) = sample_peer" using peer_unique [OF s(1,2)] by simp
  ultimately show ?thesis
    using tun_packets_to_authenticated [OF s(1) K(2) l h(1)] s(1,3) by auto
qed

section \<open>A client that is accepted\<close>

text \<open>The server accepts the client and offers it the interface tun0.\<close>

definition accepting_reply :: "u8 list" where
  "accepting_reply = mem_read (fst (srv_pprep (put_if_info (\<lambda>_. 0) 6 sample_iface) TSRV_PKT_AUTH_OK 84 0)) 0 88"

definition accepting_kernel :: kernel where
  "accepting_kernel = silent_kernel\<lparr>k_sendto := (\<lambda>_. 516), k_poll := (\<lambda>_. 1),
     k_recvfrom := (\<lambda>_. (88, accepting_reply, sample_peer))\<rparr>"

lemma accepted: "\<exists>s'. do_auth accepting_kernel sample_cli = Some (0, s')"
proof -
  obtain s1 where s1: "do_auth_once accepting_kernel sample_cli = Some (0, s1)" "c_pkt s1 \<noteq> None" "c_cfg s1 = sample_cli_cfg"
    by (simp add: do_auth_once_def cli_send_pkt_def simple_do_send_to_def sample_cli_def cli_zero_state_def
        accepting_kernel_def Let_def split_def frame)
  have a: "arrives accepting_kernel s1 accepting_reply" "length accepting_reply \<le> 4100"
    using s1(2) by (simp_all add: arrives_def accepting_kernel_def) (simp_all add: accepting_reply_def)
  have n: "no_nul (c_iface_dev (c_iface (c_cfg s1)))" by (simp add: s1(3) sample_cli_cfg_def no_nul_def)
  have f: "if_info_fits sample_iface" by (simp add: if_info_fits_def sample_iface_def no_nul_def)
  have ad: "adopted_iff (c_cfg s1) sample_iface = sample_iface"
    by (simp add: s1(3) adopted_iff_def sample_cli_cfg_def sample_iface_def strncpy2_def)
  have c: "fst (server_auth_res_chk (mem_write m 0 accepting_reply) (length accepting_reply)) = 0
      \<and> get_if_info (snd (server_auth_res_chk (mem_write m 0 accepting_reply) (length accepting_reply))) 6 = sample_iface" for m
    using auth_reply_accepted [OF refl f] by (simp add: accepting_reply_def)
  have "fst (teavpn_iface_up accepting_kernel sample_iface k)" for k
    by (rule sample_up) (simp_all add: accepting_kernel_def silent_kernel_def)
  then obtain s2 where "wait_for_auth_response accepting_kernel s1 = Some (0, s2)"
    using client_adopts [OF a n c] unfolding ad by auto
  then show ?thesis using s1(1) by (simp add: do_auth_def auth_loop.simps)
qed

text \<open>Witness of C33: the client is accepted and its interface comes up.\<close>

theorem client_auth_bounded_witness:
  "\<exists>s' n k l0 l. do_auth accepting_kernel sample_cli = Some (0, s') \<and> c_need_remove_iff s'
     \<and> teavpn_iface_up accepting_kernel (c_iff (c_iface (c_cfg s'))) n = (True, k, l) \<and> c_io s' = l0 @ l"
proof -
  have p: "c_pkt sample_cli \<noteq> None" by (simp add: sample_cli_def cli_zero_state_def)
  have K: "poll_answers accepting_kernel" by (auto simp: poll_answers_def accepting_kernel_def)
  show ?thesis using client_auth_bounded [OF K p] accepted by fastforce
qed

end
