(* ===== verification/Getopt.thy ===== *)
theory Getopt
  imports Libc "HOL-Library.Sublist"
begin

text \<open>
  \<^verbatim>\<open>getopt_long\<close> of the C library, as \<^verbatim>\<open>client/entry.c\<close> and \<^verbatim>\<open>server/entry.c\<close> call it in
  a loop: the list of its results, each an option character with \<^verbatim>\<open>optarg\<close> (\<open>None\<close> is NULL).
  Arguments that are no options are passed over, a long option may be abbreviated as long as
  the prefix is not ambiguous, and an unknown option or a missing argument gives \<^verbatim>\<open>?\<close>.
\<close>

datatype has_arg = No_Argument | Required_Argument | Optional_Argument

type_synonym long_option = "string \<times> has_arg \<times> char"
type_synonym opt_result = "char \<times> string option"

abbreviation bad_opt :: opt_result where "bad_opt \<equiv> (CHR ''?'', None)"

text \<open>What the short option string says about a character.\<close>

fun short_arg :: "string \<Rightarrow> char \<Rightarrow> has_arg option" where
  "short_arg [] c = None"
| "short_arg (x # r) c =
     (if x = CHR '':'' \<or> x \<noteq> c then short_arg r c
      else Some (if prefix ''::'' r then Optional_Argument
                 else if prefix '':'' r then Required_Argument else No_Argument))"

text \<open>An argument of short options, behind the dash.\<close>

fun short_opts :: "string \<Rightarrow> string \<Rightarrow> string list \<Rightarrow> opt_result list \<times> string list" where
  "short_opts so [] args = ([], args)"
| "short_opts so (c # r) args =
     (case short_arg so c of
        None \<Rightarrow> (case short_opts so r args of (l, a) \<Rightarrow> (bad_opt # l, a))
      | Some No_Argument \<Rightarrow> (case short_opts so r args of (l, a) \<Rightarrow> ((c, None) # l, a))
      | Some Optional_Argument \<Rightarrow> ([(c, if r = [] then None else Some r)], args)
      | Some Required_Argument \<Rightarrow>
          if r \<noteq> [] then ([(c, Some r)], args)
          else (case args of [] \<Rightarrow> ([bad_opt], []) | a # as \<Rightarrow> ([(c, Some a)], as)))"

definition long_match :: "long_option list \<Rightarrow> string \<Rightarrow> long_option option" where
  "long_match ls n =
     (case find (\<lambda>l. fst l = n) ls of
        Some l \<Rightarrow> Some l
      | None \<Rightarrow>
          (case filter (\<lambda>l. prefix n (fst l)) ls of
             [] \<Rightarrow> None
           | l # r \<Rightarrow> if list_all (\<lambda>k. snd k = snd l) r then Some l else None))"

text \<open>A long option, behind the two dashes.\<close>

definition long_opt :: "long_option list \<Rightarrow> string \<Rightarrow> string list \<Rightarrow> opt_result \<times> string list" where
  "long_opt ls s args =
     (let n = takeWhile (\<lambda>c. c \<noteq> CHR ''='') s;
          v = (if CHR ''='' \<in> set s then Some (drop (length n + 1) s) else None)
      in case long_match ls n of
           None \<Rightarrow> (bad_opt, args)
         | Some (_, No_Argument, c) \<Rightarrow> (if v = None then (c, None) else bad_opt, args)
         | Some (_, Optional_Argument, c) \<Rightarrow> ((c, v), args)
         | Some (_, Required_Argument, c) \<Rightarrow>
             (case v of
                Some x \<Rightarrow> ((c, Some x), args)
              | None \<Rightarrow> (case args of [] \<Rightarrow> (bad_opt, []) | a # as \<Rightarrow> ((c, Some a), as))))"

lemma short_opts_length: "length (snd (short_opts so s args)) \<le> length args"
  by (induction so s args rule: short_opts.induct)
    (auto split: option.splits has_arg.splits prod.splits list.splits)

lemma long_opt_length: "length (snd (long_opt ls s args)) \<le> length args"
  by (auto simp: long_opt_def Let_def split: option.splits has_arg.splits prod.splits list.splits)

function getopt_long :: "string \<Rightarrow> long_option list \<Rightarrow> string list \<Rightarrow> opt_result list" where
  "getopt_long so ls args =
     (case args of
        [] \<Rightarrow> []
      | a # as \<Rightarrow>
          if a = ''--'' then []
          else if prefix ''--'' a then
            (case long_opt ls (drop 2 a) as of (o1, r) \<Rightarrow> o1 # getopt_long so ls r)
          else if prefix ''-'' a \<and> a \<noteq> ''-'' then
            (case short_opts so (tl a) as of (l, r) \<Rightarrow> l @ getopt_long so ls r)
          else getopt_long so ls as)"
  by auto
termination
  by (relation "measure (\<lambda>(so, ls, args). length args)")
    (auto simp: less_Suc_eq_le, metis long_opt_length snd_conv, metis short_opts_length snd_conv)

declare getopt_long.simps [simp del]

text \<open>The arguments handed out are pieces of the command line.\<close>

definition args_ok :: "(string \<Rightarrow> bool) \<Rightarrow> opt_result list \<Rightarrow> bool" where
  "args_ok P os \<longleftrightarrow> (\<forall>c v. (c, Some v) \<in> set os \<longrightarrow> P v)"

lemma short_opts_args:
  assumes "\<forall>a \<in> set args. no_nul a" "no_nul s"
  shows "args_ok no_nul (fst (short_opts so s args)) \<and> set (snd (short_opts so s args)) \<subseteq> set args"
  using assms
proof (induction so s args rule: short_opts.induct)
  case (2 so c r args)
  have r: "no_nul r" using 2(4) by (simp add: no_nul_def)
  show ?case
  proof (cases "short_arg so c")
    case None
    then show ?thesis using 2(1) [OF None 2(3) r] by (auto simp: args_ok_def split: prod.splits)
  next
    case (Some h)
    show ?thesis
    proof (cases h)
      case No_Argument
      then show ?thesis using 2(2) [OF Some No_Argument 2(3) r] Some by (auto simp: args_ok_def split: prod.splits)
    next
      case Required_Argument
      then show ?thesis using Some 2(3) r by (auto simp: args_ok_def split: list.splits)
    next
      case Optional_Argument
      then show ?thesis using Some r by (auto simp: args_ok_def)
    qed
  qed
qed (simp add: args_ok_def)

lemma long_opt_args:
  assumes "\<forall>a \<in> set args. no_nul a" "no_nul s"
  shows "args_ok no_nul [fst (long_opt ls s args)] \<and> set (snd (long_opt ls s args)) \<subseteq> set args"
proof -
  have "no_nul (drop n s)" for n using assms(2) by (auto simp: no_nul_def dest: in_set_dropD)
  then show ?thesis
    using assms(1) by (auto simp: long_opt_def Let_def args_ok_def split: option.splits has_arg.splits prod.splits list.splits if_splits)
qed

lemma args_ok_append [simp]: "args_ok P (a @ b) \<longleftrightarrow> args_ok P a \<and> args_ok P b"
  by (auto simp: args_ok_def)

lemma args_ok_Cons: "args_ok P (x # b) \<longleftrightarrow> args_ok P [x] \<and> args_ok P b"
  by (auto simp: args_ok_def)

lemma getopt_args: "\<forall>a \<in> set args. no_nul a \<Longrightarrow> args_ok no_nul (getopt_long so ls args)"
proof (induction "length args" arbitrary: args rule: less_induct)
  case less
  show ?case
  proof (cases args)
    case (Cons a as)
    have a: "no_nul a" and as: "\<forall>a \<in> set as. no_nul a" using less.prems Cons by simp_all
    have d: "no_nul (drop 2 a)" using a by (auto simp: no_nul_def dest: in_set_dropD)
    have tl: "no_nul (tl a)" using a by (cases a) (auto simp: no_nul_def)
    obtain o1 r1 where l: "long_opt ls (drop 2 a) as = (o1, r1)" by fastforce
    obtain os r2 where s: "short_opts so (tl a) as = (os, r2)" by fastforce
    note lo = long_opt_args [OF as d, of ls, unfolded l] and so = short_opts_args [OF as tl, of so, unfolded s]
    have "args_ok no_nul (getopt_long so ls r)" if "set r \<subseteq> set as" "length r \<le> length as" for r
      using less.hyps [of r] that as Cons by auto
    then have r: "args_ok no_nul (getopt_long so ls r1)" "args_ok no_nul (getopt_long so ls r2)" "args_ok no_nul (getopt_long so ls as)"
      using lo so long_opt_length [of ls "drop 2 a" as] short_opts_length [of so "tl a" as] l s by auto
    have "args_ok no_nul (o1 # getopt_long so ls r1)" "args_ok no_nul (os @ getopt_long so ls r2)" "args_ok no_nul []"
      using lo so r args_ok_Cons [of no_nul o1 "getopt_long so ls r1"] by (auto simp: args_ok_def [of _ "[]"])
    then show ?thesis unfolding Cons by (subst getopt_long.simps) (use r(3) l s in simp)
  qed (simp add: getopt_long.simps args_ok_def)
qed

text \<open>Only options that may come without an argument have a NULL \<^verbatim>\<open>optarg\<close>.\<close>

definition arg_given :: "string \<Rightarrow> long_option list \<Rightarrow> opt_result \<Rightarrow> bool" where
  "arg_given so ls x \<longleftrightarrow> snd x \<noteq> None \<or> fst x = CHR ''?''
     \<or> (\<exists>h. h \<noteq> Required_Argument \<and> (short_arg so (fst x) = Some h \<or> (\<exists>n. (n, h, fst x) \<in> set ls)))"

lemma short_opts_given: "list_all (arg_given so ls) (fst (short_opts so s args))"
proof (induction so s args rule: short_opts.induct)
  case (2 so c r args)
  then show ?case
    by (cases "short_arg so c") (auto simp: arg_given_def split: has_arg.splits prod.splits list.splits)
qed simp

lemma long_match_in: "long_match ls n = Some l \<Longrightarrow> l \<in> set ls"
proof -
  assume m: "long_match ls n = Some l"
  have "l \<in> set ls" if "find (\<lambda>l. fst l = n) ls = Some l" using that by (auto simp: find_Some_iff)
  moreover have "l \<in> set ls" if "filter (\<lambda>l. prefix n (fst l)) ls = l # r" for r
    using arg_cong [OF that, of set] by auto
  ultimately show "l \<in> set ls" using m by (auto simp: long_match_def split: option.splits list.splits if_splits)
qed

lemma long_opt_given: "arg_given so ls (fst (long_opt ls s args))"
  by (auto simp: long_opt_def arg_given_def Let_def split: option.splits has_arg.splits prod.splits list.splits
      dest!: long_match_in)

lemma getopt_given: "list_all (arg_given so ls) (getopt_long so ls args)"
proof (induction "length args" arbitrary: args rule: less_induct)
  case less
  show ?case
  proof (cases args)
    case (Cons a as)
    obtain o1 r1 where l: "long_opt ls (drop 2 a) as = (o1, r1)" by fastforce
    obtain os r2 where s: "short_opts so (tl a) as = (os, r2)" by fastforce
    have "length r1 < length args" "length r2 < length args"
      using long_opt_length [of ls "drop 2 a" as] short_opts_length [of so "tl a" as] l s Cons by auto
    then have "list_all (arg_given so ls) (getopt_long so ls r1)" "list_all (arg_given so ls) (getopt_long so ls r2)"
        "list_all (arg_given so ls) (getopt_long so ls as)" using less.hyps Cons by auto
    moreover have "arg_given so ls o1" "list_all (arg_given so ls) os"
      using long_opt_given [of so ls "drop 2 a" as] short_opts_given [of so ls "tl a" as] l s by simp_all
    ultimately show ?thesis unfolding Cons by (subst getopt_long.simps) (simp add: l s)
  qed (simp add: getopt_long.simps)
qed

section \<open>Results of the option loops\<close>

text \<open>
  How the loop over the options ends: the program exits with status 0, it reads through a NULL
  \<^verbatim>\<open>optarg\<close>, or it returns a value with the configuration.
\<close>

datatype 'c argv_result = Exit_Zero | Segfault | Argv (argv_ret: int) (argv_cfg: 'c)

definition with_arg :: "string option \<Rightarrow> (string \<Rightarrow> 'c argv_result) \<Rightarrow> 'c argv_result" where
  "with_arg optarg f = (case optarg of None \<Rightarrow> Segfault | Some v \<Rightarrow> f v)"

fun opts_loop :: "(opt_result \<Rightarrow> 'c \<Rightarrow> 'c argv_result) \<Rightarrow> opt_result list \<Rightarrow> 'c \<Rightarrow> 'c argv_result" where
  "opts_loop f [] c = Argv 0 c"
| "opts_loop f (x # os) c =
     (case f x c of Argv ret c1 \<Rightarrow> (if ret \<noteq> 0 then Argv ret c1 else opts_loop f os c1) | r \<Rightarrow> r)"

text \<open>A socket type in a buffer of \<open>n\<close> bytes, in lower case.\<close>

definition sock_type_of :: "nat \<Rightarrow> string \<Rightarrow> sock_type option" where
  "sock_type_of n s =
     (let tmp = map tolower (strncpy2 s n) in
      if tmp = ''tcp'' then Some SOCK_TCP else if tmp = ''udp'' then Some SOCK_UDP else None)"

text \<open>An invariant of the configuration survives the loop.\<close>

lemma opts_loop_keeps:
  assumes "\<And>c o1 v r c1. P c \<Longrightarrow> (\<forall>v. snd o1 = Some v \<longrightarrow> no_nul v) \<Longrightarrow> f o1 c = Argv r c1 \<Longrightarrow> P c1"
    and "P c" "args_ok no_nul os" "opts_loop f os c = Argv r c1"
  shows "P c1"
  using assms(2-)
proof (induction os arbitrary: c)
  case (Cons x os)
  obtain ret c2 where f: "f x c = Argv ret c2" using Cons.prems(3) by (cases "f x c") auto
  have x: "\<forall>v. snd x = Some v \<longrightarrow> no_nul v" and os: "args_ok no_nul os"
    using Cons.prems(2) by (auto simp: args_ok_def) (metis prod.collapse)
  have "P c2" by (rule assms(1) [OF Cons.prems(1) x f])
  then show ?case using Cons.IH [of c2] Cons.prems(3) os f by (auto split: if_splits)
qed simp

text \<open>When the loop ends without a value, one of the options made it end.\<close>

lemma opts_loop_stops:
  "opts_loop f os c = r \<Longrightarrow> r \<noteq> Argv (argv_ret r) (argv_cfg r) \<Longrightarrow> \<exists>x \<in> set os. \<exists>c. f x c = r"
proof (induction os arbitrary: c)
  case (Cons x os)
  then show ?case by (cases "f x c") (auto split: if_splits)
qed auto

text \<open>A C string that fits an array.\<close>

definition fits :: "nat \<Rightarrow> string \<Rightarrow> bool" where
  "fits n s \<longleftrightarrow> no_nul s \<and> length s < n"

lemma fits_strncpy2 [simp]: "0 < n \<Longrightarrow> no_nul s \<Longrightarrow> fits n (strncpy2 s n)"
  using length_strncpy2 [of n s] by (simp add: fits_def strncpy2_def)

lemma fits_Nil [simp]: "0 < n \<Longrightarrow> fits n []"
  by (simp add: fits_def no_nul_def)

lemma atoi_dec_string: "n < 2 ^ 31 \<Longrightarrow> atoi (dec_string n) = int n"
proof -
  assume n: "n < 2 ^ 31"
  obtain d :: nat and ds where d: "d < 10" "dec_string n = char_of (48 + d) # ds" by (rule dec_string_hd)
  then have "dropWhile isspace (dec_string n) = dec_string n" by (simp add: dec_digit_class(1))
  moreover have "parse_sign (dec_string n) = (False, dec_string n)"
    using d by (simp add: parse_sign_def dec_digit_class)
  ultimately have "strtol10 (dec_string n) = int n" using n by (simp add: strtol10_def)
  then have "atoi (dec_string n) = signed_take_bit 31 (int n)" using sint_sbintrunc' [of "int n", where 'a = 32] by (simp add: atoi_def)
  then show ?thesis using n by (simp add: signed_take_bit_int_eq_self)
qed

lemma strtoul_dec_string:
  "ucast (strtoul10 (dec_string (unat w))) = (w :: u8)" "ucast (strtoul10 (dec_string (unat v))) = (v :: u16)"
proof -
  have "unat w < 2 ^ 64" "unat v < 2 ^ 64"
    using unsigned_less [of w, where 'a = nat] unsigned_less [of v, where 'a = nat] by simp_all
  moreover have "ucast (ucast w :: u64) = w" "ucast (ucast v :: u64) = v" by (rule bit_word_eqI, simp add: bit_simps)+
  ultimately show "ucast (strtoul10 (dec_string (unat w))) = (w :: u8)" "ucast (strtoul10 (dec_string (unat v))) = (v :: u16)"
    using strtoul10_dec_string [of "unat w"] strtoul10_dec_string [of "unat v"] by simp_all
qed

end
