(* ===== verification/Srv_Entry.thy ===== *)
theory Srv_Entry
  imports Srv_Init Getopt
begin

text \<open>
  The configuration of the server, \<^verbatim>\<open>src/teavpn2/server/entry.c\<close>: defaults, command line and
  configuration file, in the order in which \<open>run_server\<close> applies them.  The configuration file
  is read through the parameter \<open>fopen\<close>, from a path to an error or the contents.
\<close>

section \<open>Defaults\<close>

definition d_srv_cfg_file :: string where "d_srv_cfg_file = ''/etc/teavpn2/server.ini''"
definition d_srv_dev :: string where "d_srv_dev = ''tsrv0''"
definition d_srv_ipv4 :: string where "d_srv_ipv4 = ''10.5.5.1''"
definition d_srv_ipv4_netmask :: string where "d_srv_ipv4_netmask = ''255.255.255.0''"

text \<open>The configuration after \<^verbatim>\<open>memset\<close>.\<close>

definition srv_cfg_zero :: srv_cfg where
  "srv_cfg_zero = \<lparr>cfg_sys = \<lparr>cfg_file = [], data_dir = [], thread_num = 0, verbose_level = 0\<rparr>,
     cfg_sock = \<lparr>use_encryption = False, backlog = 0, sock_ty = SOCK_UDP, bind_addr = [], bind_port = 0,
       max_conn = 0, event_loop = [], ssl_cert = [], ssl_priv_key = []\<rparr>,
     cfg_iface = \<lparr>iface_dev = [], iface_mtu = 0, iface_iff = empty_if_info\<rparr>\<rparr>"

definition set_default_config :: "srv_cfg \<Rightarrow> srv_cfg" where
  "set_default_config c =
     c\<lparr>cfg_sys := (cfg_sys c)\<lparr>cfg_file := d_srv_cfg_file, thread_num := 2\<rparr>,
       cfg_iface := (cfg_iface c)\<lparr>iface_dev := strncpy2 d_srv_dev 16,
         iface_iff := (iface_iff (cfg_iface c))\<lparr>ipv4_mtu := 1450, dev := strncpy2 d_srv_dev 16,
           ipv4 := strncpy2 d_srv_ipv4 16, ipv4_netmask := strncpy2 d_srv_ipv4_netmask 16\<rparr>\<rparr>,
       cfg_sock := (cfg_sock c)\<lparr>bind_addr := strncpy2 ''0.0.0.0'' 64, bind_port := 44444, backlog := 10, max_conn := 32\<rparr>\<rparr>"

section \<open>Command line\<close>

definition srv_long_options :: "long_option list" where
  "srv_long_options =
     [(''help'', No_Argument, CHR ''h''), (''version'', No_Argument, CHR ''V''), (''verbose'', Optional_Argument, CHR ''v''),
      (''config'', Required_Argument, CHR ''c''), (''data-dir'', Required_Argument, CHR ''d''),
      (''thread'', Required_Argument, CHR ''t''), (''dev'', Required_Argument, CHR ''D''),
      (''mtu'', Required_Argument, CHR ''m''), (''ipv4'', Required_Argument, CHR ''4''),
      (''ipv4-netmask'', Required_Argument, CHR ''N''), (''sock-type'', Required_Argument, CHR ''s''),
      (''bind-addr'', Required_Argument, CHR ''H''), (''bind-port'', Required_Argument, CHR ''P''),
      (''backlog'', Required_Argument, CHR ''B''), (''encrypt'', No_Argument, CHR ''E'')]"

definition srv_short_opt :: string where "srv_short_opt = ''hVv::c:d:t:D:m:4:N:s:H:P:B:E:''"

text \<open>
  One turn of the loop in \<open>parse_argv\<close>.  The switch has no case for \<^verbatim>\<open>B\<close> and none for
  \<^verbatim>\<open>?\<close>, so both are ignored.
\<close>

definition srv_opt :: "opt_result \<Rightarrow> srv_cfg \<Rightarrow> srv_cfg argv_result" where
  "srv_opt x c =
     (let (ch, optarg) = x;
          sys = cfg_sys c; sock = cfg_sock c; iface = cfg_iface c
      in
      if ch = CHR ''h'' \<or> ch = CHR ''V'' then Exit_Zero
      else if ch = CHR ''v'' then
        Argv 0 (c\<lparr>cfg_sys := sys\<lparr>verbose_level := (case optarg of Some v \<Rightarrow> word_of_int (atoi v) | None \<Rightarrow> 6)\<rparr>\<rparr>)
      else if ch = CHR ''c'' then with_arg optarg (\<lambda>v. Argv 0 (c\<lparr>cfg_sys := sys\<lparr>cfg_file := v\<rparr>\<rparr>))
      else if ch = CHR ''d'' then with_arg optarg (\<lambda>v. Argv 0 (c\<lparr>cfg_sys := sys\<lparr>data_dir := strncpy2 v 128\<rparr>\<rparr>))
      else if ch = CHR ''t'' then
        with_arg optarg (\<lambda>v. if atoi v \<le> 0 then Argv (- EINVAL) c
                             else Argv 0 (c\<lparr>cfg_sys := sys\<lparr>thread_num := word_of_int (atoi v)\<rparr>\<rparr>))
      else if ch = CHR ''D'' then with_arg optarg (\<lambda>v. Argv 0 (c\<lparr>cfg_iface := iface\<lparr>iface_dev := strncpy2 v 16\<rparr>\<rparr>))
      else if ch = CHR ''m'' then
        with_arg optarg (\<lambda>v. if atoi v \<le> 0 then Argv (- EINVAL) c
                             else Argv 0 (c\<lparr>cfg_iface := iface\<lparr>iface_mtu := word_of_int (atoi v)\<rparr>\<rparr>))
      else if ch = CHR ''4'' then
        with_arg optarg (\<lambda>v. Argv 0 (c\<lparr>cfg_iface := iface\<lparr>iface_iff := (iface_iff iface)\<lparr>ipv4 := strncpy2 v 16\<rparr>\<rparr>\<rparr>))
      else if ch = CHR ''N'' then
        with_arg optarg (\<lambda>v. Argv 0 (c\<lparr>cfg_iface := iface\<lparr>iface_iff := (iface_iff iface)\<lparr>ipv4_netmask := strncpy2 v 16\<rparr>\<rparr>\<rparr>))
      else if ch = CHR ''s'' then
        with_arg optarg (\<lambda>v. case sock_type_of 5 v of
            None \<Rightarrow> Argv (- EINVAL) c
          | Some ty \<Rightarrow> Argv 0 (c\<lparr>cfg_sock := sock\<lparr>sock_ty := ty\<rparr>\<rparr>))
      else if ch = CHR ''H'' then with_arg optarg (\<lambda>v. Argv 0 (c\<lparr>cfg_sock := sock\<lparr>bind_addr := strncpy2 v 64\<rparr>\<rparr>))
      else if ch = CHR ''P'' then with_arg optarg (\<lambda>v. Argv 0 (c\<lparr>cfg_sock := sock\<lparr>bind_port := word_of_int (atoi v)\<rparr>\<rparr>))
      else if ch = CHR ''E'' then with_arg optarg (\<lambda>v. Argv 0 (c\<lparr>cfg_sock := sock\<lparr>use_encryption := (atoi v \<noteq> 0)\<rparr>\<rparr>))
      else Argv 0 c)"

definition parse_argv :: "string list \<Rightarrow> srv_cfg \<Rightarrow> srv_cfg argv_result" where
  "parse_argv argv c = opts_loop srv_opt (getopt_long srv_short_opt srv_long_options (tl argv)) c"

section \<open>Configuration file\<close>

definition cfg_parse_section_sys :: "srv_cfg \<Rightarrow> string \<Rightarrow> string \<Rightarrow> int \<Rightarrow> int \<times> srv_cfg" where
  "cfg_parse_section_sys c name val lineno =
     (let sys = cfg_sys c in
      if name = ''thread'' then (1, c\<lparr>cfg_sys := sys\<lparr>thread_num := ucast (strtoul10 val)\<rparr>\<rparr>)
      else if name = ''verbose_level'' then (1, c\<lparr>cfg_sys := sys\<lparr>verbose_level := ucast (strtoul10 val)\<rparr>\<rparr>)
      else if name = ''data_dir'' then (1, c\<lparr>cfg_sys := sys\<lparr>data_dir := strncpy2 val 128\<rparr>\<rparr>)
      else (0, c))"

definition cfg_parse_section_socket :: "srv_cfg \<Rightarrow> string \<Rightarrow> string \<Rightarrow> int \<Rightarrow> int \<times> srv_cfg" where
  "cfg_parse_section_socket c name val lineno =
     (let sock = cfg_sock c in
      if name = ''use_encryption'' then (1, c\<lparr>cfg_sock := sock\<lparr>use_encryption := (atoi val \<noteq> 0)\<rparr>\<rparr>)
      else if name = ''event_loop'' then (1, c\<lparr>cfg_sock := sock\<lparr>event_loop := strncpy2 val 64\<rparr>\<rparr>)
      else if name = ''sock_type'' then
        (case sock_type_of 8 val of None \<Rightarrow> (0, c) | Some ty \<Rightarrow> (1, c\<lparr>cfg_sock := sock\<lparr>sock_ty := ty\<rparr>\<rparr>))
      else if name = ''bind_addr'' then (1, c\<lparr>cfg_sock := sock\<lparr>bind_addr := strncpy2 val 64\<rparr>\<rparr>)
      else if name = ''bind_port'' then (1, c\<lparr>cfg_sock := sock\<lparr>bind_port := ucast (strtoul10 val)\<rparr>\<rparr>)
      else if name = ''backlog'' then (1, c\<lparr>cfg_sock := sock\<lparr>backlog := atoi val\<rparr>\<rparr>)
      else if name = ''max_conn'' then (1, c\<lparr>cfg_sock := sock\<lparr>max_conn := ucast (strtoul10 val)\<rparr>\<rparr>)
      else if name = ''ssl_cert'' then (1, c\<lparr>cfg_sock := sock\<lparr>ssl_cert := strncpy2 val 256\<rparr>\<rparr>)
      else if name = ''ssl_priv_key'' then (1, c\<lparr>cfg_sock := sock\<lparr>ssl_priv_key := strncpy2 val 256\<rparr>\<rparr>)
      else (0, c))"

definition cfg_parse_section_iface :: "srv_cfg \<Rightarrow> string \<Rightarrow> string \<Rightarrow> int \<Rightarrow> int \<times> srv_cfg" where
  "cfg_parse_section_iface c name val lineno =
     (let iface = cfg_iface c; iff = iface_iff iface in
      if name = ''dev'' then
        (1, c\<lparr>cfg_iface := iface\<lparr>iface_dev := strncpy2 val 16, iface_iff := iff\<lparr>dev := strncpy2 val 16\<rparr>\<rparr>\<rparr>)
      else if name = ''mtu'' then
        (1, c\<lparr>cfg_iface := iface\<lparr>iface_mtu := ucast (strtoul10 val), iface_iff := iff\<lparr>ipv4_mtu := ucast (strtoul10 val)\<rparr>\<rparr>\<rparr>)
      else if name = ''ipv4'' then (1, c\<lparr>cfg_iface := iface\<lparr>iface_iff := iff\<lparr>ipv4 := strncpy2 val 16\<rparr>\<rparr>\<rparr>)
      else if name = ''ipv4_netmask'' then (1, c\<lparr>cfg_iface := iface\<lparr>iface_iff := iff\<lparr>ipv4_netmask := strncpy2 val 16\<rparr>\<rparr>\<rparr>)
      else (0, c))"

definition server_cfg_parser :: "srv_cfg ini_handler" where
  "server_cfg_parser c section name val lineno =
     (if section = ''sys'' then cfg_parse_section_sys c name val lineno
      else if section = ''socket'' then cfg_parse_section_socket c name val lineno
      else if section = ''iface'' then cfg_parse_section_iface c name val lineno
      else (0, c))"

definition parse_cfg_file :: "(string \<Rightarrow> int + string) \<Rightarrow> string \<Rightarrow> srv_cfg \<Rightarrow> int \<times> srv_cfg" where
  "parse_cfg_file fopen path c =
     (case fopen path of
        Inl err \<Rightarrow> (- err, c)
      | Inr handle \<Rightarrow> (case ini_parse_file handle server_cfg_parser c of (ret, c1) \<Rightarrow> (if ret \<noteq> 0 then - EINVAL else 0, c1)))"

section \<open>The run\<close>

text \<open>The configuration \<open>run_server\<close> starts the server with, or its error as \<open>-errno\<close>.\<close>

definition load_srv_cfg :: "(string \<Rightarrow> int + string) \<Rightarrow> string list \<Rightarrow> srv_cfg argv_result" where
  "load_srv_cfg fopen argv =
     (case parse_argv argv (set_default_config srv_cfg_zero) of
        Argv ret c \<Rightarrow>
          if ret \<noteq> 0 then Argv ret c
          else (case parse_cfg_file fopen (cfg_file (cfg_sys c)) c of
                  (ret, c1) \<Rightarrow>
                    if ret \<noteq> 0 \<and> \<not> (ret = - ENOENT \<and> cfg_file (cfg_sys c1) = d_srv_cfg_file) then Argv ret c1
                    else Argv 0 c1)
      | r \<Rightarrow> r)"

text \<open>A process has exited with a status, crashed, or runs the threads of its event loop.\<close>

datatype 'm process = Exited_With int | Crashed | Running 'm

definition run_server :: "(string \<Rightarrow> int + string) \<Rightarrow> kernel \<Rightarrow> string list \<Rightarrow> machine process option" where
  "run_server fopen K argv =
     (case load_srv_cfg fopen argv of
        Exit_Zero \<Rightarrow> Some (Exited_With 0)
      | Segfault \<Rightarrow> Some Crashed
      | Argv ret c \<Rightarrow>
          if ret \<noteq> 0 then Some (Exited_With (- ret))
          else (case sock_ty (cfg_sock c) of
                  SOCK_UDP \<Rightarrow> do {
                    r \<leftarrow> teavpn2_server_udp_run K c;
                    Some (case r of Inl (ret, _) \<Rightarrow> Exited_With (- ret) | Inr m \<Rightarrow> Running m)
                  }
                | SOCK_TCP \<Rightarrow> Some (Exited_With ESOCKTNOSUPPORT)))"

section \<open>Options that end the program\<close>

text \<open>The options of a server command line.\<close>

abbreviation srv_opts :: "string list \<Rightarrow> opt_result list" where
  "srv_opts argv \<equiv> getopt_long srv_short_opt srv_long_options (tl argv)"

lemma srv_opt_stops:
  "srv_opt x c = Segfault \<Longrightarrow> arg_given srv_short_opt srv_long_options x \<Longrightarrow> x = (CHR ''E'', None)"
  "srv_opt x c = Exit_Zero \<Longrightarrow> fst x \<in> {CHR ''h'', CHR ''V''}"
  by (cases x; auto simp: srv_opt_def with_arg_def arg_given_def srv_short_opt_def srv_long_options_def Let_def
      split: if_splits option.splits)+

lemma load_srv_stops:
  "load_srv_cfg fopen argv = Segfault \<Longrightarrow> (CHR ''E'', None) \<in> set (srv_opts argv)"
  "load_srv_cfg fopen argv = Exit_Zero \<Longrightarrow> \<exists>x \<in> set (srv_opts argv). fst x \<in> {CHR ''h'', CHR ''V''}"
proof -
  let ?c = "set_default_config srv_cfg_zero"
  assume "load_srv_cfg fopen argv = Segfault"
  then have "opts_loop srv_opt (srv_opts argv) ?c = Segfault"
    by (auto simp: load_srv_cfg_def parse_argv_def split: argv_result.splits if_splits prod.splits)
  from opts_loop_stops [OF this] show "(CHR ''E'', None) \<in> set (srv_opts argv)"
    using getopt_given [of srv_short_opt srv_long_options "tl argv"] srv_opt_stops(1) by (auto simp: list_all_iff)
next
  let ?c = "set_default_config srv_cfg_zero"
  assume "load_srv_cfg fopen argv = Exit_Zero"
  then have "opts_loop srv_opt (srv_opts argv) ?c = Exit_Zero"
    by (auto simp: load_srv_cfg_def parse_argv_def split: argv_result.splits if_splits prod.splits)
  from opts_loop_stops [OF this] show "\<exists>x \<in> set (srv_opts argv). fst x \<in> {CHR ''h'', CHR ''V''}"
    using srv_opt_stops(2) by auto
qed

section \<open>The strings fit\<close>

definition srv_cfg_fits :: "srv_cfg \<Rightarrow> bool" where
  "srv_cfg_fits c \<longleftrightarrow> fits 128 (data_dir (cfg_sys c)) \<and> fits 64 (bind_addr (cfg_sock c)) \<and> fits 64 (event_loop (cfg_sock c))
     \<and> fits 256 (ssl_cert (cfg_sock c)) \<and> fits 256 (ssl_priv_key (cfg_sock c)) \<and> fits 16 (iface_dev (cfg_iface c))
     \<and> if_info_fits (iface_iff (cfg_iface c))"

lemma if_info_fits_upd:
  "if_info_fits i \<Longrightarrow> no_nul v \<Longrightarrow> if_info_fits (i\<lparr>ipv4 := strncpy2 v 16\<rparr>) \<and> if_info_fits (i\<lparr>ipv4_netmask := strncpy2 v 16\<rparr>)
    \<and> if_info_fits (i\<lparr>dev := strncpy2 v 16\<rparr>) \<and> if_info_fits (i\<lparr>ipv4_mtu := m\<rparr>)"
  using fits_strncpy2 [of 16 v] by (simp add: if_info_fits_def fits_def)

lemma srv_opt_fits:
  assumes "srv_cfg_fits c" "\<forall>v. snd x = Some v \<longrightarrow> no_nul v" "srv_opt x c = Argv r c1"
  shows "srv_cfg_fits c1"
proof -
  obtain ch oa where x: "x = (ch, oa)" by fastforce
  show ?thesis
    using assms unfolding x
    by (cases oa) (auto simp: srv_opt_def Let_def with_arg_def srv_cfg_fits_def if_info_fits_upd split: if_splits option.splits)
qed

lemma srv_parser_fits: "keeps server_cfg_parser srv_cfg_fits"
  by (auto simp: keeps_def server_cfg_parser_def cfg_parse_section_sys_def cfg_parse_section_socket_def
      cfg_parse_section_iface_def Let_def srv_cfg_fits_def if_info_fits_upd split: if_splits option.splits)

lemma parse_cfg_file_fits:
  assumes "srv_cfg_fits c" "parse_cfg_file fopen path c = (ret, c1)"
  shows "srv_cfg_fits c1"
  using assms ini_parse_keeps [OF srv_parser_fits assms(1)]
  by (auto simp: parse_cfg_file_def ini_parse_file_def split: sum.splits prod.splits if_splits) (metis snd_conv)+

lemma default_fits: "srv_cfg_fits (set_default_config srv_cfg_zero)"
  by (simp add: srv_cfg_fits_def set_default_config_def srv_cfg_zero_def if_info_fits_def empty_if_info_def no_nul_def
      d_srv_dev_def d_srv_ipv4_def d_srv_ipv4_netmask_def strncpy2_def fits_def)

section \<open>The file of a configuration\<close>

definition sock_type_name :: "sock_type \<Rightarrow> string" where
  "sock_type_name ty = (case ty of SOCK_UDP \<Rightarrow> ''udp'' | SOCK_TCP \<Rightarrow> ''tcp'')"

definition srv_items :: "srv_cfg \<Rightarrow> ini_item list" where
  "srv_items c =
     [Sec ''sys'', Ent ''thread'' (dec_string (unat (thread_num (cfg_sys c)))),
      Ent ''verbose_level'' (dec_string (unat (verbose_level (cfg_sys c)))), Ent ''data_dir'' (data_dir (cfg_sys c)),
      Sec ''socket'', Ent ''use_encryption'' (if use_encryption (cfg_sock c) then ''1'' else ''0''),
      Ent ''event_loop'' (event_loop (cfg_sock c)), Ent ''sock_type'' (sock_type_name (sock_ty (cfg_sock c))),
      Ent ''bind_addr'' (bind_addr (cfg_sock c)), Ent ''bind_port'' (dec_string (unat (bind_port (cfg_sock c)))),
      Ent ''backlog'' (dec_string (nat (backlog (cfg_sock c)))), Ent ''max_conn'' (dec_string (unat (max_conn (cfg_sock c)))),
      Ent ''ssl_cert'' (ssl_cert (cfg_sock c)), Ent ''ssl_priv_key'' (ssl_priv_key (cfg_sock c)),
      Sec ''iface'', Ent ''dev'' (iface_dev (cfg_iface c)), Ent ''mtu'' (dec_string (unat (iface_mtu (cfg_iface c)))),
      Ent ''ipv4'' (ipv4 (iface_iff (cfg_iface c))), Ent ''ipv4_netmask'' (ipv4_netmask (iface_iff (cfg_iface c)))]"

text \<open>A configuration that can be written to a file and read back.\<close>

definition srv_cfg_plain :: "srv_cfg \<Rightarrow> bool" where
  "srv_cfg_plain c \<longleftrightarrow> value_ok 128 (data_dir (cfg_sys c)) \<and> value_ok 64 (bind_addr (cfg_sock c))
     \<and> value_ok 64 (event_loop (cfg_sock c)) \<and> value_ok 150 (ssl_cert (cfg_sock c)) \<and> value_ok 150 (ssl_priv_key (cfg_sock c))
     \<and> value_ok 16 (iface_dev (cfg_iface c)) \<and> value_ok 16 (ipv4 (iface_iff (cfg_iface c)))
     \<and> value_ok 16 (ipv4_netmask (iface_iff (cfg_iface c))) \<and> 0 \<le> backlog (cfg_sock c) \<and> backlog (cfg_sock c) < 2 ^ 31"

text \<open>What the file leaves of the configuration it is read into.\<close>

definition srv_cfg_over :: "srv_cfg \<Rightarrow> srv_cfg \<Rightarrow> srv_cfg" where
  "srv_cfg_over c0 c =
     c\<lparr>cfg_sys := (cfg_sys c)\<lparr>cfg_file := cfg_file (cfg_sys c0)\<rparr>,
       cfg_iface := (cfg_iface c)\<lparr>iface_iff := (iface_iff (cfg_iface c0))\<lparr>dev := iface_dev (cfg_iface c),
         ipv4 := ipv4 (iface_iff (cfg_iface c)), ipv4_netmask := ipv4_netmask (iface_iff (cfg_iface c)),
         ipv4_mtu := iface_mtu (cfg_iface c)\<rparr>\<rparr>\<rparr>"

lemma dec_value_ok: "n < 10 ^ 10 \<Longrightarrow> value_ok 11 (dec_string n)"
  using length_dec_string [of n 10] dec_string_value_ok [of n] by (simp add: value_ok_def)

lemma srv_items_ok:
  assumes "srv_cfg_plain c"
  shows "list_all item_ok (srv_items c)"
proof -
  have d: "value_ok 11 (dec_string (unat (w :: u8)))" "value_ok 11 (dec_string (unat (v :: u16)))" for w v
    using unsigned_less [of w, where 'a = nat] unsigned_less [of v, where 'a = nat] by (intro dec_value_ok; simp)+
  have b: "value_ok 11 (dec_string (nat (backlog (cfg_sock c))))" using assms by (intro dec_value_ok) (auto simp: srv_cfg_plain_def nat_less_iff)
  have e: "value_ok 4 (if use_encryption (cfg_sock c) then ''1'' else ''0'')" "value_ok 4 (sock_type_name (sock_ty (cfg_sock c)))"
    by (auto simp: value_ok_def plain_def trimmed_def isspace_def sock_type_name_def split: sock_type.split)
  have k: "item_ok (Ent n v)" if "value_ok 150 v" "n \<in> {''thread'', ''verbose_level'', ''data_dir'', ''use_encryption'', ''event_loop'',
      ''sock_type'', ''bind_addr'', ''bind_port'', ''backlog'', ''max_conn'', ''ssl_cert'', ''ssl_priv_key'', ''dev'', ''mtu'', ''ipv4'', ''ipv4_netmask''}" for n v
    using that by (auto simp: value_ok_def plain_def trimmed_def isspace_def)
  have w: "value_ok n v \<Longrightarrow> n \<le> 150 \<Longrightarrow> value_ok 150 v" for n v by (simp add: value_ok_def)
  show ?thesis
    unfolding srv_items_def list.pred_inject
    using assms by (intro conjI k w [OF d(1)] w [OF d(2)] w [OF b] w [OF e(1)] w [OF e(2)])
      (auto simp: srv_cfg_plain_def plain_def value_ok_def)
qed

lemma srv_parser_keys:
  "server_cfg_parser c ''sys'' n v l = cfg_parse_section_sys c n v l"
  "server_cfg_parser c ''socket'' n v l = cfg_parse_section_socket c n v l"
  "server_cfg_parser c ''iface'' n v l = cfg_parse_section_iface c n v l"
  by (simp_all add: server_cfg_parser_def)

lemma sock_type_name_of: "sock_type_of 8 (sock_type_name ty) = Some ty"
  by (cases ty) (simp_all add: sock_type_of_def sock_type_name_def strncpy2_def tolower_def Let_def)

lemma atoi_flag: "atoi (if b then ''1'' else ''0'') \<noteq> 0 \<longleftrightarrow> b"
  by (simp add: libc_eval)

lemma srv_file_run:
  assumes p: "srv_cfg_plain c"
  shows "ini_run server_cfg_parser [] 0 0 (srv_items c) c0 = (0, srv_cfg_over c0 c)"
proof -
  have s: "strncpy2 (data_dir (cfg_sys c)) 128 = data_dir (cfg_sys c)" "strncpy2 (bind_addr (cfg_sock c)) 64 = bind_addr (cfg_sock c)"
    "strncpy2 (event_loop (cfg_sock c)) 64 = event_loop (cfg_sock c)" "strncpy2 (ssl_cert (cfg_sock c)) 256 = ssl_cert (cfg_sock c)"
    "strncpy2 (ssl_priv_key (cfg_sock c)) 256 = ssl_priv_key (cfg_sock c)" "strncpy2 (iface_dev (cfg_iface c)) 16 = iface_dev (cfg_iface c)"
    "strncpy2 (ipv4 (iface_iff (cfg_iface c))) 16 = ipv4 (iface_iff (cfg_iface c))"
    "strncpy2 (ipv4_netmask (iface_iff (cfg_iface c))) 16 = ipv4_netmask (iface_iff (cfg_iface c))"
    using p by (simp_all add: srv_cfg_plain_def value_ok_def strncpy2_fits)
  have b: "atoi (dec_string (nat (backlog (cfg_sock c)))) = backlog (cfg_sock c)"
    using p atoi_dec_string [of "nat (backlog (cfg_sock c))"] by (auto simp: srv_cfg_plain_def nat_less_iff)
  show ?thesis
    unfolding srv_items_def
    by (simp add: srv_parser_keys cfg_parse_section_sys_def cfg_parse_section_socket_def cfg_parse_section_iface_def
        s b strtoul_dec_string atoi_flag sock_type_name_of srv_cfg_over_def Let_def)
qed

section \<open>Properties\<close>

text \<open>
  C38: the configuration of the server is well formed.  Whatever the command line and the
  configuration file hold, every string of the configuration with which the server starts is a
  C string that fits the array it is stored in.
\<close>

theorem server_config_fits:
  assumes "\<forall>a \<in> set argv. no_nul a" and "load_srv_cfg fopen argv = Argv 0 c"
  shows "srv_cfg_fits c"
proof -
  have a: "args_ok no_nul (getopt_long srv_short_opt srv_long_options (tl argv))"
    using assms(1) by (intro getopt_args) (cases argv; simp)
  obtain ret c1 where p: "parse_argv argv (set_default_config srv_cfg_zero) = Argv ret c1"
    using assms(2) by (auto simp: load_srv_cfg_def split: argv_result.splits)
  have f: "srv_cfg_fits c1"
    by (rule opts_loop_keeps [where P = srv_cfg_fits and f = srv_opt, OF _ default_fits a p [unfolded parse_argv_def]])
      (rule srv_opt_fits)
  obtain r c2 where c: "parse_cfg_file fopen (cfg_file (cfg_sys c1)) c1 = (r, c2)" by fastforce
  show ?thesis
    using parse_cfg_file_fits [OF f c] assms(2) p f c by (auto simp: load_srv_cfg_def split: if_splits)
qed

text \<open>Witness of C38: the server with all defaults.\<close>

theorem server_config_fits_witness: "srv_cfg_fits (set_default_config srv_cfg_zero)"
proof -
  have "load_srv_cfg (\<lambda>_. Inl ENOENT) [''teavpn2'', ''server''] = Argv 0 (set_default_config srv_cfg_zero)"
    by (simp add: load_srv_cfg_def parse_argv_def getopt_long.simps parse_cfg_file_def set_default_config_def)
  then show ?thesis by (rule server_config_fits [rotated]) (simp add: no_nul_def)
qed

text \<open>
  C40: a configuration file decides.  Reading the printed file of a configuration gives this
  configuration back, whatever the defaults and the command line had set before: of the earlier
  settings only the name of the file and the fields that no file can name survive.
\<close>

theorem server_config_roundtrip:
  assumes "srv_cfg_plain c" and "fopen path = Inr (ini_print (srv_items c))"
  shows "parse_cfg_file fopen path c0 = (0, srv_cfg_over c0 c)"
proof -
  have "ini_parse_file (ini_print (srv_items c)) server_cfg_parser c0 = (0, srv_cfg_over c0 c)"
    using ini_parse_print [where h = server_cfg_parser, OF srv_items_ok [OF assms(1)]] srv_file_run [OF assms(1)]
    by (simp add: ini_parse_file_def)
  then show ?thesis using assms(2) by (simp add: parse_cfg_file_def)
qed

text \<open>Witness of C40: the defaults, written to a file, override every option.\<close>

theorem server_config_roundtrip_witness:
  "thread_num (cfg_sys (snd (parse_cfg_file (\<lambda>_. Inr (ini_print (srv_items (set_default_config srv_cfg_zero)))) ''s.ini''
     (srv_cfg_zero\<lparr>cfg_sys := (cfg_sys srv_cfg_zero)\<lparr>thread_num := 7\<rparr>\<rparr>)))) = 2"
proof -
  have "srv_cfg_plain (set_default_config srv_cfg_zero)"
    by (simp add: srv_cfg_plain_def set_default_config_def srv_cfg_zero_def empty_if_info_def value_ok_def plain_def trimmed_def
        isspace_def strncpy2_def d_srv_dev_def d_srv_ipv4_def d_srv_ipv4_netmask_def)
  from server_config_roundtrip [OF this, where fopen = "\<lambda>_. Inr (ini_print (srv_items (set_default_config srv_cfg_zero)))"] show ?thesis
    by (simp add: srv_cfg_over_def set_default_config_def)
qed

section \<open>Options that do not do what they say\<close>

text \<open>
  The number of threads is checked before it is cut to eight bits, the option for the backlog
  is accepted and ignored, and the long option for encryption, which takes no argument, reads
  its argument.
\<close>

theorem thread_option_wraps:
  "case parse_argv [''teavpn2'', ''server'', ''-t'', ''256''] (set_default_config srv_cfg_zero) of
     Argv ret c \<Rightarrow> ret = 0 \<and> thread_num (cfg_sys c) = 0 | _ \<Rightarrow> False"
  by code_simp

theorem backlog_option_ignored:
  "case parse_argv [''teavpn2'', ''server'', ''--backlog=99''] (set_default_config srv_cfg_zero) of
     Argv ret c \<Rightarrow> ret = 0 \<and> backlog (cfg_sock c) = 10 | _ \<Rightarrow> False"
  by code_simp

theorem encrypt_option_crashes:
  "case parse_argv [''teavpn2'', ''server'', ''--encrypt''] (set_default_config srv_cfg_zero) of Segfault \<Rightarrow> True | _ \<Rightarrow> False"
  by code_simp

end
