(* ===== verification/Cli_Entry.thy ===== *)
theory Cli_Entry
  imports Cli_Run Srv_Entry
begin

text \<open>
  The configuration of the client, \<^verbatim>\<open>src/teavpn2/client/entry.c\<close>, in the order in which
  \<open>run_client\<close> applies defaults, command line and configuration file.
\<close>

section \<open>Defaults\<close>

definition d_cli_cfg_file :: string where "d_cli_cfg_file = ''/etc/teavpn2/client.ini''"
definition d_cli_dev :: string where "d_cli_dev = ''tcli0''"

definition cli_cfg_zero :: cli_cfg where
  "cli_cfg_zero = \<lparr>c_sys = \<lparr>c_cfg_file = [], c_data_dir = [], c_thread_num = 0, c_verbose_level = 0\<rparr>,
     c_sock = \<lparr>c_use_encryption = False, c_sock_ty = SOCK_UDP, server_addr = [], server_port = 0, c_event_loop = []\<rparr>,
     c_iface = \<lparr>override_default = False, c_iface_dev = [], c_iff = empty_if_info\<rparr>,
     c_auth = \<lparr>c_username = [], c_password = []\<rparr>\<rparr>"

definition cli_set_default_config :: "cli_cfg \<Rightarrow> cli_cfg" where
  "cli_set_default_config c =
     c\<lparr>c_sys := (c_sys c)\<lparr>c_cfg_file := d_cli_cfg_file, c_thread_num := 2\<rparr>,
       c_iface := (c_iface c)\<lparr>c_iface_dev := strncpy2 d_cli_dev 16, c_iff := (c_iff (c_iface c))\<lparr>dev := strncpy2 d_cli_dev 16\<rparr>\<rparr>,
       c_sock := (c_sock c)\<lparr>server_port := 44444\<rparr>\<rparr>"

section \<open>Command line\<close>

definition cli_long_options :: "long_option list" where
  "cli_long_options =
     [(''help'', No_Argument, CHR ''h''), (''version'', No_Argument, CHR ''V''), (''verbose'', Optional_Argument, CHR ''v''),
      (''config'', Required_Argument, CHR ''c''), (''data-dir'', Required_Argument, CHR ''d''),
      (''thread'', Required_Argument, CHR ''t''), (''dev'', Required_Argument, CHR ''D''),
      (''sock-type'', Required_Argument, CHR ''s''), (''server-addr'', Required_Argument, CHR ''H''),
      (''server-port'', Required_Argument, CHR ''P''), (''encrypt'', No_Argument, CHR ''E''),
      (''username'', Required_Argument, CHR ''u''), (''password'', Required_Argument, CHR ''p'')]"

definition cli_short_opt :: string where "cli_short_opt = ''hVv::c:d:t:D:s:H:P:Eu:p:''"

text \<open>One turn of the loop in \<open>parse_argv\<close>.\<close>

definition cli_opt :: "opt_result \<Rightarrow> cli_cfg \<Rightarrow> cli_cfg argv_result" where
  "cli_opt x c =
     (let (ch, optarg) = x;
          sys = c_sys c; sock = c_sock c; iface = c_iface c; auth = c_auth c
      in
      if ch = CHR ''h'' \<or> ch = CHR ''V'' then Exit_Zero
      else if ch = CHR ''v'' then
        Argv 0 (c\<lparr>c_sys := sys\<lparr>c_verbose_level := (case optarg of Some v \<Rightarrow> word_of_int (atoi v) | None \<Rightarrow> 6)\<rparr>\<rparr>)
      else if ch = CHR ''c'' then with_arg optarg (\<lambda>v. Argv 0 (c\<lparr>c_sys := sys\<lparr>c_cfg_file := v\<rparr>\<rparr>))
      else if ch = CHR ''d'' then with_arg optarg (\<lambda>v. Argv 0 (c\<lparr>c_sys := sys\<lparr>c_data_dir := strncpy2 v 128\<rparr>\<rparr>))
      else if ch = CHR ''t'' then
        with_arg optarg (\<lambda>v. if atoi v \<le> 0 then Argv (- EINVAL) c
                             else Argv 0 (c\<lparr>c_sys := sys\<lparr>c_thread_num := word_of_int (atoi v)\<rparr>\<rparr>))
      else if ch = CHR ''s'' then
        with_arg optarg (\<lambda>v. case sock_type_of 5 v of
            None \<Rightarrow> Argv (- EINVAL) c
          | Some ty \<Rightarrow> Argv 0 (c\<lparr>c_sock := sock\<lparr>c_sock_ty := ty\<rparr>\<rparr>))
      else if ch = CHR ''H'' then with_arg optarg (\<lambda>v. Argv 0 (c\<lparr>c_sock := sock\<lparr>server_addr := strncpy2 v 64\<rparr>\<rparr>))
      else if ch = CHR ''P'' then with_arg optarg (\<lambda>v. Argv 0 (c\<lparr>c_sock := sock\<lparr>server_port := word_of_int (atoi v)\<rparr>\<rparr>))
      else if ch = CHR ''E'' then with_arg optarg (\<lambda>v. Argv 0 (c\<lparr>c_sock := sock\<lparr>c_use_encryption := (atoi v \<noteq> 0)\<rparr>\<rparr>))
      else if ch = CHR ''D'' then with_arg optarg (\<lambda>v. Argv 0 (c\<lparr>c_iface := iface\<lparr>c_iface_dev := strncpy2 v 16\<rparr>\<rparr>))
      else if ch = CHR ''u'' then with_arg optarg (\<lambda>v. Argv 0 (c\<lparr>c_auth := auth\<lparr>c_username := strncpy2 v 256\<rparr>\<rparr>))
      else if ch = CHR ''p'' then with_arg optarg (\<lambda>v. Argv 0 (c\<lparr>c_auth := auth\<lparr>c_password := strncpy2 v 256\<rparr>\<rparr>))
      else Argv (- EINVAL) c)"

text \<open>The client passes the arguments behind the word \<^verbatim>\<open>client\<close>, the first of which \<open>getopt_long\<close> skips.\<close>

definition cli_parse_argv :: "string list \<Rightarrow> cli_cfg \<Rightarrow> cli_cfg argv_result" where
  "cli_parse_argv argv c = opts_loop cli_opt (getopt_long cli_short_opt cli_long_options (tl (tl argv))) c"

section \<open>Configuration file\<close>

definition cli_parse_section_sys :: "cli_cfg \<Rightarrow> string \<Rightarrow> string \<Rightarrow> int \<Rightarrow> int \<times> cli_cfg" where
  "cli_parse_section_sys c name val lineno =
     (let sys = c_sys c in
      if name = ''thread'' then (1, c\<lparr>c_sys := sys\<lparr>c_thread_num := ucast (strtoul10 val)\<rparr>\<rparr>)
      else if name = ''verbose_level'' then (1, c\<lparr>c_sys := sys\<lparr>c_verbose_level := ucast (strtoul10 val)\<rparr>\<rparr>)
      else if name = ''data_dir'' then (1, c\<lparr>c_sys := sys\<lparr>c_data_dir := strncpy2 val 128\<rparr>\<rparr>)
      else (0, c))"

definition cli_parse_section_socket :: "cli_cfg \<Rightarrow> string \<Rightarrow> string \<Rightarrow> int \<Rightarrow> int \<times> cli_cfg" where
  "cli_parse_section_socket c name val lineno =
     (let sock = c_sock c in
      if name = ''use_encryption'' then (1, c\<lparr>c_sock := sock\<lparr>c_use_encryption := (atoi val \<noteq> 0)\<rparr>\<rparr>)
      else if name = ''event_loop'' then (1, c\<lparr>c_sock := sock\<lparr>c_event_loop := strncpy2 val 64\<rparr>\<rparr>)
      else if name = ''sock_type'' then
        (case sock_type_of 8 val of None \<Rightarrow> (0, c) | Some ty \<Rightarrow> (1, c\<lparr>c_sock := sock\<lparr>c_sock_ty := ty\<rparr>\<rparr>))
      else if name = ''server_addr'' then (1, c\<lparr>c_sock := sock\<lparr>server_addr := strncpy2 val 64\<rparr>\<rparr>)
      else if name = ''server_port'' then (1, c\<lparr>c_sock := sock\<lparr>server_port := ucast (strtoul10 val)\<rparr>\<rparr>)
      else (0, c))"

definition cli_parse_section_iface :: "cli_cfg \<Rightarrow> string \<Rightarrow> string \<Rightarrow> int \<Rightarrow> int \<times> cli_cfg" where
  "cli_parse_section_iface c name val lineno =
     (let iface = c_iface c in
      if name = ''dev'' then (1, c\<lparr>c_iface := iface\<lparr>c_iface_dev := strncpy2 val 16\<rparr>\<rparr>)
      else if name = ''override_default'' then (1, c\<lparr>c_iface := iface\<lparr>override_default := (atoi val \<noteq> 0)\<rparr>\<rparr>)
      else (0, c))"

definition cli_parse_section_auth :: "cli_cfg \<Rightarrow> string \<Rightarrow> string \<Rightarrow> int \<Rightarrow> int \<times> cli_cfg" where
  "cli_parse_section_auth c name val lineno =
     (let auth = c_auth c in
      if name = ''username'' then (1, c\<lparr>c_auth := auth\<lparr>c_username := strncpy2 val 256\<rparr>\<rparr>)
      else if name = ''password'' then (1, c\<lparr>c_auth := auth\<lparr>c_password := strncpy2 val 256\<rparr>\<rparr>)
      else (0, c))"

definition client_cfg_parser :: "cli_cfg ini_handler" where
  "client_cfg_parser c section name val lineno =
     (if section = ''sys'' then cli_parse_section_sys c name val lineno
      else if section = ''socket'' then cli_parse_section_socket c name val lineno
      else if section = ''iface'' then cli_parse_section_iface c name val lineno
      else if section = ''auth'' then cli_parse_section_auth c name val lineno
      else (0, c))"

definition client_parse_cfg_file :: "(string \<Rightarrow> int + string) \<Rightarrow> string \<Rightarrow> cli_cfg \<Rightarrow> int \<times> cli_cfg" where
  "client_parse_cfg_file fopen path c =
     (case fopen path of
        Inl err \<Rightarrow> (- err, c)
      | Inr handle \<Rightarrow> (case ini_parse_file handle client_cfg_parser c of (ret, c1) \<Rightarrow> (if ret \<noteq> 0 then - EINVAL else 0, c1)))"

section \<open>The run\<close>

definition load_cli_cfg :: "(string \<Rightarrow> int + string) \<Rightarrow> string list \<Rightarrow> cli_cfg argv_result" where
  "load_cli_cfg fopen argv =
     (case cli_parse_argv argv (cli_set_default_config cli_cfg_zero) of
        Argv ret c \<Rightarrow>
          if ret \<noteq> 0 then Argv ret c
          else (case client_parse_cfg_file fopen (c_cfg_file (c_sys c)) c of
                  (ret, c1) \<Rightarrow>
                    if ret \<noteq> 0 \<and> \<not> (ret = - ENOENT \<and> c_cfg_file (c_sys c1) = d_cli_cfg_file) then Argv ret c1
                    else if c_username (c_auth c1) = [] \<or> c_password (c_auth c1) = [] then Argv (- EINVAL) c1
                    else Argv 0 c1)
      | r \<Rightarrow> r)"

definition run_client :: "(string \<Rightarrow> int + string) \<Rightarrow> kernel \<Rightarrow> string list \<Rightarrow> cmachine process option" where
  "run_client fopen K argv =
     (case load_cli_cfg fopen argv of
        Exit_Zero \<Rightarrow> Some (Exited_With 0)
      | Segfault \<Rightarrow> Some Crashed
      | Argv ret c \<Rightarrow>
          if ret \<noteq> 0 then Some (Exited_With (- ret))
          else (case c_sock_ty (c_sock c) of
                  SOCK_UDP \<Rightarrow> do {
                    r \<leftarrow> teavpn2_client_udp_run K c;
                    Some (case r of Inl (ret, _) \<Rightarrow> Exited_With (- ret) | Inr m \<Rightarrow> Running m)
                  }
                | SOCK_TCP \<Rightarrow> Some (Exited_With ESOCKTNOSUPPORT)))"

section \<open>Options that end the program\<close>

abbreviation cli_opts :: "string list \<Rightarrow> opt_result list" where
  "cli_opts argv \<equiv> getopt_long cli_short_opt cli_long_options (tl (tl argv))"

lemma cli_opt_stops:
  "cli_opt x c = Segfault \<Longrightarrow> arg_given cli_short_opt cli_long_options x \<Longrightarrow> x = (CHR ''E'', None)"
  "cli_opt x c = Exit_Zero \<Longrightarrow> fst x \<in> {CHR ''h'', CHR ''V''}"
  by (cases x; auto simp: cli_opt_def with_arg_def arg_given_def cli_short_opt_def cli_long_options_def Let_def
      split: if_splits option.splits)+

lemma load_cli_stops:
  "load_cli_cfg fopen argv = Segfault \<Longrightarrow> (CHR ''E'', None) \<in> set (cli_opts argv)"
  "load_cli_cfg fopen argv = Exit_Zero \<Longrightarrow> \<exists>x \<in> set (cli_opts argv). fst x \<in> {CHR ''h'', CHR ''V''}"
proof -
  let ?c = "cli_set_default_config cli_cfg_zero"
  assume "load_cli_cfg fopen argv = Segfault"
  then have "opts_loop cli_opt (cli_opts argv) ?c = Segfault"
    by (auto simp: load_cli_cfg_def cli_parse_argv_def split: argv_result.splits if_splits prod.splits)
  from opts_loop_stops [OF this] show "(CHR ''E'', None) \<in> set (cli_opts argv)"
    using getopt_given [of cli_short_opt cli_long_options "tl (tl argv)"] cli_opt_stops(1) by (auto simp: list_all_iff)
next
  let ?c = "cli_set_default_config cli_cfg_zero"
  assume "load_cli_cfg fopen argv = Exit_Zero"
  then have "opts_loop cli_opt (cli_opts argv) ?c = Exit_Zero"
    by (auto simp: load_cli_cfg_def cli_parse_argv_def split: argv_result.splits if_splits prod.splits)
  from opts_loop_stops [OF this] show "\<exists>x \<in> set (cli_opts argv). fst x \<in> {CHR ''h'', CHR ''V''}"
    using cli_opt_stops(2) by auto
qed

section \<open>The strings fit\<close>

definition cli_cfg_fits :: "cli_cfg \<Rightarrow> bool" where
  "cli_cfg_fits c \<longleftrightarrow> fits 128 (c_data_dir (c_sys c)) \<and> fits 64 (server_addr (c_sock c)) \<and> fits 64 (c_event_loop (c_sock c))
     \<and> fits 16 (c_iface_dev (c_iface c)) \<and> if_info_fits (c_iff (c_iface c))
     \<and> fits 256 (c_username (c_auth c)) \<and> fits 256 (c_password (c_auth c))"

lemma cli_opt_fits:
  assumes "cli_cfg_fits c" "\<forall>v. snd x = Some v \<longrightarrow> no_nul v" "cli_opt x c = Argv r c1"
  shows "cli_cfg_fits c1"
proof -
  obtain ch oa where x: "x = (ch, oa)" by fastforce
  show ?thesis
    using assms unfolding x
    by (cases oa) (auto simp: cli_opt_def Let_def with_arg_def cli_cfg_fits_def split: if_splits option.splits)
qed

lemma cli_parser_fits: "keeps client_cfg_parser cli_cfg_fits"
  by (auto simp: keeps_def client_cfg_parser_def cli_parse_section_sys_def cli_parse_section_socket_def
      cli_parse_section_iface_def cli_parse_section_auth_def Let_def cli_cfg_fits_def split: if_splits option.splits)

lemma client_parse_cfg_file_fits:
  assumes "cli_cfg_fits c" "client_parse_cfg_file fopen path c = (ret, c1)"
  shows "cli_cfg_fits c1"
  using assms ini_parse_keeps [OF cli_parser_fits assms(1)]
  by (auto simp: client_parse_cfg_file_def ini_parse_file_def split: sum.splits prod.splits if_splits) (metis snd_conv)+

lemma cli_default_fits: "cli_cfg_fits (cli_set_default_config cli_cfg_zero)"
  by (simp add: cli_cfg_fits_def cli_set_default_config_def cli_cfg_zero_def if_info_fits_def empty_if_info_def no_nul_def
      d_cli_dev_def strncpy2_def fits_def)

section \<open>Properties\<close>

text \<open>
  C39: the configuration of the client is well formed.  Whatever the command line and the
  configuration file hold, every string of the configuration with which the client starts is a
  C string that fits the array it is stored in, and user name and password are not empty.
\<close>

theorem client_config_fits:
  assumes "\<forall>a \<in> set argv. no_nul a" and "load_cli_cfg fopen argv = Argv 0 c"
  shows "cli_cfg_fits c \<and> c_username (c_auth c) \<noteq> [] \<and> c_password (c_auth c) \<noteq> []"
proof -
  have a: "args_ok no_nul (getopt_long cli_short_opt cli_long_options (tl (tl argv)))"
    using assms(1) by (intro getopt_args) (cases argv; cases "tl argv"; simp)
  obtain ret c1 where p: "cli_parse_argv argv (cli_set_default_config cli_cfg_zero) = Argv ret c1"
    using assms(2) by (auto simp: load_cli_cfg_def split: argv_result.splits)
  have f: "cli_cfg_fits c1"
    by (rule opts_loop_keeps [where P = cli_cfg_fits and f = cli_opt, OF _ cli_default_fits a p [unfolded cli_parse_argv_def]])
      (rule cli_opt_fits)
  obtain r c2 where c: "client_parse_cfg_file fopen (c_cfg_file (c_sys c1)) c1 = (r, c2)" by fastforce
  show ?thesis
    using client_parse_cfg_file_fits [OF f c] assms(2) p f c by (auto simp: load_cli_cfg_def split: if_splits)
qed

text \<open>Witness of C39: credentials on the command line.\<close>

definition sample_argv :: "string list" where
  "sample_argv = [''teavpn2'', ''client'', ''-u'', ''ammar'', ''--password=pw'', ''-t'', ''4'']"

theorem client_config_fits_witness:
  "\<exists>c. load_cli_cfg (\<lambda>_. Inl ENOENT) sample_argv = Argv 0 c \<and> c_thread_num (c_sys c) = 4 \<and> cli_cfg_fits c"
proof -
  have n: "\<forall>a \<in> set sample_argv. no_nul a" by (simp add: sample_argv_def no_nul_def)
  have "case load_cli_cfg (\<lambda>_. Inl ENOENT) sample_argv of Argv ret c \<Rightarrow> ret = 0 \<and> c_thread_num (c_sys c) = 4 | _ \<Rightarrow> False"
    by code_simp
  then obtain c where "load_cli_cfg (\<lambda>_. Inl ENOENT) sample_argv = Argv 0 c" "c_thread_num (c_sys c) = 4"
    by (auto split: argv_result.splits)
  then show ?thesis using client_config_fits [OF n] by blast
qed

text \<open>Every use of the client's encryption option reads through a NULL pointer.\<close>

theorem client_encrypt_crashes:
  "opts_loop cli_opt (getopt_long cli_short_opt cli_long_options [''-E'']) c = Segfault
   \<and> opts_loop cli_opt (getopt_long cli_short_opt cli_long_options [''--encrypt'']) c = Segfault"
proof -
  have "getopt_long cli_short_opt cli_long_options [''-E''] = [(CHR ''E'', None)]"
    "getopt_long cli_short_opt cli_long_options [''--encrypt''] = [(CHR ''E'', None)]" by code_simp+
  moreover have "cli_opt (CHR ''E'', None) c = Segfault" by (simp add: cli_opt_def Let_def with_arg_def)
  ultimately show ?thesis by simp
qed

end
