(* ===== verification/Program.thy ===== *)
theory Program
  imports Cli_Entry
begin

text \<open>
  The program, \<^verbatim>\<open>src/teavpn2/main.c\<close>, as built without the graphical interface and without
  the emergency handler: it prints its usage or runs the server or the client.
\<close>

definition run_teavpn2 ::
  "(string \<Rightarrow> int + string) \<Rightarrow> kernel \<Rightarrow> string list \<Rightarrow> string \<Rightarrow> (machine + cmachine) process option" where
  "run_teavpn2 fopen K argv cmd =
     (if cmd = ''server'' then map_option (map_process Inl) (run_server fopen K argv)
      else if cmd = ''client'' then map_option (map_process Inr) (run_client fopen K argv)
      else if cmd = ''gui'' then Some (Exited_With 1)
      else if cmd = ''--version'' \<or> cmd = ''-V'' then Some (Exited_With 0)
      else if cmd = ''--help'' \<or> cmd = ''-H'' then Some (Exited_With 0)
      else Some (Exited_With 1))"

text \<open>Without any argument, not even the name of the program, \<^verbatim>\<open>argv[1]\<close> lies behind the array.\<close>

definition teavpn2_main :: "(string \<Rightarrow> int + string) \<Rightarrow> kernel \<Rightarrow> string list \<Rightarrow> (machine + cmachine) process option" where
  "teavpn2_main fopen K argv =
     (case argv of
        [] \<Rightarrow> Some Crashed
      | [app] \<Rightarrow> Some (Exited_With 0)
      | app # cmd # _ \<Rightarrow> run_teavpn2 fopen K argv cmd)"

section \<open>What the two programs promise\<close>

text \<open>A command line with the option for encryption but no value for it, and one that asks for a text.\<close>

definition encrypt_given :: "string list \<Rightarrow> bool" where
  "encrypt_given argv \<longleftrightarrow> (case argv of
       app # cmd # _ \<Rightarrow> cmd = ''server'' \<and> (CHR ''E'', None) \<in> set (srv_opts argv)
         \<or> cmd = ''client'' \<and> (CHR ''E'', None) \<in> set (cli_opts argv)
     | _ \<Rightarrow> False)"

definition text_asked :: "string list \<Rightarrow> bool" where
  "text_asked argv \<longleftrightarrow> (case argv of
       app # cmd # _ \<Rightarrow> cmd \<in> {''--version'', ''-V'', ''--help'', ''-H''}
         \<or> cmd = ''server'' \<and> (\<exists>x \<in> set (srv_opts argv). fst x \<in> {CHR ''h'', CHR ''V''})
         \<or> cmd = ''client'' \<and> (\<exists>x \<in> set (cli_opts argv). fst x \<in> {CHR ''h'', CHR ''V''})
     | _ \<Rightarrow> True)"

text \<open>How a process that satisfies \<open>P\<close> while it runs may come out.\<close>

definition comes_out :: "opt_result list \<Rightarrow> ('m \<Rightarrow> bool) \<Rightarrow> 'm process \<Rightarrow> bool" where
  "comes_out os P p \<longleftrightarrow> (case p of
       Exited_With n \<Rightarrow> n \<noteq> 0 \<or> (\<exists>x \<in> set os. fst x \<in> {CHR ''h'', CHR ''V''})
     | Crashed \<Rightarrow> (CHR ''E'', None) \<in> set os
     | Running m \<Rightarrow> P m)"

lemma run_server_sound:
  assumes "sendto_errno K" "\<forall>c. load_srv_cfg fopen argv = Argv 0 c \<longrightarrow> 1 \<le> thread_num (cfg_sys c)"
  shows "\<exists>p. run_server fopen K argv = Some p
    \<and> comes_out (srv_opts argv) (\<lambda>m0. \<forall>m. (mstep K)\<^sup>*\<^sup>* m0 m \<longrightarrow> srv_inv (m_srv m)) p"
proof (cases "load_srv_cfg fopen argv")
  case (Argv ret c)
  show ?thesis
  proof (cases "ret = 0 \<and> sock_ty (cfg_sock c) = SOCK_UDP")
    case True
    then obtain r where r: "teavpn2_server_udp_run K c = Some r" using server_run_some Argv assms(2) by blast
    then show ?thesis
      using Argv True server_run_failed [of K c] server_run_reach [OF _ assms(1), of c]
      by (cases r) (auto simp: run_server_def comes_out_def)
  next
    case False
    then show ?thesis using Argv
      by (cases "sock_ty (cfg_sock c)") (auto simp: run_server_def comes_out_def)
  qed
qed (use load_srv_stops [of fopen argv] in \<open>simp_all add: run_server_def comes_out_def\<close>)

lemma run_client_sound:
  assumes "poll_answers K" "\<forall>c. load_cli_cfg fopen argv = Argv 0 c \<longrightarrow> 1 \<le> c_thread_num (c_sys c)"
  shows "\<exists>p. run_client fopen K argv = Some p
    \<and> comes_out (cli_opts argv) (\<lambda>m0. \<forall>m. (cstep K)\<^sup>*\<^sup>* m0 m \<longrightarrow> pool_inv (cli_pool m)) p"
proof (cases "load_cli_cfg fopen argv")
  case (Argv ret c)
  show ?thesis
  proof (cases "ret = 0 \<and> c_sock_ty (c_sock c) = SOCK_UDP")
    case True
    then have n: "1 \<le> c_thread_num (c_sys c)" using Argv assms(2) by blast
    obtain r where r: "teavpn2_client_udp_run K c = Some r"
        "case r of Inl (ret, s) \<Rightarrow> ret \<noteq> 0 \<and> (k_malloc K 0 \<longrightarrow> left_closed s) | Inr m \<Rightarrow> cli_started K m"
      using client_run_cases [OF assms(1) n] by blast
    then show ?thesis
      using Argv True cli.reach_inv by (cases r) (auto simp: run_client_def comes_out_def)
  next
    case False
    then show ?thesis using Argv
      by (cases "c_sock_ty (c_sock c)") (auto simp: run_client_def comes_out_def)
  qed
qed (use load_cli_stops [of fopen argv] in \<open>simp_all add: run_client_def comes_out_def\<close>)

end
