(* ===== verification/Mutex.thy ===== *)
theory Mutex
  imports Kernel
begin

text \<open>
  The locks of \<^verbatim>\<open>src/teavpn2/mutex.h\<close>.  A POSIX mutex of the default type is its owner, if
  any; threads are numbered.  \<open>mutex_lock\<close> returns \<open>None\<close> while the caller has to wait, so a
  thread that locks a mutex it already holds waits for ever, as on Linux.  The assertions
  \<^verbatim>\<open>MUTEX_LEAK_ASSERT\<close> and \<^verbatim>\<open>MUTEX_LOCK_ASSERT\<close> are 0 in the source.  The locale
  \<open>critical_section\<close> shows once, for every step relation that follows the lock protocol,
  that a thread is inside the section exactly while it owns the mutex.
\<close>

section \<open>Operations\<close>

abbreviation EBUSY :: int where "EBUSY \<equiv> 16"

record tmutex =
  mutex :: "nat option"
  need_destroy :: bool

definition mutex_init_mark :: "tmutex \<Rightarrow> tmutex" where
  "mutex_init_mark m = m\<lparr>need_destroy := True\<rparr>"

text \<open>
  \<open>ret\<close> is the result of \<^verbatim>\<open>pthread_mutex_init\<close> and \<open>err\<close> the value of \<^verbatim>\<open>errno\<close> after it, which that
  function does not set.
\<close>

definition mutex_init :: "int \<Rightarrow> int \<Rightarrow> int \<times> tmutex" where
  "mutex_init ret err =
     (let m = \<lparr>mutex = None, need_destroy = False\<rparr> in
      if ret \<noteq> 0 then (- err, m) else (ret, mutex_init_mark m))"

definition mutex_lock :: "nat \<Rightarrow> tmutex \<Rightarrow> (int \<times> tmutex) option" where
  "mutex_lock t m = (if mutex m = None then Some (0, m\<lparr>mutex := Some t\<rparr>) else None)"

definition mutex_unlock :: "tmutex \<Rightarrow> int \<times> tmutex" where
  "mutex_unlock m = (0, m\<lparr>mutex := None\<rparr>)"

definition mutex_trylock :: "nat \<Rightarrow> tmutex \<Rightarrow> int \<times> tmutex" where
  "mutex_trylock t m = (if mutex m = None then (0, m\<lparr>mutex := Some t\<rparr>) else (EBUSY, m))"

definition mutex_destroy :: "tmutex \<Rightarrow> int \<times> tmutex" where
  "mutex_destroy m =
     (if need_destroy m
      then if mutex m \<noteq> None then (- EBUSY, m) else (0, m\<lparr>need_destroy := False\<rparr>)
      else (0, m))"

section \<open>Facts about single operations\<close>

lemma mutex_lock_Some [simp]:
  "mutex_lock t m = Some (r, m') \<longleftrightarrow> mutex m = None \<and> r = 0 \<and> m' = m\<lparr>mutex := Some t\<rparr>"
  by (auto simp: mutex_lock_def)

lemma mutex_lock_waits [simp]: "mutex_lock t m = None \<longleftrightarrow> mutex m \<noteq> None"
  by (simp add: mutex_lock_def)

lemma mutex_unlock_owner [simp]: "mutex (snd (mutex_unlock m)) = None"
  by (simp add: mutex_unlock_def)

text \<open>Trying succeeds exactly where locking does not wait, and with the same effect.\<close>

lemma trylock_lock:
  "mutex_lock t m = (if fst (mutex_trylock t m) = 0 then Some (mutex_trylock t m) else None)"
  by (simp add: mutex_lock_def mutex_trylock_def)

text \<open>A mutex that was initialised can be destroyed once, unless it is held.\<close>

lemma mutex_lifecycle:
  assumes "mutex_init 0 err = (r, m)"
  shows "r = 0 \<and> mutex m = None \<and> fst (mutex_destroy m) = 0
    \<and> mutex_destroy (snd (mutex_destroy m)) = (0, snd (mutex_destroy m))
    \<and> (\<forall>t r' m'. mutex_lock t m = Some (r', m') \<longrightarrow>
         mutex_destroy m' = (- EBUSY, m') \<and> fst (mutex_destroy (snd (mutex_unlock m'))) = 0)"
  using assms by (auto simp: mutex_init_def mutex_init_mark_def mutex_destroy_def mutex_unlock_def Let_def)

text \<open>A failed \<^verbatim>\<open>pthread_mutex_init\<close> that leaves \<^verbatim>\<open>errno\<close> at zero is reported as a success.\<close>

lemma mutex_init_failure_lost: "fst (mutex_init EAGAIN 0) = 0 \<and> \<not> need_destroy (snd (mutex_init EAGAIN 0))"
  by (simp add: mutex_init_def Let_def)

section \<open>Critical sections\<close>

text \<open>
  The protocol of one mutex in a machine of threads, each with a position: a step of thread
  \<open>t\<close> moves only \<open>t\<close>; it enters the section by locking, leaves it by unlocking, and leaves the
  mutex alone otherwise.
\<close>

locale critical_section =
  fixes lock_of :: "'m \<Rightarrow> tmutex"
    and pcs :: "'m \<Rightarrow> 'p list"
    and inside :: "'p \<Rightarrow> bool"
    and step :: "nat \<Rightarrow> 'm \<Rightarrow> 'm \<Rightarrow> bool"
  assumes protocol: "step t m m' \<Longrightarrow> t < length (pcs m) \<and> (\<exists>p. pcs m' = (pcs m)[t := p]
    \<and> (lock_of m' = lock_of m \<and> inside p = inside (pcs m ! t)
       \<or> mutex_lock t (lock_of m) = Some (0, lock_of m') \<and> \<not> inside (pcs m ! t) \<and> inside p
       \<or> lock_of m' = snd (mutex_unlock (lock_of m)) \<and> inside (pcs m ! t) \<and> \<not> inside p))"
begin

text \<open>The owner of the mutex is the thread inside, and there is none if nobody is inside.\<close>

lemma owner_step:
  assumes "step t m m'" and o: "\<forall>u. mutex (lock_of m) = Some u \<longleftrightarrow> u < length (pcs m) \<and> inside (pcs m ! u)"
  shows "mutex (lock_of m') = Some u \<longleftrightarrow> u < length (pcs m') \<and> inside (pcs m' ! u)"
proof -
  from protocol [OF assms(1)] obtain p where t: "t < length (pcs m)" and p: "pcs m' = (pcs m)[t := p]"
    and c: "lock_of m' = lock_of m \<and> inside p = inside (pcs m ! t)
       \<or> mutex_lock t (lock_of m) = Some (0, lock_of m') \<and> \<not> inside (pcs m ! t) \<and> inside p
       \<or> lock_of m' = snd (mutex_unlock (lock_of m)) \<and> inside (pcs m ! t) \<and> \<not> inside p" by blast
  note ou = o [rule_format, of u] and ot = o [rule_format, of t]
  show ?thesis
    using c
  proof (elim disjE conjE)
    assume "mutex_lock t (lock_of m) = Some (0, lock_of m')" and "inside p"
    then show ?thesis using ou t by (cases "u = t") (simp_all add: p)
  next
    assume "lock_of m' = snd (mutex_unlock (lock_of m))" and "inside (pcs m ! t)" and "\<not> inside p"
    then show ?thesis using ou ot t by (cases "u = t") (simp_all add: p)
  qed (use ou ot t in \<open>cases "u = t"; simp add: p\<close>)
qed

lemma owner_run:
  assumes "(\<lambda>m m'. \<exists>t. step t m m')\<^sup>*\<^sup>* m0 m"
    and "\<forall>p \<in> set (pcs m0). \<not> inside p" and "mutex (lock_of m0) = None"
  shows "\<forall>u. mutex (lock_of m) = Some u \<longleftrightarrow> u < length (pcs m) \<and> inside (pcs m ! u)"
  using assms
proof (induction rule: rtranclp_induct)
  case (step m1 m2)
  then show ?case using owner_step by blast
qed auto

text \<open>Who owns the mutex after thread \<open>t\<close> has moved to \<open>q\<close>.\<close>

lemma owner_after:
  assumes "step t m m'" and o: "\<forall>u. mutex (lock_of m) = Some u \<longleftrightarrow> u < length (pcs m) \<and> inside (pcs m ! u)"
    and q: "pcs m' = (pcs m)[t := q]"
  shows "mutex (lock_of m') = (if inside q then Some t else if inside (pcs m ! t) then None else mutex (lock_of m))"
proof -
  have t: "t < length (pcs m)" using protocol [OF assms(1)] by blast
  have "mutex (lock_of m') = Some u \<longleftrightarrow>
      (if inside q then Some t else if inside (pcs m ! t) then None else mutex (lock_of m)) = Some u" for u
    using owner_step [OF assms(1) o, of u] owner_step [OF assms(1) o, of t] o [rule_format, of u] o [rule_format, of t] t
    by (cases "u = t") (auto simp: q)
  then show ?thesis by (metis not_None_eq)
qed

lemma entered_free:
  assumes "step t m m'" and "pcs m' = (pcs m)[t := q]" and "\<not> inside (pcs m ! t)" and "inside q"
  shows "mutex (lock_of m) = None"
proof -
  from protocol [OF assms(1)] obtain p where p: "t < length (pcs m)" "pcs m' = (pcs m)[t := p]"
    "inside p = inside (pcs m ! t) \<or> mutex_lock t (lock_of m) = Some (0, lock_of m') \<or> inside (pcs m ! t)" by blast
  have "p = q" using p(1,2) assms(2) by (metis nth_list_update_eq)
  then show ?thesis using p(3) assms(3,4) by auto
qed

end

end
