(* ===== verification/Srv_Locks.thy ===== *)
theory Srv_Locks
  imports Session Mutex
begin

text \<open>
  The session table under concurrency.  \<open>Session\<close> models \<^verbatim>\<open>create_udp_sess\<close>,
  \<^verbatim>\<open>lookup_udp_sess\<close> and \<^verbatim>\<open>delete_udp_session\<close> of \<^verbatim>\<open>udp_session.c\<close> as single steps; here they
  are sequences of steps of threads that take \<open>sess_stk_lock\<close> and \<open>sess_map_lock\<close> where the code
  does, in any interleaving.  This theory holds the machine and shows that each critical section
  is executed by one thread at a time and that no thread waits for ever; \<open>Srv_Atomic\<close> shows that
  every interleaving has the effect of single steps.
\<close>

section \<open>Threads at work\<close>

datatype sess_op = Create u32 u16 | Lookup u32 u16 | Delete nat

datatype sess_ret = R_Create "nat option" int | R_Lookup "nat option" | R_Delete int

text \<open>
  The position of a thread: the next statement of the operation, with its local variables.
  \<open>Bug\<close> is the endless loop of \<^verbatim>\<open>BUG()\<close> (\<^verbatim>\<open>emerg.h\<close>), \<open>Done\<close> the return.
\<close>

datatype sess_pc =
    Idle
  | C_lock u32 u16
  | C_pop u32 u16
  | C_addr u32 u16 u16
  | C_insert_lock u32 u16 u16
  | C_insert u32 u16 u16
  | C_insert_unlock u32 u16 "nat option"
  | C_push u16
  | C_name u32 u16
  | C_act u16
  | C_connected u16
  | C_count u16
  | C_unlock "nat option" int
  | L_lock u32 u16
  | L_search u32 u16
  | L_unlock "nat option"
  | D_lock nat
  | D_push nat
  | D_remove_lock nat
  | D_remove nat
  | D_remove_unlock nat int
  | D_reset nat int
  | D_unlock int
  | D_sub int
  | Done sess_ret
  | Bug

record table_machine =
  tm_srv :: srv_udp_state
  tm_stk_lock :: tmutex
  tm_map_lock :: tmutex
  tm_pc :: "sess_pc list"

definition goto :: "nat \<Rightarrow> sess_pc \<Rightarrow> srv_udp_state \<Rightarrow> table_machine \<Rightarrow> table_machine" where
  "goto t p s m = m\<lparr>tm_srv := s, tm_pc := (tm_pc m)[t := p]\<rparr>"

definition lock_stk :: "nat \<Rightarrow> sess_pc \<Rightarrow> table_machine \<Rightarrow> table_machine option" where
  "lock_stk t p m = map_option (\<lambda>(r, l). (goto t p (tm_srv m) m)\<lparr>tm_stk_lock := l\<rparr>) (mutex_lock t (tm_stk_lock m))"

definition lock_map :: "nat \<Rightarrow> sess_pc \<Rightarrow> table_machine \<Rightarrow> table_machine option" where
  "lock_map t p m = map_option (\<lambda>(r, l). (goto t p (tm_srv m) m)\<lparr>tm_map_lock := l\<rparr>) (mutex_lock t (tm_map_lock m))"

definition unlock_stk :: "nat \<Rightarrow> sess_pc \<Rightarrow> table_machine \<Rightarrow> table_machine" where
  "unlock_stk t p m = (goto t p (tm_srv m) m)\<lparr>tm_stk_lock := snd (mutex_unlock (tm_stk_lock m))\<rparr>"

definition unlock_map :: "nat \<Rightarrow> sess_pc \<Rightarrow> table_machine \<Rightarrow> table_machine" where
  "unlock_map t p m = (goto t p (tm_srv m) m)\<lparr>tm_map_lock := snd (mutex_unlock (tm_map_lock m))\<rparr>"

text \<open>
  \<^verbatim>\<open>BUG_ON(bt_stack_push(...) == -1)\<close>: with \<^verbatim>\<open>CONFIG_HPC_EMERGENCY\<close> (\<open>emerg\<close>) a thread whose push
  fails sleeps in \<^verbatim>\<open>BUG()\<close> for ever; without it the macro only evaluates its argument.
\<close>

definition push_or_bug :: "bool \<Rightarrow> nat \<Rightarrow> u16 \<Rightarrow> sess_pc \<Rightarrow> table_machine \<Rightarrow> table_machine" where
  "push_or_bug emerg t ix p m =
     (let s = tm_srv m; (r, stk) = bt_stack_push (sess_stk s) ix in
      goto t (if emerg \<and> r = -1 then Bug else p) (s\<lparr>sess_stk := stk\<rparr>) m)"

text \<open>\<open>create_udp_sess\<close>, with \<open>map_insert_udp_sess\<close> between its lock and unlock of the map.\<close>

fun create_step :: "bool \<Rightarrow> kernel \<Rightarrow> nat \<Rightarrow> sess_pc \<Rightarrow> table_machine \<Rightarrow> table_machine option" where
  "create_step emerg K t (C_lock a p) m = lock_stk t (C_pop a p) m"
| "create_step emerg K t (C_pop a p) m =
     (let s = tm_srv m; (stk_ret, stk) = bt_stack_pop (sess_stk s) in
      Some (if stk_ret = -1 then goto t (C_unlock None EAGAIN) s m
            else goto t (C_addr a p (word_of_int stk_ret)) (s\<lparr>sess_stk := stk\<rparr>) m))"
| "create_step emerg K t (C_addr a p ix) m =
     Some (goto t (C_insert_lock a p ix) (upd_sess (unat ix) (\<lambda>x. x\<lparr>src_addr := a, src_port := p\<rparr>) (tm_srv m)) m)"
| "create_step emerg K t (C_insert_lock a p ix) m = lock_map t (C_insert a p ix) m"
| "create_step emerg K t (C_insert a p ix) m =
     (let (ret, s) = map_insert_udp_sess K a (unat ix) (tm_srv m) in
      Some (goto t (C_insert_unlock a ix ret) s m))"
| "create_step emerg K t (C_insert_unlock a ix ret) m =
     Some (unlock_map t (if ret = None then C_push ix else C_name a ix) m)"
| "create_step emerg K t (C_push ix) m = Some (push_or_bug emerg t ix (C_unlock None ENOMEM) m)"
| "create_step emerg K t (C_name a ix) m =
     Some (goto t (C_act ix) (upd_sess (unat ix) (\<lambda>x. x\<lparr>str_src_addr := inet_ntop (htonl a)\<rparr>) (tm_srv m)) m)"
| "create_step emerg K t (C_act ix) m =
     Some (goto t (C_connected ix) (snd (udp_sess_update_last_act K (unat ix) (tm_srv m))) m)"
| "create_step emerg K t (C_connected ix) m =
     Some (goto t (C_count ix) (upd_sess (unat ix) (\<lambda>x. x\<lparr>is_connected := True\<rparr>) (tm_srv m)) m)"
| "create_step emerg K t (C_count ix) m =
     Some (goto t (C_unlock (Some (unat ix)) 0) ((tm_srv m)\<lparr>n_on_sess := n_on_sess (tm_srv m) + 1\<rparr>) m)"
| "create_step emerg K t (C_unlock ret err) m = Some (unlock_stk t (Done (R_Create ret err)) m)"
| "create_step emerg K t _ m = None"

text \<open>\<open>lookup_udp_sess\<close>: the search happens under the lock of the map only.\<close>

fun lookup_step :: "nat \<Rightarrow> sess_pc \<Rightarrow> table_machine \<Rightarrow> table_machine option" where
  "lookup_step t (L_lock a p) m = lock_map t (L_search a p) m"
| "lookup_step t (L_search a p) m =
     Some (goto t (L_unlock (lookup_udp_sess (tm_srv m) a p)) (tm_srv m) m)"
| "lookup_step t (L_unlock ret) m = Some (unlock_map t (Done (R_Lookup ret)) m)"
| "lookup_step t _ m = None"

text \<open>
  \<open>delete_udp_session\<close>, with \<open>remove_sess_from_bkt\<close> under the lock of the map; the counter is
  decremented after the last unlock.
\<close>

fun delete_step :: "bool \<Rightarrow> nat \<Rightarrow> sess_pc \<Rightarrow> table_machine \<Rightarrow> table_machine option" where
  "delete_step emerg t (D_lock i) m = lock_stk t (D_push i) m"
| "delete_step emerg t (D_push i) m =
     Some (push_or_bug emerg t (idx (sess_arr (tm_srv m) ! i))
             (if sess_map (tm_srv m) = None then D_reset i 0 else D_remove_lock i) m)"
| "delete_step emerg t (D_remove_lock i) m = lock_map t (D_remove i) m"
| "delete_step emerg t (D_remove i) m =
     (let (ret, s) = remove_sess_from_bkt i (tm_srv m) in Some (goto t (D_remove_unlock i ret) s m))"
| "delete_step emerg t (D_remove_unlock i ret) m = Some (unlock_map t (D_reset i ret) m)"
| "delete_step emerg t (D_reset i ret) m =
     Some (goto t (D_unlock ret) (upd_sess i (\<lambda>x. reset_udp_session (idx x)) (tm_srv m)) m)"
| "delete_step emerg t (D_unlock ret) m = Some (unlock_stk t (D_sub ret) m)"
| "delete_step emerg t (D_sub ret) m =
     Some (goto t (Done (R_Delete ret)) ((tm_srv m)\<lparr>n_on_sess := n_on_sess (tm_srv m) - 1\<rparr>) m)"
| "delete_step emerg t _ m = None"

text \<open>One step of thread \<open>t\<close>; \<open>None\<close> if it waits, sleeps in \<open>Bug\<close> or is in no operation.\<close>

definition sess_step :: "bool \<Rightarrow> kernel \<Rightarrow> nat \<Rightarrow> table_machine \<Rightarrow> table_machine option" where
  "sess_step emerg K t m =
     (let q = tm_pc m ! t in
      case q of
        L_lock a p \<Rightarrow> lookup_step t q m
      | L_search a p \<Rightarrow> lookup_step t q m
      | L_unlock r \<Rightarrow> lookup_step t q m
      | D_lock i \<Rightarrow> delete_step emerg t q m
      | D_push i \<Rightarrow> delete_step emerg t q m
      | D_remove_lock i \<Rightarrow> delete_step emerg t q m
      | D_remove i \<Rightarrow> delete_step emerg t q m
      | D_remove_unlock i r \<Rightarrow> delete_step emerg t q m
      | D_reset i r \<Rightarrow> delete_step emerg t q m
      | D_unlock r \<Rightarrow> delete_step emerg t q m
      | D_sub r \<Rightarrow> delete_step emerg t q m
      | _ \<Rightarrow> create_step emerg K t q m)"

fun start :: "sess_op \<Rightarrow> sess_pc" where
  "start (Create a p) = C_lock a p"
| "start (Lookup a p) = L_lock a p"
| "start (Delete i) = D_lock i"

text \<open>
  The whole machine: a thread proceeds, an idle thread calls an operation that satisfies
  \<open>G\<close>, a thread takes its result and is idle again.
\<close>

inductive table_step ::
  "bool \<Rightarrow> kernel \<Rightarrow> (table_machine \<Rightarrow> sess_op \<Rightarrow> bool) \<Rightarrow> nat \<Rightarrow> table_machine \<Rightarrow> table_machine \<Rightarrow> bool"
  for emerg K G t where
  proceed: "t < length (tm_pc m) \<Longrightarrow> sess_step emerg K t m = Some m' \<Longrightarrow> table_step emerg K G t m m'"
| call: "t < length (tm_pc m) \<Longrightarrow> tm_pc m ! t = Idle \<Longrightarrow> G m op \<Longrightarrow>
    table_step emerg K G t m (goto t (start op) (tm_srv m) m)"
| return: "t < length (tm_pc m) \<Longrightarrow> tm_pc m ! t = Done r \<Longrightarrow>
    table_step emerg K G t m (goto t Idle (tm_srv m) m)"

inductive_cases table_stepE: "table_step emerg K G t m m'"

abbreviation table_run where
  "table_run emerg K G \<equiv> (\<lambda>m m'. \<exists>t. table_step emerg K G t m m')\<^sup>*\<^sup>*"

lemma table_run_step: "table_step emerg K G t m m1 \<Longrightarrow> table_run emerg K G m1 m' \<Longrightarrow> table_run emerg K G m m'"
  by (erule converse_rtranclp_into_rtranclp [rotated]) blast

definition table_start :: "nat \<Rightarrow> srv_udp_state \<Rightarrow> table_machine" where
  "table_start n s = \<lparr>tm_srv = s, tm_stk_lock = snd (mutex_init 0 0), tm_map_lock = snd (mutex_init 0 0),
     tm_pc = replicate n Idle\<rparr>"

section \<open>The two critical sections\<close>

fun in_stk :: "sess_pc \<Rightarrow> bool" where
  "in_stk Idle = False"
| "in_stk (C_lock a p) = False"
| "in_stk (L_lock a p) = False"
| "in_stk (L_search a p) = False"
| "in_stk (L_unlock r) = False"
| "in_stk (D_lock i) = False"
| "in_stk (D_sub r) = False"
| "in_stk (Done r) = False"
| "in_stk _ = True"

fun in_map :: "sess_pc \<Rightarrow> bool" where
  "in_map (C_insert a p ix) = True"
| "in_map (C_insert_unlock a ix r) = True"
| "in_map (L_search a p) = True"
| "in_map (L_unlock r) = True"
| "in_map (D_remove i) = True"
| "in_map (D_remove_unlock i r) = True"
| "in_map _ = False"

lemma start_outside [simp]: "\<not> in_stk (start op)" "\<not> in_map (start op)"
  by (cases op; simp)+

text \<open>How a step that takes thread \<open>t\<close> from \<open>p\<close> to \<open>q\<close> treats a lock with its section.\<close>

definition keeps_protocol :: "(sess_pc \<Rightarrow> bool) \<Rightarrow> nat \<Rightarrow> sess_pc \<Rightarrow> sess_pc \<Rightarrow> tmutex \<Rightarrow> tmutex \<Rightarrow> bool" where
  "keeps_protocol sec t p q l l' \<longleftrightarrow> l' = l \<and> sec q = sec p
     \<or> mutex_lock t l = Some (0, l') \<and> \<not> sec p \<and> sec q
     \<or> l' = snd (mutex_unlock l) \<and> sec p \<and> \<not> sec q"

definition moves :: "nat \<Rightarrow> table_machine \<Rightarrow> table_machine \<Rightarrow> bool" where
  "moves t m m' \<longleftrightarrow> t < length (tm_pc m) \<and> (\<exists>q. tm_pc m' = (tm_pc m)[t := q]
     \<and> keeps_protocol in_stk t (tm_pc m ! t) q (tm_stk_lock m) (tm_stk_lock m')
     \<and> keeps_protocol in_map t (tm_pc m ! t) q (tm_map_lock m) (tm_map_lock m'))"

lemma movesI:
  assumes "t < length (tm_pc m)" and "tm_pc m' = (tm_pc m)[t := q]"
    and "keeps_protocol in_stk t (tm_pc m ! t) q (tm_stk_lock m) (tm_stk_lock m')"
    and "keeps_protocol in_map t (tm_pc m ! t) q (tm_map_lock m) (tm_map_lock m')"
  shows "moves t m m'"
  using assms unfolding moves_def by blast

lemma goto_moves:
  assumes "t < length (tm_pc m)" and "in_stk q = in_stk (tm_pc m ! t)" and "in_map q = in_map (tm_pc m ! t)"
  shows "moves t m (goto t q s m)"
  by (rule movesI [of _ _ _ q]) (use assms in \<open>simp_all add: goto_def keeps_protocol_def\<close>)

lemma lock_stk_moves:
  assumes "lock_stk t q m = Some m'" and "t < length (tm_pc m)" and "\<not> in_stk (tm_pc m ! t)" and "in_stk q"
    and "in_map q = in_map (tm_pc m ! t)"
  shows "moves t m m'"
  by (rule movesI [of _ _ _ q]) (use assms in \<open>auto simp: lock_stk_def goto_def keeps_protocol_def\<close>)

lemma lock_map_moves:
  assumes "lock_map t q m = Some m'" and "t < length (tm_pc m)" and "\<not> in_map (tm_pc m ! t)" and "in_map q"
    and "in_stk q = in_stk (tm_pc m ! t)"
  shows "moves t m m'"
  by (rule movesI [of _ _ _ q]) (use assms in \<open>auto simp: lock_map_def goto_def keeps_protocol_def\<close>)

lemma unlock_stk_moves:
  assumes "t < length (tm_pc m)" and "in_stk (tm_pc m ! t)" and "\<not> in_stk q" and "in_map q = in_map (tm_pc m ! t)"
  shows "moves t m (unlock_stk t q m)"
  by (rule movesI [of _ _ _ q]) (use assms in \<open>simp_all add: unlock_stk_def goto_def keeps_protocol_def\<close>)

lemma unlock_map_moves:
  assumes "t < length (tm_pc m)" and "in_map (tm_pc m ! t)" and "\<not> in_map q" and "in_stk q = in_stk (tm_pc m ! t)"
  shows "moves t m (unlock_map t q m)"
  by (rule movesI [of _ _ _ q]) (use assms in \<open>simp_all add: unlock_map_def goto_def keeps_protocol_def\<close>)

lemma push_or_bug_moves:
  assumes "t < length (tm_pc m)" and "in_stk (tm_pc m ! t)" "\<not> in_map (tm_pc m ! t)" and "in_stk q" "\<not> in_map q"
  shows "moves t m (push_or_bug emerg t ix q m)"
  using assms by (auto simp: push_or_bug_def Let_def split_def intro: goto_moves)

lemmas all_moves = goto_moves lock_stk_moves lock_map_moves unlock_stk_moves unlock_map_moves push_or_bug_moves

lemma sess_step_moves:
  assumes "sess_step emerg K t m = Some m'" and "t < length (tm_pc m)"
  shows "moves t m m'"
  using assms
  by (cases "tm_pc m ! t"; simp add: sess_step_def split_def Let_def split: if_splits)
    (auto intro: all_moves)

lemma table_step_moves:
  assumes "table_step emerg K G t m m'"
  shows "moves t m m'"
  using assms
proof cases
  case proceed
  then show ?thesis by (intro sess_step_moves)
qed (auto intro: goto_moves)

interpretation stk: critical_section tm_stk_lock tm_pc in_stk "table_step emerg K G" for emerg K G
  by unfold_locales (drule table_step_moves, unfold moves_def keeps_protocol_def, elim conjE exE, intro conjI exI)

interpretation mp: critical_section tm_map_lock tm_pc in_map "table_step emerg K G" for emerg K G
  by unfold_locales (drule table_step_moves, unfold moves_def keeps_protocol_def, elim conjE exE, intro conjI exI)

text \<open>The owners of the two locks, in every state that the machine reaches.\<close>

definition owners_ok :: "table_machine \<Rightarrow> bool" where
  "owners_ok m \<longleftrightarrow> (\<forall>u. mutex (tm_stk_lock m) = Some u \<longleftrightarrow> u < length (tm_pc m) \<and> in_stk (tm_pc m ! u))
     \<and> (\<forall>u. mutex (tm_map_lock m) = Some u \<longleftrightarrow> u < length (tm_pc m) \<and> in_map (tm_pc m ! u))"

lemma stk_owner: "owners_ok m \<Longrightarrow> mutex (tm_stk_lock m) = Some u \<longleftrightarrow> u < length (tm_pc m) \<and> in_stk (tm_pc m ! u)"
  by (simp add: owners_ok_def)

lemma map_owner: "owners_ok m \<Longrightarrow> mutex (tm_map_lock m) = Some u \<longleftrightarrow> u < length (tm_pc m) \<and> in_map (tm_pc m ! u)"
  by (simp add: owners_ok_def)

lemma owners_start: "owners_ok (table_start n s)"
  by (auto simp: owners_ok_def table_start_def mutex_init_def mutex_init_mark_def)

lemma owners_step: "table_step emerg K G t m m' \<Longrightarrow> owners_ok m \<Longrightarrow> owners_ok m'"
  unfolding owners_ok_def using stk.owner_step mp.owner_step by blast

lemma owners_run:
  assumes "table_run emerg K G (table_start n s) m"
  shows "owners_ok m"
proof -
  have o: "\<forall>p \<in> set (tm_pc (table_start n s)). \<not> in_stk p" "\<forall>p \<in> set (tm_pc (table_start n s)). \<not> in_map p"
      "mutex (tm_stk_lock (table_start n s)) = None" "mutex (tm_map_lock (table_start n s)) = None"
    by (simp_all add: table_start_def mutex_init_def mutex_init_mark_def)
  show ?thesis unfolding owners_ok_def
    using stk.owner_run [OF assms o(1,3)] mp.owner_run [OF assms o(2,4)] by blast
qed

section \<open>No thread waits for ever\<close>

text \<open>The number of steps that a thread still takes in its operation.\<close>

fun rest :: "sess_pc \<Rightarrow> nat" where
  "rest (C_lock a p) = 11"
| "rest (C_pop a p) = 10"
| "rest (C_addr a p ix) = 9"
| "rest (C_insert_lock a p ix) = 8"
| "rest (C_insert a p ix) = 7"
| "rest (C_insert_unlock a ix r) = 6"
| "rest (C_name a ix) = 5"
| "rest (C_act ix) = 4"
| "rest (C_connected ix) = 3"
| "rest (C_push ix) = 2"
| "rest (C_count ix) = 2"
| "rest (C_unlock r e) = 1"
| "rest (L_lock a p) = 3"
| "rest (L_search a p) = 2"
| "rest (L_unlock r) = 1"
| "rest (D_lock i) = 8"
| "rest (D_push i) = 7"
| "rest (D_remove_lock i) = 6"
| "rest (D_remove i) = 5"
| "rest (D_remove_unlock i r) = 4"
| "rest (D_reset i r) = 3"
| "rest (D_unlock r) = 2"
| "rest (D_sub r) = 1"
| "rest _ = 0"

definition work :: "table_machine \<Rightarrow> nat" where
  "work m = sum_list (map rest (tm_pc m))"

lemma sum_list_update_less:
  "t < length xs \<Longrightarrow> f y < f (xs ! t) \<Longrightarrow> sum_list (map f (xs[t := y])) < (sum_list (map f xs) :: nat)"
proof (induction xs arbitrary: t)
  case (Cons x xs)
  then show ?case by (cases t) auto
qed simp

lemmas lock_defs = lock_stk_def lock_map_def unlock_stk_def unlock_map_def goto_def push_or_bug_def

lemma sess_step_pc:
  assumes "sess_step emerg K t m = Some m'"
  shows "\<exists>q. tm_pc m' = (tm_pc m)[t := q] \<and> rest q < rest (tm_pc m ! t)"
  using assms
  by (cases "tm_pc m ! t"; simp add: sess_step_def lock_defs split_def Let_def split: if_splits)
    (auto intro: exI [where P = "\<lambda>q. (tm_pc m)[t := _] = (tm_pc m)[t := q] \<and> _ q", OF conjI, OF refl])

lemma work_decreases:
  assumes "sess_step emerg K t m = Some m'" and "t < length (tm_pc m)"
  shows "work m' < work m"
  using sess_step_pc [OF assms(1)] sum_list_update_less [OF assms(2), of rest] by (auto simp: work_def)

text \<open>Who can move: a thread in the section of the map always, a thread in the other section if the map is free.\<close>

lemma in_map_moves: "in_map (tm_pc m ! u) \<Longrightarrow> sess_step emerg K u m \<noteq> None"
  by (cases "tm_pc m ! u") (simp_all add: sess_step_def split_def Let_def)

lemma in_stk_moves:
  "in_stk (tm_pc m ! u) \<Longrightarrow> tm_pc m ! u \<noteq> Bug \<Longrightarrow> mutex (tm_map_lock m) = None \<Longrightarrow> sess_step emerg K u m \<noteq> None"
  by (cases "tm_pc m ! u") (simp_all add: sess_step_def lock_map_def split_def Let_def)

lemma waits_for_lock:
  assumes "sess_step emerg K u m = None" and "tm_pc m ! u \<noteq> Idle" "tm_pc m ! u \<noteq> Bug" "\<forall>r. tm_pc m ! u \<noteq> Done r"
  shows "mutex (tm_stk_lock m) \<noteq> None \<or> mutex (tm_map_lock m) \<noteq> None"
  using assms by (cases "tm_pc m ! u") (auto simp: sess_step_def lock_stk_def lock_map_def split_def Let_def)

lemma some_thread_moves:
  assumes o: "owners_ok m" and nb: "Bug \<notin> set (tm_pc m)"
    and l: "mutex (tm_stk_lock m) \<noteq> None \<or> mutex (tm_map_lock m) \<noteq> None"
  shows "\<exists>u < length (tm_pc m). sess_step emerg K u m \<noteq> None"
proof (cases "mutex (tm_map_lock m)")
  case (Some u)
  then have "u < length (tm_pc m)" "in_map (tm_pc m ! u)" using o by (auto simp: owners_ok_def)
  then show ?thesis using in_map_moves by blast
next
  case None
  then obtain u where "mutex (tm_stk_lock m) = Some u" using l by blast
  then have u: "u < length (tm_pc m)" "in_stk (tm_pc m ! u)" using o by (auto simp: owners_ok_def)
  then have "tm_pc m ! u \<noteq> Bug" using nb nth_mem by metis
  then show ?thesis using in_stk_moves [OF u(2) _ None] u(1) by blast
qed

text \<open>
  A schedule: the threads named proceed one after the other.  Used to give concrete runs.
\<close>

fun table_schedule :: "bool \<Rightarrow> kernel \<Rightarrow> nat list \<Rightarrow> table_machine \<Rightarrow> table_machine option" where
  "table_schedule emerg K [] m = Some m"
| "table_schedule emerg K (t # ts) m =
     (if t < length (tm_pc m) then case sess_step emerg K t m of None \<Rightarrow> None | Some m' \<Rightarrow> table_schedule emerg K ts m' else None)"

lemma table_schedule_run: "table_schedule emerg K ts m = Some m' \<Longrightarrow> table_run emerg K G m m'"
proof (induction ts arbitrary: m)
  case (Cons t ts)
  then obtain m1 where m1: "t < length (tm_pc m)" "sess_step emerg K t m = Some m1" "table_schedule emerg K ts m1 = Some m'"
    by (auto split: if_splits option.splits)
  then show ?case using Cons.IH [OF m1(3)] table_run_step [OF proceed] by blast
qed simp

text \<open>Two threads have called an operation each.\<close>

abbreviation two_calls :: "sess_op \<Rightarrow> sess_op \<Rightarrow> srv_udp_state \<Rightarrow> table_machine" where
  "two_calls op op' s \<equiv> (table_start 2 s)\<lparr>tm_pc := [start op, start op']\<rparr>"

lemma two_calls_run:
  assumes "G (table_start 2 s) op" and "G ((table_start 2 s)\<lparr>tm_pc := [start op, Idle]\<rparr>) op'"
    and "table_schedule emerg K ts (two_calls op op' s) = Some m"
  shows "table_run emerg K G (table_start 2 s) m"
proof -
  let ?m = "table_start 2 s" and ?m1 = "(table_start 2 s)\<lparr>tm_pc := [start op, Idle]\<rparr>"
  have "table_step emerg K G 0 ?m (goto 0 (start op) (tm_srv ?m) ?m)"
    by (rule call) (use assms(1) in \<open>simp_all add: table_start_def\<close>)
  then have a: "table_step emerg K G 0 ?m ?m1" by (simp add: goto_def table_start_def numeral_2_eq_2)
  have "table_step emerg K G 1 ?m1 (goto 1 (start op') (tm_srv ?m1) ?m1)"
    by (rule call) (use assms(2) in \<open>simp_all add: table_start_def\<close>)
  then have b: "table_step emerg K G 1 ?m1 (two_calls op op' s)" by (simp add: goto_def table_start_def)
  show ?thesis using table_run_step [OF a] table_run_step [OF b] table_schedule_run [OF assms(3)] by blast
qed

section \<open>Properties\<close>

text \<open>
  C21: the locks of the session table.  Whatever operations the threads call, two threads are
  never inside the code that one of the locks protects; every step brings the operations in
  progress nearer to their end, so that there are only finitely many until the next call; and if
  no thread can proceed, every thread has finished its operation, unless one sleeps in
  \<^verbatim>\<open>BUG()\<close>: there is no deadlock.
\<close>

theorem session_locks_progress:
  assumes "table_run emerg K G (table_start n s) m"
  shows "(\<forall>t u. t < length (tm_pc m) \<and> u < length (tm_pc m)
      \<and> (in_stk (tm_pc m ! t) \<and> in_stk (tm_pc m ! u) \<or> in_map (tm_pc m ! t) \<and> in_map (tm_pc m ! u)) \<longrightarrow> t = u)
    \<and> (\<forall>t m'. t < length (tm_pc m) \<and> sess_step emerg K t m = Some m' \<longrightarrow> work m' < work m)
    \<and> (Bug \<notin> set (tm_pc m) \<and> (\<forall>t < length (tm_pc m). sess_step emerg K t m = None) \<longrightarrow>
         (\<forall>q \<in> set (tm_pc m). q = Idle \<or> (\<exists>r. q = Done r)))"
proof (intro conjI)
  have o: "owners_ok m" using assms by (rule owners_run)
  show "\<forall>t u. t < length (tm_pc m) \<and> u < length (tm_pc m)
      \<and> (in_stk (tm_pc m ! t) \<and> in_stk (tm_pc m ! u) \<or> in_map (tm_pc m ! t) \<and> in_map (tm_pc m ! u)) \<longrightarrow> t = u"
  proof (intro allI impI, elim conjE disjE)
    fix t u assume "t < length (tm_pc m)" "u < length (tm_pc m)" "in_stk (tm_pc m ! t)" "in_stk (tm_pc m ! u)"
    then have "mutex (tm_stk_lock m) = Some t" "mutex (tm_stk_lock m) = Some u" unfolding stk_owner [OF o] by blast+
    then show "t = u" by simp
  next
    fix t u assume "t < length (tm_pc m)" "u < length (tm_pc m)" "in_map (tm_pc m ! t)" "in_map (tm_pc m ! u)"
    then have "mutex (tm_map_lock m) = Some t" "mutex (tm_map_lock m) = Some u" unfolding map_owner [OF o] by blast+
    then show "t = u" by simp
  qed
  show "\<forall>t m'. t < length (tm_pc m) \<and> sess_step emerg K t m = Some m' \<longrightarrow> work m' < work m"
    using work_decreases by blast
  show "Bug \<notin> set (tm_pc m) \<and> (\<forall>t < length (tm_pc m). sess_step emerg K t m = None) \<longrightarrow>
      (\<forall>q \<in> set (tm_pc m). q = Idle \<or> (\<exists>r. q = Done r))"
  proof (intro impI ballI, rule ccontr)
    fix q assume h: "Bug \<notin> set (tm_pc m) \<and> (\<forall>t < length (tm_pc m). sess_step emerg K t m = None)"
      and q: "q \<in> set (tm_pc m)" "\<not> (q = Idle \<or> (\<exists>r. q = Done r))"
    from q(1) obtain u where u: "u < length (tm_pc m)" "tm_pc m ! u = q" unfolding in_set_conv_nth by blast
    have "sess_step emerg K u m = None" using h u(1) by blast
    moreover have "q \<noteq> Bug" using h q(1) by blast
    ultimately have "sess_step emerg K u m = None" "tm_pc m ! u \<noteq> Idle" "tm_pc m ! u \<noteq> Bug" "\<forall>r. tm_pc m ! u \<noteq> Done r"
      using q(2) u(2) by simp_all
    then have "mutex (tm_stk_lock m) \<noteq> None \<or> mutex (tm_map_lock m) \<noteq> None" by (rule waits_for_lock)
    from some_thread_moves [OF o conjunct1 [OF h] this, of emerg K] obtain v where
      "v < length (tm_pc m)" "sess_step emerg K v m \<noteq> None" by (elim exE conjE)
    then show False using conjunct2 [OF h] by simp
  qed
qed

text \<open>Witness of C21: one thread has taken the lock, so the other is outside.\<close>

theorem session_locks_progress_witness:
  "\<exists>m. table_run True silent_kernel (\<lambda>_ _. True) (table_start 2 (fresh_table 2)) m \<and> in_stk (tm_pc m ! 0)
     \<and> tm_pc m ! 1 = D_lock 0 \<and> \<not> in_stk (tm_pc m ! 1)"
proof -
  obtain m where m: "table_schedule True silent_kernel [0] (two_calls (Create 1 2) (Delete 0) (fresh_table 2)) = Some m"
      "tm_pc m = [C_pop 1 2, D_lock 0]"
    by (auto simp: sess_step_def lock_defs table_start_def mutex_init_def mutex_init_mark_def mutex_lock_def)
  have r: "table_run True silent_kernel (\<lambda>_ _. True) (table_start 2 (fresh_table 2)) m"
    by (rule two_calls_run [OF _ _ m(1)]) simp_all
  show ?thesis
    using session_locks_progress [OF r, THEN conjunct1, rule_format, of 0 1] r m(2) by (intro exI [of _ m]) simp
qed

end
