(* ===== verification/Srv_Atomic.thy ===== *)
theory Srv_Atomic
  imports Srv_Locks Threads
begin

text \<open>
  The operations of the session table are atomic: every interleaving of the threads of
  \<open>Srv_Locks\<close> has the effect of the operations of \<open>Session\<close> executed one after the other, each at
  one moment between its call and its return, as long as no two threads work on the same
  session.  The server does not ensure the latter: the last section shows what happens when the
  reaper and a worker close the same session.
\<close>

section \<open>The operations as single steps\<close>

text \<open>
  The specification: every operation is executed at one moment between its call and its
  return.
\<close>

datatype atomic_pc = A_Idle | A_Called sess_op | A_Done sess_ret

record atomic_machine =
  am_srv :: srv_udp_state
  am_pc :: "atomic_pc list"

fun exec_op :: "kernel \<Rightarrow> sess_op \<Rightarrow> srv_udp_state \<Rightarrow> sess_ret \<times> srv_udp_state" where
  "exec_op K (Create a p) s = (let (ret, err, s') = create_udp_sess K a p s in (R_Create ret err, s'))"
| "exec_op K (Lookup a p) s = (R_Lookup (lookup_udp_sess s a p), s)"
| "exec_op K (Delete i) s = (let (ret, s') = delete_udp_session i s in (R_Delete ret, s'))"

inductive atomic_step :: "kernel \<Rightarrow> atomic_machine \<Rightarrow> atomic_machine \<Rightarrow> bool" for K where
  a_call: "t < length (am_pc A) \<Longrightarrow> am_pc A ! t = A_Idle \<Longrightarrow>
    atomic_step K A (A\<lparr>am_pc := (am_pc A)[t := A_Called op]\<rparr>)"
| a_exec: "t < length (am_pc A) \<Longrightarrow> am_pc A ! t = A_Called op \<Longrightarrow> exec_op K op (am_srv A) = (r, s') \<Longrightarrow>
    atomic_step K A \<lparr>am_srv = s', am_pc = (am_pc A)[t := A_Done r]\<rparr>"
| a_return: "t < length (am_pc A) \<Longrightarrow> am_pc A ! t = A_Done r \<Longrightarrow>
    atomic_step K A (A\<lparr>am_pc := (am_pc A)[t := A_Idle]\<rparr>)"

text \<open>
  Where a thread of the machine stands in the specification: an operation counts as executed
  when the map has been changed or searched, or when there was no free slot.
\<close>

fun abs_pc :: "sess_pc \<Rightarrow> atomic_pc" where
  "abs_pc Idle = A_Idle"
| "abs_pc (C_lock a p) = A_Called (Create a p)"
| "abs_pc (C_pop a p) = A_Called (Create a p)"
| "abs_pc (C_addr a p ix) = A_Called (Create a p)"
| "abs_pc (C_insert_lock a p ix) = A_Called (Create a p)"
| "abs_pc (C_insert a p ix) = A_Called (Create a p)"
| "abs_pc (C_insert_unlock a ix r) = A_Done (R_Create (map_option (\<lambda>_. unat ix) r) (if r = None then ENOMEM else 0))"
| "abs_pc (C_push ix) = A_Done (R_Create None ENOMEM)"
| "abs_pc (C_name a ix) = A_Done (R_Create (Some (unat ix)) 0)"
| "abs_pc (C_act ix) = A_Done (R_Create (Some (unat ix)) 0)"
| "abs_pc (C_connected ix) = A_Done (R_Create (Some (unat ix)) 0)"
| "abs_pc (C_count ix) = A_Done (R_Create (Some (unat ix)) 0)"
| "abs_pc (C_unlock r e) = A_Done (R_Create r e)"
| "abs_pc (L_lock a p) = A_Called (Lookup a p)"
| "abs_pc (L_search a p) = A_Called (Lookup a p)"
| "abs_pc (L_unlock r) = A_Done (R_Lookup r)"
| "abs_pc (D_lock i) = A_Called (Delete i)"
| "abs_pc (D_push i) = A_Called (Delete i)"
| "abs_pc (D_remove_lock i) = A_Called (Delete i)"
| "abs_pc (D_remove i) = A_Called (Delete i)"
| "abs_pc (D_remove_unlock i r) = A_Done (R_Delete r)"
| "abs_pc (D_reset i r) = A_Done (R_Delete r)"
| "abs_pc (D_unlock r) = A_Done (R_Delete r)"
| "abs_pc (D_sub r) = A_Done (R_Delete r)"
| "abs_pc (Done r) = A_Done r"
| "abs_pc Bug = A_Idle"

lemma abs_start [simp]: "abs_pc (start op) = A_Called op"
  by (cases op) simp_all

text \<open>
  What the thread that holds \<open>sess_stk_lock\<close> has done so far to the state \<open>s\<close> of the
  specification, before its operation counts as executed, or what it still has to do to reach
  it, afterwards.
\<close>

function (sequential) mid :: "kernel \<Rightarrow> sess_pc \<Rightarrow> srv_udp_state \<Rightarrow> srv_udp_state \<Rightarrow> bool" where
  "mid K (C_addr a p ix) s x \<longleftrightarrow> (\<exists>stk. bt_stack_pop (sess_stk s) = (uint ix, stk) \<and> x = s\<lparr>sess_stk := stk\<rparr>)"
| "mid K (C_insert_lock a p ix) s x \<longleftrightarrow> (\<exists>stk. bt_stack_pop (sess_stk s) = (uint ix, stk)
     \<and> x = upd_sess (unat ix) (\<lambda>x. x\<lparr>src_addr := a, src_port := p\<rparr>) (s\<lparr>sess_stk := stk\<rparr>))"
| "mid K (C_insert a p ix) s x \<longleftrightarrow> (\<exists>stk. bt_stack_pop (sess_stk s) = (uint ix, stk)
     \<and> x = upd_sess (unat ix) (\<lambda>x. x\<lparr>src_addr := a, src_port := p\<rparr>) (s\<lparr>sess_stk := stk\<rparr>))"
| "mid K (C_push ix) s x \<longleftrightarrow> s = x\<lparr>sess_stk := snd (bt_stack_push (sess_stk x) ix)\<rparr> \<and> fst (bt_stack_push (sess_stk x) ix) \<noteq> -1"
| "mid K (C_count ix) s x \<longleftrightarrow> s = x\<lparr>n_on_sess := n_on_sess x + 1\<rparr>"
| "mid K (C_connected ix) s x \<longleftrightarrow> (let y = upd_sess (unat ix) (\<lambda>x. x\<lparr>is_connected := True\<rparr>) x in s = y\<lparr>n_on_sess := n_on_sess y + 1\<rparr>)"
| "mid K (C_act ix) s x \<longleftrightarrow> mid K (C_connected ix) s (snd (udp_sess_update_last_act K (unat ix) x))"
| "mid K (C_name a ix) s x \<longleftrightarrow> mid K (C_act ix) s (upd_sess (unat ix) (\<lambda>x. x\<lparr>str_src_addr := inet_ntop (htonl a)\<rparr>) x)"
| "mid K (C_insert_unlock a ix r) s x \<longleftrightarrow> (if r = None then mid K (C_push ix) s x else mid K (C_name a ix) s x)"
| "mid K (D_remove_lock i) s x \<longleftrightarrow> x = s\<lparr>sess_stk := snd (bt_stack_push (sess_stk s) (idx (sess_arr s ! i)))\<rparr>"
| "mid K (D_remove i) s x \<longleftrightarrow> x = s\<lparr>sess_stk := snd (bt_stack_push (sess_stk s) (idx (sess_arr s ! i)))\<rparr>"
| "mid K (D_unlock r) s x \<longleftrightarrow> s = x\<lparr>n_on_sess := n_on_sess x - 1\<rparr>"
| "mid K (D_reset i r) s x \<longleftrightarrow> mid K (D_unlock r) s (upd_sess i (\<lambda>x. reset_udp_session (idx x)) x)"
| "mid K (D_remove_unlock i r) s x \<longleftrightarrow> mid K (D_reset i r) s x"
| "mid K _ s x \<longleftrightarrow> x = s"
  by pat_completeness auto

termination by (relation "measure (\<lambda>(K, q, s, x). rest q)") simp_all

section \<open>Facts about the state in the middle of an operation\<close>

text \<open>A lookup does not depend on a slot that is not connected.\<close>

lemma lookup_cong:
  assumes "smap x = smap s" and "\<And>a b j. j \<in> set (chain (smap s a b)) \<Longrightarrow> sess_key x j = sess_key s j"
  shows "lookup_udp_sess x a p = lookup_udp_sess s a p"
proof -
  obtain i1 i2 where ab: "addr_to_bkt a = (i1, i2)" by fastforce
  have "find (\<lambda>i. src_addr (sess_arr x ! i) = a \<and> src_port (sess_arr x ! i) = p) (chain (smap s i1 i2))
      = find (\<lambda>i. src_addr (sess_arr s ! i) = a \<and> src_port (sess_arr s ! i) = p) (chain (smap s i1 i2))"
    using assms(2) [of _ i1 i2] by (intro find_cong) (auto simp: sess_key_def)
  then show ?thesis by (simp add: lookup_udp_sess_def ab bkt_lookup_find assms(1))
qed

lemma lookup_unused:
  assumes inv: "sess_inv s" and i: "i \<notin> conn s" and m: "sess_map x = sess_map s"
    and a: "\<And>j. j \<noteq> i \<Longrightarrow> sess_key x j = sess_key s j"
  shows "lookup_udp_sess x = lookup_udp_sess s"
proof (intro ext, rule lookup_cong)
  show "smap x = smap s" using m by (simp add: smap_def)
  show "sess_key x j = sess_key s j" if "j \<in> set (chain (smap s b c))" for b c j
  proof (rule a)
    have "j \<in> conn s" using that inv by (auto simp: sess_inv_def map_ok_def in_bkt_def)
    then show "j \<noteq> i" using i by blast
  qed
qed

lemma lookup_same:
  assumes "sess_map x = sess_map s" and "\<And>j. sess_key x j = sess_key s j"
  shows "lookup_udp_sess x = lookup_udp_sess s"
  by (intro ext lookup_cong) (use assms in \<open>simp_all add: smap_def\<close>)

lemma popped_slot:
  assumes inv: "sess_inv s" and pop: "bt_stack_pop (sess_stk s) = (uint ix, stk)"
  shows "unat ix < length (sess_arr s) \<and> unat ix \<notin> conn s 
    \<and> snd (bt_stack_push stk ix) = sess_stk s \<and> fst (bt_stack_push stk ix) \<noteq> -1"
proof (cases "stk_list (sess_stk s)")
  case Nil
  have "stk_ok (sess_stk s)" using inv by (simp add: sess_inv_def slots_ok_def)
  from bt.pop_nil [OF this Nil] have "uint ix = -1" using pop by simp
  then show ?thesis using uint_nonnegative [of ix] by simp
next
  case (Cons iy xs)
  have ok: "slots_ok s" using inv by (simp add: sess_inv_def)
  then have so: "stk_ok (sess_stk s)" by (simp add: slots_ok_def)
  from slot_popped [OF ok Cons] pop have p: "unat iy < length (sess_arr s)" "unat iy \<notin> conn s" "uint iy = uint ix"
      "stk_ok stk" "stk_list stk = xs" "max_sp stk = max_sp (sess_stk s)" by auto
  have ix: "iy = ix" using p(3) by (simp add: word_uint_eq_iff)
  have "length (iy # xs) \<le> unat (max_sp (sess_stk s))" using bt.contents_le [OF so] Cons by simp
  then have "fst (bt_stack_push stk ix) \<noteq> -1" using bt.push_fails_iff [OF p(4)] p(5,6) by auto
  then show ?thesis using bt_pop_push_back [OF so pop, of xs] Cons p ix by simp
qed

lemma upd_key [simp]:
  assumes "\<And>x. src_addr (f x) = src_addr x" and "\<And>x. src_port (f x) = src_port x"
  shows "sess_key (upd_sess i f s) j = sess_key s j"
proof (cases "i < length (sess_arr s)")
  case True
  then show ?thesis using assms by (simp add: sess_key_def nth_list_update)
qed (simp add: sess_key_def list_update_beyond)

lemma upd_key_other [simp]: "j \<noteq> i \<Longrightarrow> sess_key (upd_sess i f s) j = sess_key s j"
  by (simp add: sess_key_def)

lemma key_update [simp]:
  "sess_key (s\<lparr>sess_stk := stk\<rparr>) j = sess_key s j" "sess_key (s\<lparr>n_on_sess := k\<rparr>) j = sess_key s j"
  "sess_key (s\<lparr>tick := n\<rparr>) j = sess_key s j"
  by (simp_all add: sess_key_def)

lemma last_act_key:
  "sess_key (snd (udp_sess_update_last_act K i s)) j = sess_key s j"
  "sess_map (snd (udp_sess_update_last_act K i s)) = sess_map s"
  using update_last_act_eq [of K i s] by (auto simp: frame)

text \<open>What every thread can look up is what the specification holds.\<close>

lemma mid_connected_lookup: "mid K (C_connected ix) s x \<Longrightarrow> lookup_udp_sess x = lookup_udp_sess s"
  by (rule lookup_same) (simp_all add: Let_def frame)

lemma mid_act_lookup:
  assumes "mid K (C_act ix) s x"
  shows "lookup_udp_sess x = lookup_udp_sess s"
proof -
  have "lookup_udp_sess (snd (udp_sess_update_last_act K (unat ix) x)) = lookup_udp_sess s"
    using assms by (intro mid_connected_lookup [of K ix]) simp
  moreover have "lookup_udp_sess (snd (udp_sess_update_last_act K (unat ix) x)) = lookup_udp_sess x"
    by (rule lookup_same) (simp_all add: last_act_key)
  ultimately show ?thesis by simp
qed

lemma mid_name_lookup:
  assumes "mid K (C_name a ix) s x"
  shows "lookup_udp_sess x = lookup_udp_sess s"
proof -
  have "lookup_udp_sess (upd_sess (unat ix) (\<lambda>x. x\<lparr>str_src_addr := inet_ntop (htonl a)\<rparr>) x) = lookup_udp_sess s"
    by (rule mid_act_lookup [of K ix]) (use assms in \<open>simp only: mid.simps\<close>)
  moreover have "lookup_udp_sess (upd_sess (unat ix) (\<lambda>x. x\<lparr>str_src_addr := inet_ntop (htonl a)\<rparr>) x) = lookup_udp_sess x"
    by (rule lookup_same) (simp_all add: frame)
  ultimately show ?thesis by simp
qed

lemma mid_push_lookup: "mid K (C_push ix) s x \<Longrightarrow> lookup_udp_sess x = lookup_udp_sess s"
  by (rule lookup_same) simp_all

lemma mid_insert_lookup:
  assumes "mid K (C_insert a p ix) s x" and inv: "sess_inv s"
  shows "lookup_udp_sess x = lookup_udp_sess s"
proof -
  obtain stk where s: "bt_stack_pop (sess_stk s) = (uint ix, stk)"
      "x = upd_sess (unat ix) (\<lambda>x. x\<lparr>src_addr := a, src_port := p\<rparr>) (s\<lparr>sess_stk := stk\<rparr>)" using assms(1) by auto
  show ?thesis
  proof (rule lookup_unused [OF inv])
    show "unat ix \<notin> conn s" using popped_slot [OF inv s(1)] by simp
  qed (simp_all add: s(2) frame)
qed

lemma mid_reset_lookup:
  assumes "mid K (D_reset i r) s x" and inv: "sess_inv s"
  shows "lookup_udp_sess x = lookup_udp_sess s"
proof (rule lookup_unused [OF inv])
  have s: "s = (upd_sess i (\<lambda>x. reset_udp_session (idx x)) x)\<lparr>n_on_sess := n_on_sess x - 1\<rparr>"
    using assms(1) by (simp add: frame)
  show "i \<notin> conn s" by (cases "i < length (sess_arr x)") (simp_all add: s conn_def)
  show "sess_map x = sess_map s" by (simp add: s frame)
  show "sess_key x j = sess_key s j" if "j \<noteq> i" for j using that by (simp add: s)
qed

lemma mid_lookup:
  assumes m: "mid K q s x" and inv: "sess_inv s"
  shows "lookup_udp_sess x = lookup_udp_sess s"
proof (cases q)
  case (C_insert_unlock a ix r)
  then show ?thesis using m mid_push_lookup [of K ix s x] mid_name_lookup [of K a ix s x] by (cases r) (simp_all only: mid.simps if_True if_False option.distinct refl not_False_eq_True)
next
  case (C_insert_lock a p ix)
  then have "mid K (C_insert a p ix) s x" using m by simp
  then show ?thesis using inv by (rule mid_insert_lookup)
next
  case (D_remove_unlock i r)
  then have "mid K (D_reset i r) s x" using m by simp
  then show ?thesis using inv by (rule mid_reset_lookup)
next
  case (C_addr a p ix)
  then obtain stk where "x = s\<lparr>sess_stk := stk\<rparr>" using m by auto
  then show ?thesis by (intro lookup_same) simp_all
next
  case (C_count ix)
  then have "s = x\<lparr>n_on_sess := n_on_sess x + 1\<rparr>" using m by simp
  then show ?thesis by (intro lookup_same) simp_all
next
  case (D_unlock r)
  then have "s = x\<lparr>n_on_sess := n_on_sess x - 1\<rparr>" using m by simp
  then show ?thesis by (intro lookup_same) simp_all
next
  case (D_remove_lock i)
  then have "x = s\<lparr>sess_stk := snd (bt_stack_push (sess_stk s) (idx (sess_arr s ! i)))\<rparr>" using m by simp
  then show ?thesis by (intro lookup_same) simp_all
next
  case (D_remove i)
  then have "x = s\<lparr>sess_stk := snd (bt_stack_push (sess_stk s) (idx (sess_arr s ! i)))\<rparr>" using m by simp
  then show ?thesis by (intro lookup_same) simp_all
next
  case (C_insert a p ix)
  then show ?thesis using m inv mid_insert_lookup by blast
next
  case (C_push ix)
  then show ?thesis using m mid_push_lookup by blast
next
  case (C_name a ix)
  then show ?thesis using m mid_name_lookup by blast
next
  case (C_act ix)
  then show ?thesis using m mid_act_lookup by blast
next
  case (C_connected ix)
  then show ?thesis using m mid_connected_lookup by blast
next
  case (D_reset i r)
  then show ?thesis using m inv mid_reset_lookup by blast
qed (use m in simp_all)

section \<open>Who is working on what\<close>

text \<open>
  The session that a thread is about to create, or is deleting until its record is reset.
  \<open>checked\<close> is what the server checks before a call: it creates a session only after a lookup
  found none, and deletes one that it saw connected.  A call is \<open>owned\<close> if in addition no
  other thread is working on the same session.
\<close>

fun claim :: "sess_pc \<Rightarrow> sess_op option" where
  "claim (C_lock a p) = Some (Create a p)"
| "claim (C_pop a p) = Some (Create a p)"
| "claim (C_addr a p ix) = Some (Create a p)"
| "claim (C_insert_lock a p ix) = Some (Create a p)"
| "claim (C_insert a p ix) = Some (Create a p)"
| "claim (D_lock i) = Some (Delete i)"
| "claim (D_push i) = Some (Delete i)"
| "claim (D_remove_lock i) = Some (Delete i)"
| "claim (D_remove i) = Some (Delete i)"
| "claim (D_remove_unlock i r) = Some (Delete i)"
| "claim (D_reset i r) = Some (Delete i)"
| "claim _ = None"

fun checked :: "table_machine \<Rightarrow> sess_op \<Rightarrow> bool" where
  "checked m (Create a p) \<longleftrightarrow> lookup_udp_sess (tm_srv m) a p = None"
| "checked m (Lookup a p) \<longleftrightarrow> True"
| "checked m (Delete i) \<longleftrightarrow> i < length (sess_arr (tm_srv m)) \<and> is_connected (sess_arr (tm_srv m) ! i)"

definition owned :: "table_machine \<Rightarrow> sess_op \<Rightarrow> bool" where
  "owned m op \<longleftrightarrow> checked m op \<and> (\<forall>q \<in> set (tm_pc m). claim q \<noteq> Some op)"

definition single_claims :: "table_machine \<Rightarrow> bool" where
  "single_claims m \<longleftrightarrow> (\<forall>t u op. t < length (tm_pc m) \<longrightarrow> u < length (tm_pc m) \<longrightarrow>
     claim (tm_pc m ! t) = Some op \<longrightarrow> claim (tm_pc m ! u) = Some op \<longrightarrow> t = u)"

text \<open>What an operation needs of the state in which it is executed.\<close>

fun ready :: "srv_udp_state \<Rightarrow> sess_op \<Rightarrow> bool" where
  "ready s (Create a p) \<longleftrightarrow> lookup_udp_sess s a p = None"
| "ready s (Lookup a p) \<longleftrightarrow> True"
| "ready s (Delete i) \<longleftrightarrow> i \<in> conn s"

lemma called_claim: "abs_pc q = A_Called op \<Longrightarrow> claim q = Some op \<or> (\<exists>a p. op = Lookup a p)"
  by (cases q) auto

lemma claim_start: "claim (start op) = Some op \<or> claim (start op) = None"
  by (cases op) simp_all

text \<open>A step keeps the claim of its thread or ends it.\<close>

lemma sess_step_claim:
  assumes "sess_step emerg K t m = Some m'" and "t < length (tm_pc m)"
  shows "claim (tm_pc m' ! t) = claim (tm_pc m ! t) \<or> claim (tm_pc m' ! t) = None"
  using assms
  by (cases "tm_pc m ! t"; simp add: sess_step_def lock_defs split_def Let_def split: if_splits) auto

lemma moves_pc: "moves t m m' \<Longrightarrow> t < length (tm_pc m) \<and> tm_pc m' = (tm_pc m)[t := tm_pc m' ! t]"
  by (auto simp: moves_def)

lemma single_claims_update:
  assumes "single_claims m" and "t < length (tm_pc m)" and "tm_pc m' = (tm_pc m)[t := q]"
    and "claim q = claim (tm_pc m ! t) \<or> claim q = None \<or> (\<forall>p \<in> set (tm_pc m). claim p \<noteq> claim q)"
  shows "single_claims m'"
proof -
  have other: "u = t" if u: "u < length (tm_pc m)" "claim (tm_pc m ! u) = Some op" and c: "claim q = Some op" for u op
    using assms(4)
  proof (elim disjE)
    assume "claim q = claim (tm_pc m ! t)"
    then show ?thesis using assms(1,2) u c unfolding single_claims_def by metis
  next
    assume "\<forall>p \<in> set (tm_pc m). claim p \<noteq> claim q"
    then show ?thesis using c u nth_mem by metis
  qed (use c in simp)
  have pc: "tm_pc m' ! u = (if u = t then q else tm_pc m ! u)" if "u < length (tm_pc m)" for u
    using that assms(3) by simp
  have un: "u = v" if "u < length (tm_pc m)" "v < length (tm_pc m)" "claim (tm_pc m ! u) = Some op" "claim (tm_pc m ! v) = Some op"
    for u v op
    using that assms(1) unfolding single_claims_def by blast
  show ?thesis
    unfolding single_claims_def
  proof (intro allI impI)
    fix u v op
    assume "u < length (tm_pc m')" "v < length (tm_pc m')" "claim (tm_pc m' ! u) = Some op" "claim (tm_pc m' ! v) = Some op"
    then show "u = v" using other un pc assms(3) by (metis length_list_update)
  qed
qed

lemma single_claims_step:
  assumes "table_step emerg K owned t m m'" and "single_claims m"
  shows "single_claims m'"
proof -
  have t: "t < length (tm_pc m)" "tm_pc m' = (tm_pc m)[t := tm_pc m' ! t]"
    using moves_pc table_step_moves assms(1) by blast+
  have "claim (tm_pc m' ! t) = claim (tm_pc m ! t) \<or> claim (tm_pc m' ! t) = None
      \<or> (\<forall>p \<in> set (tm_pc m). claim p \<noteq> claim (tm_pc m' ! t))"
    using assms(1)
  proof cases
    case proceed
    then show ?thesis using sess_step_claim by blast
  next
    case (call op)
    then show ?thesis using claim_start [of op] by (auto simp: goto_def owned_def)
  next
    case (return r)
    then show ?thesis by (simp add: goto_def)
  qed
  then show ?thesis using single_claims_update [OF assms(2) t] by blast
qed

text \<open>Executing one operation does not disturb another that is ready.\<close>

lemma exec_ready:
  assumes inv: "sess_inv s" and r: "ready s op" "ready s op'" and ne: "op \<noteq> op' \<or> (\<exists>a p. op' = Lookup a p)"
    and e: "exec_op K op s = (ret, s')"
  shows "sess_inv s' \<and> ready s' op'"
proof (cases op)
  case (Create a p)
  have n: "sess_abs s (a, p) = None" using r(1) Create by (simp add: sess_abs_def)
  obtain i err where c: "create_udp_sess K a p s = (i, err, s')" using e Create by (auto simp: Let_def split: prod.splits)
  then have at: "create_at K (a, p) s = (i, s')" by simp
  have "sess_inv s' \<and> conn s \<subseteq> conn s' \<and> (\<forall>k. k \<noteq> (a, p) \<longrightarrow> sess_abs s' k = sess_abs s k)"
    using st.create_law [OF inv n] st.create_fail_law [OF inv n] at by (cases i) auto
  then show ?thesis using Create r(2) ne by (cases op') (auto simp: sess_abs_def)
next
  case (Lookup a p)
  then show ?thesis using e inv r(2) by simp
next
  case (Delete i)
  then have i: "i \<in> conn s" and s': "s' = snd (delete_udp_session i s)"
    using r(1) e by (auto simp: Let_def split: prod.splits)
  note d = st.delete_law [OF inv i]
  have n: "lookup_udp_sess s' a p = None" if "lookup_udp_sess s a p = None" for a p
    using d that unfolding s' by (auto simp: sess_abs_def dest: spec [of _ "(a, p)"])
  show ?thesis using d n Delete r(2) ne unfolding s' by (cases op') auto
qed

section \<open>The simulation\<close>

text \<open>
  Deletions that have released their locks but not yet decremented the counter; the state with
  the counter they leave.
\<close>

fun subtracting :: "sess_pc \<Rightarrow> bool" where
  "subtracting (D_sub r) = True"
| "subtracting _ = False"

definition sub_n :: "u16 \<Rightarrow> srv_udp_state \<Rightarrow> srv_udp_state" where
  "sub_n k s = s\<lparr>n_on_sess := n_on_sess s - k\<rparr>"

definition pending :: "table_machine \<Rightarrow> u16" where
  "pending m = word_of_nat (length (filter subtracting (tm_pc m)))"

abbreviation settled :: "table_machine \<Rightarrow> srv_udp_state" where
  "settled m \<equiv> sub_n (pending m) (tm_srv m)"

lemma sub_n_commute [simp]:
  "sub_n k (upd_sess i f s) = upd_sess i f (sub_n k s)"
  "sub_n k (s\<lparr>sess_stk := stk\<rparr>) = (sub_n k s)\<lparr>sess_stk := stk\<rparr>"
  "sub_n k (s\<lparr>n_on_sess := n_on_sess s + 1\<rparr>) = (sub_n k s)\<lparr>n_on_sess := n_on_sess (sub_n k s) + 1\<rparr>"
  "sub_n k (snd (map_insert_udp_sess K a i s)) = snd (map_insert_udp_sess K a i (sub_n k s))"
  "sub_n k (snd (udp_sess_update_last_act K i s)) = snd (udp_sess_update_last_act K i (sub_n k s))"
  "sub_n k (snd (remove_sess_from_bkt i s)) = snd (remove_sess_from_bkt i (sub_n k s))"
  by (simp_all add: sub_n_def upd_sess_def map_insert_udp_sess_def udp_sess_update_last_act_def get_unix_time_def
      remove_sess_from_bkt_def smap_def Let_def split_def split: option.split sum.split)

lemma sub_n_read [simp]:
  "sess_stk (sub_n k s) = sess_stk s" "sess_arr (sub_n k s) = sess_arr s" "sess_map (sub_n k s) = sess_map s"
  "fst (map_insert_udp_sess K a i (sub_n k s)) = fst (map_insert_udp_sess K a i s)"
  "fst (remove_sess_from_bkt i (sub_n k s)) = fst (remove_sess_from_bkt i s)"
  "lookup_udp_sess (sub_n k s) = lookup_udp_sess s" "conn (sub_n k s) = conn s"
  by (auto simp: sub_n_def map_insert_udp_sess_def remove_sess_from_bkt_def smap_def conn_def lookup_udp_sess_def
      fun_eq_iff Let_def split_def split: option.split)

lemma pending_update:
  assumes "tm_pc m' = (tm_pc m)[t := q]" and "t < length (tm_pc m)"
  shows "pending m' + (if subtracting (tm_pc m ! t) then 1 else 0) = pending m + (if subtracting q then 1 else 0)"
  using arg_cong [OF count_update [OF assms(2), of subtracting q], of "of_nat :: nat \<Rightarrow> u16"]
  unfolding pending_def assms(1) by (simp split: if_splits)

text \<open>The state of the specification behind a state of the machine.\<close>

definition state_ok :: "kernel \<Rightarrow> table_machine \<Rightarrow> srv_udp_state \<Rightarrow> bool" where
  "state_ok K m s \<longleftrightarrow> (case mutex (tm_stk_lock m) of None \<Rightarrow> settled m = s
     | Some u \<Rightarrow> mid K (tm_pc m ! u) s (settled m))"

lemma state_ok_lookup: "state_ok K m s \<Longrightarrow> sess_inv s \<Longrightarrow> lookup_udp_sess (tm_srv m) = lookup_udp_sess s"
  using mid_lookup [of K _ s "settled m"] by (auto simp: state_ok_def split: option.splits)

text \<open>
  The effect of a step of thread \<open>t\<close> on the specification: nothing, or the execution of its
  operation.
\<close>

definition effect :: "kernel \<Rightarrow> sess_pc \<Rightarrow> srv_udp_state \<Rightarrow> sess_pc \<Rightarrow> srv_udp_state \<Rightarrow> bool" where
  "effect K q s q' s' \<longleftrightarrow> s' = s \<and> abs_pc q' = abs_pc q
     \<or> (\<exists>op r. abs_pc q = A_Called op \<and> ready s op \<and> exec_op K op s = (r, s') \<and> abs_pc q' = A_Done r)"

text \<open>The steps of the lock holder, on the settled state.\<close>

lemma pop_effect:
  assumes inv: "sess_inv s" and r: "ready s (Create a p)" and pop: "bt_stack_pop (sess_stk s) = (ret, stk)"
  shows "ret = -1 \<Longrightarrow> effect K (C_pop a p) s (C_unlock None EAGAIN) s"
    and "ret \<noteq> -1 \<Longrightarrow> mid K (C_addr a p (word_of_int ret)) s (s\<lparr>sess_stk := stk\<rparr>)"
proof -
  show "effect K (C_pop a p) s (C_unlock None EAGAIN) s" if "ret = -1"
    using that pop r by (simp add: effect_def create_udp_sess_def)
  show "mid K (C_addr a p (word_of_int ret)) s (s\<lparr>sess_stk := stk\<rparr>)" if "ret \<noteq> -1"
    using that pop by (auto simp: bt_stack_pop_def split: if_splits)
qed

lemma map_insert_slot: "fst (map_insert_udp_sess K a i s) = None \<or> fst (map_insert_udp_sess K a i s) = Some i"
  by (simp add: map_insert_udp_sess_def Let_def split_def)

lemma insert_effect:
  assumes inv: "sess_inv s" and r: "ready s (Create a p)" and m: "mid K (C_insert a p ix) s x"
    and ins: "map_insert_udp_sess K a (unat ix) x = (ret, x')"
  shows "\<exists>s'. effect K (C_insert a p ix) s (C_insert_unlock a ix ret) s' \<and> mid K (C_insert_unlock a ix ret) s' x'"
proof -
  obtain stk where pop: "bt_stack_pop (sess_stk s) = (uint ix, stk)"
    and x: "x = upd_sess (unat ix) (\<lambda>x. x\<lparr>src_addr := a, src_port := p\<rparr>) (s\<lparr>sess_stk := stk\<rparr>)" using m by auto
  have ne: "uint ix \<noteq> -1" using uint_nonnegative [of ix] by linarith
  note slot = popped_slot [OF inv pop]
  define s' where "s' = snd (snd (create_udp_sess K a p s))"
  show ?thesis
  proof (cases ret)
    case None
    have "sess_stk x = stk" by (simp add: x frame)
    then have "sess_stk x' = stk" using map_insert_frame(2) [of K a "unat ix" x] by (simp add: ins)
    moreover have c: "create_udp_sess K a p s = (None, ENOMEM, x'\<lparr>sess_stk := snd (bt_stack_push (sess_stk x') ix)\<rparr>)"
      using pop ne ins None by (simp add: create_udp_sess_def x [symmetric] Let_def)
    ultimately show ?thesis using None r slot by (intro exI [of _ s']) (simp add: effect_def s'_def)
  next
    case (Some j)
    then have "j = unat ix" using map_insert_slot [of K a "unat ix" x] ins by simp
    then show ?thesis using Some pop ne ins r
      by (intro exI [of _ s']) (simp add: effect_def s'_def create_udp_sess_def x [symmetric] Let_def split_def)
  qed
qed

lemma push_effect:
  assumes inv: "sess_inv s" and i: "i \<in> conn s"
  shows "fst (bt_stack_push (sess_stk s) (idx (sess_arr s ! i))) \<noteq> -1" and "sess_map s \<noteq> None"
  using delete_spec [OF assms] inv by (simp_all add: sess_inv_def map_ok_def)

lemma remove_effect:
  assumes inv: "sess_inv s" and i: "i \<in> conn s" and m: "mid K (D_remove i) s x"
    and rem: "remove_sess_from_bkt i x = (ret, x')"
  shows "\<exists>s'. effect K (D_remove i) s (D_remove_unlock i ret) s' \<and> mid K (D_remove_unlock i ret) s' x'"
proof -
  obtain sm where "sess_map s = Some sm" using push_effect(2) [OF inv i] by auto
  moreover have x: "x = s\<lparr>sess_stk := snd (bt_stack_push (sess_stk s) (idx (sess_arr s ! i)))\<rparr>" using m by simp
  ultimately have "delete_udp_session i s =
      (ret, (upd_sess i (\<lambda>x. reset_udp_session (idx x)) x')\<lparr>n_on_sess := n_on_sess x' - 1\<rparr>)"
    using rem by (simp add: delete_udp_session_def Let_def frame)
  then show ?thesis using i by (simp add: effect_def frame)
qed

text \<open>
  A step of the thread that holds \<open>sess_stk_lock\<close> (or takes it) leads from one state of the
  specification to the next.
\<close>

lemma goto_settled:
  assumes "t < length (tm_pc m)" and "\<not> subtracting (tm_pc m ! t)" and "\<not> subtracting q"
  shows "settled (goto t q x m) = sub_n (pending m) x"
  using pending_update [of "goto t q x m" m t q] assms by (simp add: goto_def)

lemma lock_settled:
  assumes "t < length (tm_pc m)" and "\<not> subtracting (tm_pc m ! t)" and "\<not> subtracting q"
  shows "lock_stk t q m = Some m' \<Longrightarrow> settled m' = settled m"
    and "lock_map t q m = Some m' \<Longrightarrow> settled m' = settled m"
    and "settled (unlock_stk t q m) = settled m" and "settled (unlock_map t q m) = settled m"
  using goto_settled [OF assms, of "tm_srv m"]
  by (auto simp: lock_stk_def lock_map_def unlock_stk_def unlock_map_def pending_def)

lemma moved_pc [simp]:
  assumes "t < length (tm_pc m)"
  shows "tm_pc (goto t q x m) ! t = q" and "tm_pc (unlock_stk t q m) ! t = q" and "tm_pc (unlock_map t q m) ! t = q"
    and "lock_stk t q m = Some m' \<Longrightarrow> tm_pc m' ! t = q" and "lock_map t q m = Some m' \<Longrightarrow> tm_pc m' ! t = q"
  using assms by (auto simp: lock_defs)

lemma holder_create:
  assumes inv: "sess_inv s" and t: "t < length (tm_pc m)" and st: "mid K (tm_pc m ! t) s (settled m)"
    and r: "\<forall>op. abs_pc (tm_pc m ! t) = A_Called op \<longrightarrow> ready s op"
    and q: "in_stk (tm_pc m ! t)" and c: "create_step emerg K t (tm_pc m ! t) m = Some m'"
  shows "\<exists>s'. effect K (tm_pc m ! t) s (tm_pc m' ! t) s'
    \<and> (if in_stk (tm_pc m' ! t) then mid K (tm_pc m' ! t) s' (settled m') else settled m' = s')"
proof (cases "tm_pc m ! t")
  case (C_pop a p)
  obtain ret stk where pop: "bt_stack_pop (sess_stk s) = (ret, stk)" by fastforce
  have s: "settled m = s" using st C_pop by simp
  then have pm: "bt_stack_pop (sess_stk (tm_srv m)) = (ret, stk)" using pop by auto
  have rd: "ready s (Create a p)" using r C_pop by simp
  note pe = pop_effect [OF inv rd pop, of K]
  show ?thesis
  proof (cases "ret = -1")
    case True
    then have "m' = goto t (C_unlock None EAGAIN) (tm_srv m) m" using c C_pop pm by simp
    then show ?thesis using True t pe(1) s C_pop goto_settled [of t m "C_unlock None EAGAIN" "tm_srv m"]
      by (intro exI [of _ s]) (simp add: goto_def)
  next
    case False
    then have "m' = goto t (C_addr a p (word_of_int ret)) ((tm_srv m)\<lparr>sess_stk := stk\<rparr>) m" using c C_pop pm by simp
    then show ?thesis using False t pe(2) s C_pop goto_settled [of t m "C_addr a p (word_of_int ret)" "(tm_srv m)\<lparr>sess_stk := stk\<rparr>"]
      by (intro exI [of _ s]) (simp add: goto_def effect_def)
  qed
next
  case (C_insert a p ix)
  obtain ret x' where ins: "map_insert_udp_sess K a (unat ix) (settled m) = (ret, x')" by fastforce
  have m': "m' = goto t (C_insert_unlock a ix ret) (snd (map_insert_udp_sess K a (unat ix) (tm_srv m))) m"
    using c C_insert arg_cong [OF ins, of fst] by (simp add: split_def)
  have rd: "ready s (Create a p)" using r C_insert by simp
  have mm: "mid K (C_insert a p ix) s (settled m)" using st C_insert by simp
  have "settled m' = x'" using arg_cong [OF ins, of snd] t C_insert unfolding m' by (subst goto_settled) simp_all
  then show ?thesis using insert_effect [OF inv rd mm ins] t C_insert m' by (simp add: goto_def)
next
  case (C_insert_lock a p ix)
  then have l: "lock_map t (C_insert a p ix) m = Some m'" using c by simp
  then have "settled m' = settled m" using t C_insert_lock by (intro lock_settled(2) [of t m "C_insert a p ix"]) simp_all
  then show ?thesis using l st t C_insert_lock by (intro exI [of _ s]) (simp add: effect_def)
next
  case (C_push ix)
  then have "fst (bt_stack_push (sess_stk (tm_srv m)) ix) \<noteq> -1"
    and s: "s = (settled m)\<lparr>sess_stk := snd (bt_stack_push (sess_stk (tm_srv m)) ix)\<rparr>" using st by simp_all
  then have "m' = goto t (C_unlock None ENOMEM) ((tm_srv m)\<lparr>sess_stk := snd (bt_stack_push (sess_stk (tm_srv m)) ix)\<rparr>) m"
    using c C_push by (simp add: push_or_bug_def Let_def split_def)
  then show ?thesis using t C_push s by (intro exI [of _ s]) (simp add: effect_def goto_settled)
qed (rule exI [of _ s], use st c q t in \<open>auto simp: effect_def goto_settled lock_settled Let_def\<close>)+

lemma holder_delete:
  assumes inv: "sess_inv s" and t: "t < length (tm_pc m)" and st: "mid K (tm_pc m ! t) s (settled m)"
    and r: "\<forall>op. abs_pc (tm_pc m ! t) = A_Called op \<longrightarrow> ready s op"
    and q: "in_stk (tm_pc m ! t)" and c: "delete_step emerg t (tm_pc m ! t) m = Some m'"
  shows "\<exists>s'. effect K (tm_pc m ! t) s (tm_pc m' ! t) s'
    \<and> (if in_stk (tm_pc m' ! t) then mid K (tm_pc m' ! t) s' (settled m') else settled m' = s')"
proof (cases "tm_pc m ! t")
  case (D_push i)
  then have s: "settled m = s" and i: "i \<in> conn s" using st r by simp_all
  let ?stk = "snd (bt_stack_push (sess_stk (tm_srv m)) (idx (sess_arr (tm_srv m) ! i)))"
  have "fst (bt_stack_push (sess_stk (tm_srv m)) (idx (sess_arr (tm_srv m) ! i))) \<noteq> -1" "sess_map (tm_srv m) \<noteq> None"
    using push_effect [OF inv i] by (auto simp flip: s)
  then have "m' = goto t (D_remove_lock i) ((tm_srv m)\<lparr>sess_stk := ?stk\<rparr>) m"
    using c D_push by (auto simp: push_or_bug_def Let_def split_def)
  then show ?thesis using t D_push by (intro exI [of _ s]) (auto simp: effect_def goto_settled simp flip: s)
next
  case (D_remove_lock i)
  then have l: "lock_map t (D_remove i) m = Some m'" using c by simp
  then have "settled m' = settled m" using t D_remove_lock by (intro lock_settled(2) [of t m "D_remove i"]) simp_all
  then show ?thesis using l st t D_remove_lock by (intro exI [of _ s]) (simp add: effect_def)
next
  case (D_remove i)
  obtain ret x' where rem: "remove_sess_from_bkt i (settled m) = (ret, x')" by fastforce
  have m': "m' = goto t (D_remove_unlock i ret) (snd (remove_sess_from_bkt i (tm_srv m))) m"
    using c D_remove arg_cong [OF rem, of fst] by (simp add: split_def)
  have i: "i \<in> conn s" and mm: "mid K (D_remove i) s (settled m)" using r st D_remove by simp_all
  have "settled m' = x'" using arg_cong [OF rem, of snd] t D_remove unfolding m' by (subst goto_settled) simp_all
  then show ?thesis using remove_effect [OF inv i mm rem] t D_remove m' by simp
next
  case (D_unlock ret)
  then have m': "m' = unlock_stk t (D_sub ret) m" and s: "s = (settled m)\<lparr>n_on_sess := n_on_sess (settled m) - 1\<rparr>"
    using c st by simp_all
  have "pending m' = pending m + 1"
    using pending_update [of m' m t "D_sub ret"] t D_unlock m' by (simp add: unlock_stk_def goto_def)
  moreover have "tm_srv m' = tm_srv m" by (simp add: m' unlock_stk_def goto_def)
  ultimately have "settled m' = s" by (simp add: s sub_n_def algebra_simps)
  then show ?thesis using t D_unlock m' by (intro exI [of _ s]) (simp add: effect_def)
qed (rule exI [of _ s], use st c q t in \<open>auto simp: effect_def goto_settled lock_settled Let_def\<close>)+

text \<open>The other threads: they take the first lock, search the map or decrement the counter.\<close>

lemma outside_step:
  assumes t: "t < length (tm_pc m)" and q: "\<not> in_stk (tm_pc m ! t)" and c: "sess_step emerg K t m = Some m'"
    and look: "lookup_udp_sess (tm_srv m) = lookup_udp_sess s"
  shows "effect K (tm_pc m ! t) s (tm_pc m' ! t) s \<and> settled m' = settled m
    \<and> (in_stk (tm_pc m' ! t) \<longrightarrow> mid K (tm_pc m' ! t) (settled m) (settled m))"
proof (cases "tm_pc m ! t")
  case (C_lock a p)
  then have "lock_stk t (C_pop a p) m = Some m'" using c by (simp add: sess_step_def)
  then show ?thesis using t C_lock lock_settled(1) [of t m "C_pop a p" m'] by (simp add: effect_def)
next
  case (D_lock i)
  then have "lock_stk t (D_push i) m = Some m'" using c by (simp add: sess_step_def)
  then show ?thesis using t D_lock lock_settled(1) [of t m "D_push i" m'] by (simp add: effect_def)
next
  case (L_lock a p)
  then have "lock_map t (L_search a p) m = Some m'" using c by (simp add: sess_step_def)
  then show ?thesis using t L_lock lock_settled(2) [of t m "L_search a p" m'] by (simp add: effect_def)
next
  case (L_search a p)
  then have "m' = goto t (L_unlock (lookup_udp_sess s a p)) (tm_srv m) m" using c look by (simp add: sess_step_def)
  then show ?thesis using t L_search by (simp add: effect_def goto_settled)
next
  case (L_unlock r)
  then have "m' = unlock_map t (Done (R_Lookup r)) m" using c by (simp add: sess_step_def)
  then show ?thesis using t L_unlock by (simp add: effect_def lock_settled)
next
  case (D_sub r)
  then have m': "m' = goto t (Done (R_Delete r)) ((tm_srv m)\<lparr>n_on_sess := n_on_sess (tm_srv m) - 1\<rparr>) m"
    using c by (simp add: sess_step_def)
  have "pending m = pending m' + 1"
    using pending_update [of m' m t "Done (R_Delete r)"] t D_sub m' by (simp add: goto_def)
  then have "settled m' = settled m" by (simp add: m' sub_n_def goto_def)
  then show ?thesis using t D_sub m' by (simp add: effect_def)
qed (use q c in \<open>simp_all add: sess_step_def\<close>)

definition refines_atomic :: "kernel \<Rightarrow> table_machine \<Rightarrow> srv_udp_state \<Rightarrow> bool" where
  "refines_atomic K m s \<longleftrightarrow> owners_ok m \<and> Bug \<notin> set (tm_pc m) \<and> sess_inv s \<and> state_ok K m s \<and> single_claims m
     \<and> (\<forall>t < length (tm_pc m). \<forall>op. abs_pc (tm_pc m ! t) = A_Called op \<longrightarrow> ready s op)"

lemma state_ok_step:
  assumes R: "refines_atomic K m s" and t: "t < length (tm_pc m)" and c: "sess_step emerg K t m = Some m'"
  shows "\<exists>s'. effect K (tm_pc m ! t) s (tm_pc m' ! t) s' \<and> state_ok K m' s'"
proof -
  have o: "owners_ok m" and inv: "sess_inv s" and st: "state_ok K m s"
    and r: "\<forall>op. abs_pc (tm_pc m ! t) = A_Called op \<longrightarrow> ready s op" using R t by (simp_all add: refines_atomic_def)
  have step: "table_step emerg K owned t m m'" using t c by (rule proceed)
  have pc: "tm_pc m' = (tm_pc m)[t := tm_pc m' ! t]" using moves_pc sess_step_moves [OF c t] by blast
  have own: "mutex (tm_stk_lock m') = (if in_stk (tm_pc m' ! t) then Some t else if in_stk (tm_pc m ! t) then None else mutex (tm_stk_lock m))"
    by (rule stk.owner_after [OF step _ pc]) (use o in \<open>simp add: owners_ok_def\<close>)
  show ?thesis
  proof (cases "in_stk (tm_pc m ! t)")
    case True
    then have "mutex (tm_stk_lock m) = Some t" using o t by (simp add: owners_ok_def)
    then have mid: "mid K (tm_pc m ! t) s (settled m)" using st by (simp add: state_ok_def)
    have "create_step emerg K t (tm_pc m ! t) m = Some m' \<or> delete_step emerg t (tm_pc m ! t) m = Some m'"
      using c True by (cases "tm_pc m ! t") (simp_all add: sess_step_def)
    then obtain s' where "effect K (tm_pc m ! t) s (tm_pc m' ! t) s'"
        "if in_stk (tm_pc m' ! t) then mid K (tm_pc m' ! t) s' (settled m') else settled m' = s'"
      using holder_create [OF inv t mid r True] holder_delete [OF inv t mid r True] by blast
    then show ?thesis using own True by (intro exI [of _ s']) (auto simp: state_ok_def)
  next
    case False
    note out = outside_step [OF t False c state_ok_lookup [OF st inv]]
    show ?thesis
    proof (cases "in_stk (tm_pc m' ! t)")
      case True
      have "mutex (tm_stk_lock m) = None" using stk.entered_free [OF step pc False True] .
      then have "settled m = s" using st by (simp add: state_ok_def)
      then show ?thesis using out own True by (intro exI [of _ s]) (auto simp: state_ok_def)
    next
      case out': False
      have "tm_pc m' ! u = tm_pc m ! u" if "mutex (tm_stk_lock m) = Some u" for u
        using that False stk_owner [OF o, of u] by (cases "u = t") (simp, subst pc, simp)
      then show ?thesis using out own out' False st by (intro exI [of _ s]) (auto simp: state_ok_def split: option.splits)
    qed
  qed
qed

text \<open>A session that looks connected is connected in the specification, or is being deleted.\<close>

lemma mid_conn:
  assumes "mid K q s x" and "i \<in> conn x"
  shows "i \<in> conn s \<or> claim q = Some (Delete i)"
proof -
  have "i \<in> conn s" if "mid K (C_connected ix) s x" "i \<in> conn x" for ix x
    using that by (auto simp: Let_def conn_def nth_upd)
  moreover have "i \<in> conn (snd (udp_sess_update_last_act K j x))" if "i \<in> conn x" for j x
    using that update_last_act_eq [of K j x] by (auto simp: conn_def nth_upd)
  moreover have "i \<in> conn (upd_sess j (\<lambda>x. x\<lparr>str_src_addr := f\<rparr>) x)" if "i \<in> conn x" for j f x
    using that by (auto simp: conn_def nth_upd)
  ultimately have n: "i \<in> conn s" if "mid K (C_act ix) s x \<or> mid K (C_name a ix) s x" "i \<in> conn x" for a ix x
    using that by (metis mid.simps(7,8))
  show ?thesis
  proof (cases q)
    case (C_insert_unlock a ix r)
    then show ?thesis using assms n [of ix x a] by (cases r) (simp_all add: conn_def del: mid.simps(7,8))
  next
    case (C_act ix)
    then show ?thesis using assms n by blast
  next
    case (C_name a ix)
    then show ?thesis using assms n by blast
  qed (use assms in \<open>auto simp: conn_def nth_upd Let_def split: if_splits\<close>)
qed

lemma checked_ready:
  assumes R: "refines_atomic K m s" and o: "owned m op"
  shows "ready s op"
proof (cases op)
  case (Create a p)
  have "state_ok K m s" "sess_inv s" using R by (simp_all add: refines_atomic_def)
  from state_ok_lookup [OF this] show ?thesis using o Create by (simp add: owned_def)
next
  case (Delete i)
  have ow: "owners_ok m" and st: "state_ok K m s" using R by (simp_all add: refines_atomic_def)
  have i: "i \<in> conn (settled m)" using o Delete by (simp add: owned_def conn_def)
  show ?thesis
  proof (cases "mutex (tm_stk_lock m)")
    case None
    then show ?thesis using st i Delete by (auto simp: state_ok_def)
  next
    case (Some u)
    then have "tm_pc m ! u \<in> set (tm_pc m)" using stk_owner [OF ow] by simp
    then have "claim (tm_pc m ! u) \<noteq> Some (Delete i)" using o Delete by (simp add: owned_def)
    then show ?thesis using mid_conn [of K "tm_pc m ! u" s "settled m" i] st i Some Delete by (simp add: state_ok_def)
  qed
qed simp

lemma effect_atomic:
  assumes e: "effect K q s q' s'" and t: "t < length (tm_pc m)" "tm_pc m ! t = q" "tm_pc m' = (tm_pc m)[t := q']"
  shows "(atomic_step K)\<^sup>*\<^sup>* \<lparr>am_srv = s, am_pc = map abs_pc (tm_pc m)\<rparr> \<lparr>am_srv = s', am_pc = map abs_pc (tm_pc m')\<rparr>"
  using e unfolding effect_def
proof (elim disjE conjE exE)
  assume "s' = s" "abs_pc q' = abs_pc q"
  moreover from this(2) have "map abs_pc (tm_pc m') = map abs_pc (tm_pc m)"
    using t by (simp add: map_update) (metis list_update_id map_update nth_map)
  ultimately show ?thesis by simp
next
  fix op r assume "abs_pc q = A_Called op" "exec_op K op s = (r, s')" "abs_pc q' = A_Done r"
  then have "atomic_step K \<lparr>am_srv = s, am_pc = map abs_pc (tm_pc m)\<rparr> \<lparr>am_srv = s', am_pc = map abs_pc (tm_pc m')\<rparr>"
    using a_exec [of t "\<lparr>am_srv = s, am_pc = map abs_pc (tm_pc m)\<rparr>" op K r s'] t by (simp add: map_update)
  then show ?thesis by blast
qed

lemma ready_after:
  assumes R: "refines_atomic K m s" and e: "effect K (tm_pc m ! t) s q' s'" and t: "t < length (tm_pc m)"
    and nb: "q' \<noteq> Bug" and m': "tm_pc m' = (tm_pc m)[t := q']" and o: "owners_ok m'" "state_ok K m' s'" "single_claims m'"
  shows "refines_atomic K m' s'"
proof -
  have inv: "sess_inv s" and sc: "single_claims m" and b: "Bug \<notin> set (tm_pc m)"
    and rd: "\<And>u op. u < length (tm_pc m) \<Longrightarrow> abs_pc (tm_pc m ! u) = A_Called op \<Longrightarrow> ready s op"
    using R by (auto simp: refines_atomic_def)
  have "sess_inv s' \<and> (\<forall>u < length (tm_pc m). u \<noteq> t \<longrightarrow> (\<forall>op. abs_pc (tm_pc m ! u) = A_Called op \<longrightarrow> ready s' op))
      \<and> (\<forall>op. abs_pc q' = A_Called op \<longrightarrow> ready s' op)"
    using e unfolding effect_def
  proof (elim disjE conjE exE)
    assume "s' = s" "abs_pc q' = abs_pc (tm_pc m ! t)"
    then show ?thesis using inv rd t by auto
  next
    fix op r assume x: "abs_pc (tm_pc m ! t) = A_Called op" "exec_op K op s = (r, s')" "abs_pc q' = A_Done r" "ready s op"
    have "ready s' op'" if u: "u < length (tm_pc m)" "u \<noteq> t" "abs_pc (tm_pc m ! u) = A_Called op'" for u op'
    proof -
      have "op \<noteq> op' \<or> (\<exists>a p. op' = Lookup a p)"
        using called_claim [OF u(3)] called_claim [OF x(1)] sc t u(1,2) unfolding single_claims_def by metis
      then show ?thesis using exec_ready [OF inv x(4) rd [OF u(1,3)] _ x(2)] by blast
    qed
    moreover have "sess_inv s'" using exec_ready [OF inv x(4), of "Lookup 0 0"] x(2) by auto
    ultimately show ?thesis using x(3) by auto
  qed
  moreover have "Bug \<notin> set (tm_pc m')" using b nb set_update_subset_insert [of "tm_pc m" t q'] m' by auto
  ultimately show ?thesis using o t by (auto simp: refines_atomic_def m' nth_list_update)
qed

lemma goto_state:
  assumes "owners_ok m" and "state_ok K m s" and t: "t < length (tm_pc m)"
    and q: "\<not> in_stk (tm_pc m ! t)" "\<not> subtracting (tm_pc m ! t)" "\<not> subtracting q"
  shows "state_ok K (goto t q (tm_srv m) m) s"
proof (cases "mutex (tm_stk_lock m)")
  case None
  have "settled (goto t q (tm_srv m) m) = s" using goto_settled [OF t q(2,3)] assms(2) None by (simp add: state_ok_def)
  then show ?thesis using None by (simp add: state_ok_def goto_def)
next
  case (Some u)
  then have "u \<noteq> t" using stk_owner [OF assms(1)] q(1) by blast
  then have "mid K (tm_pc (goto t q (tm_srv m) m) ! u) s (settled (goto t q (tm_srv m) m))"
    using goto_settled [OF t q(2,3), of "tm_srv m"] assms(2) Some by (simp add: state_ok_def) (simp add: goto_def)
  then show ?thesis using Some by (simp add: state_ok_def goto_def)
qed

lemma start_not_subtracting [simp]: "\<not> subtracting (start op)" "Bug \<noteq> start op"
  by (cases op; simp)+

lemma table_step_simulated:
  assumes R: "refines_atomic K m s" and st: "table_step emerg K owned t m m'"
  shows "\<exists>s'. refines_atomic K m' s' \<and>
    (atomic_step K)\<^sup>*\<^sup>* \<lparr>am_srv = s, am_pc = map abs_pc (tm_pc m)\<rparr> \<lparr>am_srv = s', am_pc = map abs_pc (tm_pc m')\<rparr>"
proof -
  have o': "owners_ok m'" and sc': "single_claims m'" and ok: "state_ok K m s"
    using R owners_step [OF st] single_claims_step [OF st] by (simp_all add: refines_atomic_def)
  have t: "t < length (tm_pc m)" and pc: "tm_pc m' = (tm_pc m)[t := tm_pc m' ! t]"
    using moves_pc table_step_moves [OF st] by blast+
  show ?thesis
    using st
  proof cases
    case proceed
    from state_ok_step [OF R t proceed(2)] obtain s' where
      e: "effect K (tm_pc m ! t) s (tm_pc m' ! t) s'" and ok': "state_ok K m' s'" by blast
    have "tm_pc m' ! t \<noteq> Bug"
    proof
      assume "tm_pc m' ! t = Bug"
      then have "abs_pc (tm_pc m ! t) = A_Idle" using e by (auto simp: effect_def)
      then show False using proceed(2) by (cases "tm_pc m ! t") (simp_all add: sess_step_def)
    qed
    then show ?thesis using ready_after [OF R e t _ pc o' ok' sc'] effect_atomic [OF e t refl pc] by blast
  next
    case (call op)
    have "state_ok K m' s" using goto_state [OF _ ok t, of "start op"] call R by (simp add: refines_atomic_def)
    moreover have "ready s op" using checked_ready [OF R call(4)] .
    ultimately have "refines_atomic K m' s"
      using R o' sc' call t set_update_subset_insert [of "tm_pc m" t "start op"]
      by (auto simp: refines_atomic_def goto_def nth_list_update)
    moreover have "atomic_step K \<lparr>am_srv = s, am_pc = map abs_pc (tm_pc m)\<rparr> \<lparr>am_srv = s, am_pc = map abs_pc (tm_pc m')\<rparr>"
      using a_call [of t "\<lparr>am_srv = s, am_pc = map abs_pc (tm_pc m)\<rparr>" K op] call by (simp add: goto_def map_update)
    ultimately show ?thesis by blast
  next
    case (return r)
    have "state_ok K m' s" using goto_state [OF _ ok t, of Idle] return R by (simp add: refines_atomic_def)
    then have "refines_atomic K m' s"
      using R o' sc' return t set_update_subset_insert [of "tm_pc m" t Idle]
      by (auto simp: refines_atomic_def goto_def nth_list_update)
    moreover have "atomic_step K \<lparr>am_srv = s, am_pc = map abs_pc (tm_pc m)\<rparr> \<lparr>am_srv = s, am_pc = map abs_pc (tm_pc m')\<rparr>"
      using a_return [of t "\<lparr>am_srv = s, am_pc = map abs_pc (tm_pc m)\<rparr>" r K] return by (simp add: goto_def map_update)
    ultimately show ?thesis by blast
  qed
qed

definition table_rel :: "kernel \<Rightarrow> table_machine \<Rightarrow> atomic_machine \<Rightarrow> bool" where
  "table_rel K m A \<longleftrightarrow> refines_atomic K m (am_srv A) \<and> am_pc A = map abs_pc (tm_pc m)"

interpretation ts: simulation "\<lambda>m m'. \<exists>t. table_step emerg K owned t m m'" "atomic_step K" "table_rel K" for emerg K
proof
  fix m A m' assume "table_rel K m A" and "\<exists>t. table_step emerg K owned t m m'"
  moreover obtain s ps where "A = \<lparr>am_srv = s, am_pc = ps\<rparr>" by (cases A) auto
  ultimately show "\<exists>A'. table_rel K m' A' \<and> (atomic_step K)\<^sup>*\<^sup>* A A'"
    using table_step_simulated unfolding table_rel_def by (metis atomic_machine.select_convs)
qed

section \<open>Properties\<close>

lemma start_rel:
  assumes "sess_inv s"
  shows "table_rel K (table_start n s) \<lparr>am_srv = s, am_pc = replicate n A_Idle\<rparr>"
proof -
  have "state_ok K (table_start n s) s"
    by (simp add: state_ok_def table_start_def mutex_init_def mutex_init_mark_def pending_def sub_n_def)
  moreover have "single_claims (table_start n s)" by (simp add: single_claims_def table_start_def)
  ultimately show ?thesis using assms owners_start [of n s]
    by (simp add: table_rel_def refines_atomic_def table_start_def)
qed

text \<open>
  C20: the operations on the session table are atomic.  Any number of threads create, look up
  and delete sessions, interleaved in any way between the statements of the code, as long as no
  thread starts to work on a session that another is working on.  Then every state they reach
  is explained by the operations of \<open>Session\<close> executed one after the other, each at one moment
  between its call and its return and with the same result; the table of that explanation
  satisfies the invariant, every lookup agrees with it, no thread runs into \<^verbatim>\<open>BUG_ON\<close>, and
  whenever the lock is free it is the actual state, up to the counter that deletions decrement
  after the unlock.
\<close>

theorem session_table_atomic:
  assumes "sess_inv s0" and "table_run emerg K owned (table_start n s0) m"
  shows "\<exists>s. (atomic_step K)\<^sup>*\<^sup>* \<lparr>am_srv = s0, am_pc = replicate n A_Idle\<rparr> \<lparr>am_srv = s, am_pc = map abs_pc (tm_pc m)\<rparr>
    \<and> sess_inv s \<and> Bug \<notin> set (tm_pc m) \<and> lookup_udp_sess (tm_srv m) = lookup_udp_sess s
    \<and> (mutex (tm_stk_lock m) = None \<longrightarrow> tm_srv m = s\<lparr>n_on_sess := n_on_sess s + pending m\<rparr>)"
proof -
  obtain A where r: "table_rel K m A" and a: "(atomic_step K)\<^sup>*\<^sup>* \<lparr>am_srv = s0, am_pc = replicate n A_Idle\<rparr> A"
    using ts.run_simulates [OF assms(2) start_rel [OF assms(1)]] by blast
  define s where "s = am_srv A"
  have A: "A = \<lparr>am_srv = s, am_pc = map abs_pc (tm_pc m)\<rparr>" using r by (simp add: table_rel_def s_def)
  have s: "sess_inv s" "Bug \<notin> set (tm_pc m)" "state_ok K m s" using r by (simp_all add: table_rel_def refines_atomic_def s_def)
  have "tm_srv m = s\<lparr>n_on_sess := n_on_sess s + pending m\<rparr>" if "mutex (tm_stk_lock m) = None"
    using s(3) that by (auto simp: state_ok_def sub_n_def)
  then show ?thesis using a [unfolded A] s(1,2) state_ok_lookup [OF s(3,1)] by (intro exI [of _ s] conjI impI)
qed

text \<open>
  Witness of C20: one thread looks a client up while another is creating its session and has
  not yet entered it into the map.
\<close>

theorem session_table_atomic_witness:
  "\<exists>m s. table_schedule True silent_kernel [0, 0, 0, 1, 1, 1] (two_calls (Create 1 2) (Lookup 1 2) (fresh_table 2)) = Some m
     \<and> tm_pc m ! 1 = Done (R_Lookup None) \<and> sess_inv s \<and> lookup_udp_sess (tm_srv m) = lookup_udp_sess s"
proof -
  have pop: "bt_stack_pop (sess_stk (fresh_table 2)) = (0, (sess_stk (fresh_table 2))\<lparr>sp := 1\<rparr>)"
    by (simp add: fresh_table_def bt_stack_pop_def)
  have look: "lookup_udp_sess (upd_sess 0 f ((fresh_table 2)\<lparr>sess_stk := x\<rparr>)) 1 2 = None" for f x
    by (simp add: lookup_udp_sess_def smap_def frame split: prod.splits) (simp add: fresh_table_def)
  obtain m where m: "table_schedule True silent_kernel [0, 0, 0, 1, 1, 1] (two_calls (Create 1 2) (Lookup 1 2) (fresh_table 2)) = Some m"
      "tm_pc m ! 1 = Done (R_Lookup None)"
    by (auto simp: sess_step_def lock_defs table_start_def mutex_init_def mutex_init_mark_def mutex_lock_def mutex_unlock_def
        Let_def pop look)
  have "table_run True silent_kernel owned (table_start 2 (fresh_table 2)) m"
    by (rule two_calls_run [OF _ _ m(1)]) (simp_all add: owned_def table_start_def fresh_lookup)
  from session_table_atomic [OF fresh_table_inv this] obtain s where
    "sess_inv s" "lookup_udp_sess (tm_srv m) = lookup_udp_sess s" by (elim exE conjE)
  with m show ?thesis by (intro exI [of _ m] exI [of _ s] conjI)
qed

text \<open>
  What the server does not ensure: the reaper (\<^verbatim>\<open>zr_close_sess\<close>) and the worker that handles a
  close packet (\<^verbatim>\<open>close_udp_session\<close>) check that a session is connected before they delete it, but
  neither holds a lock in between.
\<close>

lemma bug_stays:
  assumes "table_run emerg K G m m'" and "owners_ok m" and "u < length (tm_pc m)" and "tm_pc m ! u = Bug"
  shows "owners_ok m' \<and> u < length (tm_pc m') \<and> tm_pc m' ! u = Bug"
  using assms
proof (induction rule: rtranclp_induct)
  case (step m1 m2)
  then obtain t where st: "table_step emerg K G t m1 m2" by blast
  have m1: "owners_ok m1" "u < length (tm_pc m1)" "tm_pc m1 ! u = Bug" using step by blast+
  have pc: "tm_pc m2 = (tm_pc m1)[t := tm_pc m2 ! t]" using moves_pc table_step_moves [OF st] by blast
  have "t \<noteq> u" using st m1(3) by cases (auto simp: sess_step_def)
  then have "tm_pc m2 ! u = Bug" using m1(3) by (subst pc) simp
  then show ?case using owners_step [OF st m1(1)] m1(2) arg_cong [OF pc, of length] by simp
qed simp

lemma empty_table_stack_full:
  assumes "sess_inv x" and "conn x = {}"
  shows "bt_stack_push (sess_stk x) n = (-1, sess_stk x)"
proof (rule bt.push_full)
  have ok: "slots_ok x" using assms(1) by (simp add: sess_inv_def)
  then show "stk_ok (sess_stk x)" by (simp add: slots_ok_def)
  have "inj_on unat (set (stk_list (sess_stk x)))" by (simp add: inj_on_def word_unat_eq_iff)
  moreover have "distinct (stk_list (sess_stk x))" using ok by (simp add: slots_ok_def)
  ultimately have "length (stk_list (sess_stk x)) = card (unat ` set (stk_list (sess_stk x)))"
    by (simp add: card_image distinct_card)
  then show "length (stk_list (sess_stk x)) = unat (max_sp (sess_stk x))" using ok assms(2) by (simp add: slots_ok_def)
qed

text \<open>
  C22: two threads that delete the same session.  If a worker and the reaper have both seen the
  only connected session and both delete it, the second of them can find the stack of free
  slots full; it then sleeps for ever in the \<^verbatim>\<open>BUG()\<close> of \<open>delete_udp_session\<close> and keeps
  \<open>sess_stk_lock\<close>, so that no thread creates or deletes a session any more.
\<close>

theorem double_close_hangs:
  assumes inv: "sess_inv s" and i: "conn s = {i}"
  shows "\<exists>m. table_run True K checked (table_start 2 s) m
    \<and> (\<forall>G m'. table_run True K G m m' \<longrightarrow> tm_pc m' ! 1 = Bug \<and> mutex (tm_stk_lock m') = Some 1)"
proof -
  have ic: "i \<in> conn s" using i by simp
  from push_delete_room [OF inv ic] obtain stk where
    p: "bt_stack_push (sess_stk s) (idx (sess_arr s ! i)) = (int i, stk)" by auto
  obtain sm where sm: "sess_map s = Some sm" using push_effect(2) [OF inv ic] by auto
  define x where "x = snd (delete_udp_session i s)"
  have x: "sess_inv x" "conn x = {}" using delete_spec [OF inv ic] i by (simp_all add: x_def)
  let ?m = "two_calls (Delete i) (Delete i) s"
  obtain m where m: "table_schedule True K [0, 0, 0, 0, 0, 0, 0, 0, 1] ?m = Some m" "tm_srv m = x" "tm_pc m = [Done (R_Delete (fst (delete_udp_session i s))), D_push i]"
    by (auto simp: sess_step_def lock_defs table_start_def mutex_init_def mutex_init_mark_def mutex_lock_def mutex_unlock_def
        Let_def p sm x_def delete_udp_session_def split_def frame)
  then obtain m2 where m2: "table_schedule True K [1] m = Some m2" "tm_pc m2 ! 1 = Bug" "1 < length (tm_pc m2)"
    using empty_table_stack_full [OF x] by (auto simp: sess_step_def push_or_bug_def goto_def Let_def)
  have "table_run True K checked (table_start 2 s) m"
    by (rule two_calls_run [OF _ _ m(1)]) (use ic in \<open>simp_all add: table_start_def conn_def\<close>)
  then have r: "table_run True K checked (table_start 2 s) m2"
    using table_schedule_run [OF m2(1)] by (rule rtranclp_trans)
  have o: "owners_ok m2" using r by (rule owners_run)
  have "tm_pc m' ! 1 = Bug \<and> mutex (tm_stk_lock m') = Some 1" if "table_run True K G m2 m'" for G m'
    using bug_stays [OF that o m2(3,2)] stk_owner [of m' 1] by simp
  then have "\<forall>G m'. table_run True K G m2 m' \<longrightarrow> tm_pc m' ! 1 = Bug \<and> mutex (tm_stk_lock m') = Some 1" by blast
  then show ?thesis using r by (intro exI [of _ m2] conjI)
qed

text \<open>Witness of C22: the only client of a fresh table.\<close>

theorem double_close_hangs_witness:
  "\<exists>s m. conn s = {0} \<and> table_run True silent_kernel checked (table_start 2 s) m \<and> tm_pc m ! 1 = Bug"
proof -
  obtain err s where c: "create_udp_sess silent_kernel 0x0a000001 5000 (fresh_table 2) = (Some 0, err, s)"
    using fresh_create by (metis prod.exhaust fst_conv)
  have n: "sess_abs (fresh_table 2) (0x0a000001, 5000) = None" by (rule fresh_table_empty)
  have "conn (fresh_table 2) = {}" by (auto simp: conn_def fresh_table_def)
  then have s: "sess_inv s" "conn s = {0}" using st.create_law [OF fresh_table_inv n, of silent_kernel 0 s] c by simp_all
  from double_close_hangs [OF s] obtain m where m: "table_run True silent_kernel checked (table_start 2 s) m"
      "\<forall>G m'. table_run True silent_kernel G m m' \<longrightarrow> tm_pc m' ! 1 = Bug \<and> mutex (tm_stk_lock m') = Some 1" by blast
  have "tm_pc m ! 1 = Bug" using m(2) [rule_format, of checked m] by simp
  then show ?thesis using s(2) m(1) by (intro exI [of _ s] exI [of _ m] conjI)
qed

end
