(* ===== verification/Print.thy ===== *)
theory Print
  imports Mutex
begin

text \<open>
  The messages of \<^verbatim>\<open>src/teavpn2/print.c\<close> and \<^verbatim>\<open>print.h\<close>: which are printed, what a line looks
  like, and that the lines of different threads are never mixed.  A message is a string with
  its format already expanded.  The C library's \<^verbatim>\<open>asctime(localtime(...))\<close> is the parameter
  \<open>now\<close>: its \<open>n\<close>-th call of a run returns \<open>now n\<close>.
\<close>

section \<open>Messages\<close>

text \<open>The five functions \<^verbatim>\<open>__pr_notice\<close>, \<^verbatim>\<open>__pr_error\<close>, \<^verbatim>\<open>__pr_emerg\<close>, \<^verbatim>\<open>__pr_debug\<close>, \<^verbatim>\<open>__pr_warn\<close>.\<close>

datatype pr_kind = Pr_Notice | Pr_Error | Pr_Emerg | Pr_Debug | Pr_Warn

fun pr_prefix :: "pr_kind \<Rightarrow> string" where
  "pr_prefix Pr_Notice = ''''"
| "pr_prefix Pr_Error = ''Error: ''"
| "pr_prefix Pr_Emerg = ''Emergency: ''"
| "pr_prefix Pr_Debug = ''Debug: ''"
| "pr_prefix Pr_Warn = ''Warning: ''"

text \<open>
  \<open>get_time\<close> drops the newline at the end of the time, of which it reads 32 characters at most;
  \<^verbatim>\<open>asctime\<close> never returns an empty string.
\<close>

definition get_time :: "string \<Rightarrow> string" where
  "get_time time_chr = take (min (length time_chr) 32 - 1) time_chr"

definition pr_head :: "pr_kind \<Rightarrow> string \<Rightarrow> string" where
  "pr_head k buf = ''['' @ buf @ ''] '' @ pr_prefix k"

definition pr_line :: "pr_kind \<Rightarrow> string \<Rightarrow> string \<Rightarrow> string" where
  "pr_line k buf msg = pr_head k buf @ msg @ [CHR 0x0A]"

text \<open>Whether \<^verbatim>\<open>prl_notice(level, ...)\<close> prints, with the level set by \<^verbatim>\<open>set_notice_level\<close>.\<close>

definition prl_notice :: "u8 \<Rightarrow> u8 \<Rightarrow> bool" where
  "prl_notice notice_level level \<longleftrightarrow> \<not> level > 5 \<and> \<not> level > notice_level"

text \<open>A line fits its buffer of 32 bytes, and nothing above level 5 is ever printed.\<close>

lemma get_time_fits: "length (get_time s) < 32"
  by (simp add: get_time_def)

lemma prl_notice_max: "prl_notice n l \<Longrightarrow> l \<le> 5 \<and> l \<le> n"
  by (simp add: prl_notice_def not_less)

section \<open>Threads that print\<close>

datatype print_pc =
    P_Idle
  | P_lock pr_kind string
  | P_time_lock pr_kind string
  | P_time pr_kind string
  | P_time_unlock pr_kind string string
  | P_head pr_kind string string
  | P_body pr_kind string string
  | P_newline pr_kind string string
  | P_unlock

record print_machine =
  out_chars :: string
  print_lock :: tmutex
  get_time_lock :: tmutex
  pm_times :: nat
  pm_pc :: "print_pc list"

abbreviation pr_goto :: "nat \<Rightarrow> print_pc \<Rightarrow> print_machine \<Rightarrow> print_machine" where
  "pr_goto t q m \<equiv> m\<lparr>pm_pc := (pm_pc m)[t := q]\<rparr>"

fun pr_step :: "(nat \<Rightarrow> string) \<Rightarrow> nat \<Rightarrow> print_pc \<Rightarrow> print_machine \<Rightarrow> print_machine option" where
  "pr_step now t (P_lock k msg) m =
     map_option (\<lambda>(r, l). (pr_goto t (P_time_lock k msg) m)\<lparr>print_lock := l\<rparr>) (mutex_lock t (print_lock m))"
| "pr_step now t (P_time_lock k msg) m =
     map_option (\<lambda>(r, l). (pr_goto t (P_time k msg) m)\<lparr>get_time_lock := l\<rparr>) (mutex_lock t (get_time_lock m))"
| "pr_step now t (P_time k msg) m =
     Some ((pr_goto t (P_time_unlock k msg (get_time (now (pm_times m)))) m)\<lparr>pm_times := pm_times m + 1\<rparr>)"
| "pr_step now t (P_time_unlock k msg buf) m =
     Some ((pr_goto t (P_head k msg buf) m)\<lparr>get_time_lock := snd (mutex_unlock (get_time_lock m))\<rparr>)"
| "pr_step now t (P_head k msg buf) m =
     Some ((pr_goto t (P_body k msg buf) m)\<lparr>out_chars := out_chars m @ pr_head k buf\<rparr>)"
| "pr_step now t (P_body k msg buf) m =
     Some ((pr_goto t (P_newline k msg buf) m)\<lparr>out_chars := out_chars m @ msg\<rparr>)"
| "pr_step now t (P_newline k msg buf) m =
     Some ((pr_goto t P_unlock m)\<lparr>out_chars := out_chars m @ [CHR 0x0A]\<rparr>)"
| "pr_step now t P_unlock m =
     Some ((pr_goto t P_Idle m)\<lparr>print_lock := snd (mutex_unlock (print_lock m))\<rparr>)"
| "pr_step now t P_Idle m = None"

text \<open>A thread proceeds, or calls one of the five functions.\<close>

inductive print_step :: "(nat \<Rightarrow> string) \<Rightarrow> nat \<Rightarrow> print_machine \<Rightarrow> print_machine \<Rightarrow> bool" for now t where
  pr_proceed: "t < length (pm_pc m) \<Longrightarrow> pr_step now t (pm_pc m ! t) m = Some m' \<Longrightarrow> print_step now t m m'"
| pr_call: "t < length (pm_pc m) \<Longrightarrow> pm_pc m ! t = P_Idle \<Longrightarrow> print_step now t m (pr_goto t (P_lock k msg) m)"

definition print_start :: "nat \<Rightarrow> print_machine" where
  "print_start n = \<lparr>out_chars = '''', print_lock = \<lparr>mutex = None, need_destroy = False\<rparr>,
     get_time_lock = \<lparr>mutex = None, need_destroy = False\<rparr>, pm_times = 0, pm_pc = replicate n P_Idle\<rparr>"

fun printing :: "print_pc \<Rightarrow> bool" where
  "printing P_Idle = False"
| "printing (P_lock k msg) = False"
| "printing _ = True"

lemma pr_step_pc: "pr_step now t p m = Some m' \<Longrightarrow> \<exists>q. pm_pc m' = (pm_pc m)[t := q]"
  by (cases p) auto

interpretation pl: critical_section print_lock pm_pc printing "print_step now" for now
proof
  fix t m m' assume "print_step now t m m'"
  then show "t < length (pm_pc m) \<and> (\<exists>p. pm_pc m' = (pm_pc m)[t := p]
    \<and> (print_lock m' = print_lock m \<and> printing p = printing (pm_pc m ! t)
       \<or> mutex_lock t (print_lock m) = Some (0, print_lock m') \<and> \<not> printing (pm_pc m ! t) \<and> printing p
       \<or> print_lock m' = snd (mutex_unlock (print_lock m)) \<and> printing (pm_pc m ! t) \<and> \<not> printing p))"
  proof cases
    case pr_proceed
    then show ?thesis by (cases "pm_pc m ! t") auto
  qed auto
qed

section \<open>The log as a sequence of lines\<close>

text \<open>The specification: a call is pending until its whole line is printed at one moment.\<close>

record log_state =
  lg_out :: string
  lg_calls :: "(pr_kind \<times> string) option list"

inductive log_step :: "(nat \<Rightarrow> string) \<Rightarrow> log_state \<Rightarrow> log_state \<Rightarrow> bool" for now where
  lg_call: "t < length (lg_calls L) \<Longrightarrow> lg_calls L ! t = None \<Longrightarrow>
    log_step now L (L\<lparr>lg_calls := (lg_calls L)[t := Some (k, msg)]\<rparr>)"
| lg_print: "t < length (lg_calls L) \<Longrightarrow> lg_calls L ! t = Some (k, msg) \<Longrightarrow>
    log_step now L \<lparr>lg_out = lg_out L @ pr_line k (get_time (now n)) msg, lg_calls = (lg_calls L)[t := None]\<rparr>"

fun pending_call :: "print_pc \<Rightarrow> (pr_kind \<times> string) option" where
  "pending_call P_Idle = None"
| "pending_call P_unlock = None"
| "pending_call (P_lock k msg) = Some (k, msg)"
| "pending_call (P_time_lock k msg) = Some (k, msg)"
| "pending_call (P_time k msg) = Some (k, msg)"
| "pending_call (P_time_unlock k msg buf) = Some (k, msg)"
| "pending_call (P_head k msg buf) = Some (k, msg)"
| "pending_call (P_body k msg buf) = Some (k, msg)"
| "pending_call (P_newline k msg buf) = Some (k, msg)"

text \<open>What the holder of the lock has written of its line, and the time it has read.\<close>

fun written :: "print_pc \<Rightarrow> string" where
  "written (P_body k msg buf) = pr_head k buf"
| "written (P_newline k msg buf) = pr_head k buf @ msg"
| "written _ = ''''"

fun time_read :: "print_pc \<Rightarrow> string option" where
  "time_read (P_time_unlock k msg buf) = Some buf"
| "time_read (P_head k msg buf) = Some buf"
| "time_read (P_body k msg buf) = Some buf"
| "time_read (P_newline k msg buf) = Some buf"
| "time_read _ = None"

definition print_ok :: "(nat \<Rightarrow> string) \<Rightarrow> print_machine \<Rightarrow> bool" where
  "print_ok now m \<longleftrightarrow> (\<forall>u. mutex (print_lock m) = Some u \<longleftrightarrow> u < length (pm_pc m) \<and> printing (pm_pc m ! u))
     \<and> (\<forall>q \<in> set (pm_pc m). \<forall>buf. time_read q = Some buf \<longrightarrow> (\<exists>n. buf = get_time (now n)))"

definition log_rel :: "(nat \<Rightarrow> string) \<Rightarrow> print_machine \<Rightarrow> log_state \<Rightarrow> bool" where
  "log_rel now m L \<longleftrightarrow> print_ok now m \<and> lg_calls L = map pending_call (pm_pc m)
     \<and> out_chars m = lg_out L @ (case mutex (print_lock m) of None \<Rightarrow> '''' | Some u \<Rightarrow> written (pm_pc m ! u))"

lemma outside_written: "\<not> printing q \<Longrightarrow> written q = ''''"
  by (cases q) auto

text \<open>A step keeps the pending calls and adds what its thread writes, or completes a line.\<close>

lemma pr_step_effect:
  assumes "pr_step now t q m = Some m'" and "pm_pc m ! t = q" and t: "t < length (pm_pc m)"
  shows "pending_call (pm_pc m' ! t) = pending_call q \<and> (\<exists>w. written (pm_pc m' ! t) = written q @ w \<and> out_chars m' = out_chars m @ w)
    \<or> (\<exists>k msg buf. q = P_newline k msg buf \<and> pm_pc m' ! t = P_unlock \<and> out_chars m' = out_chars m @ [CHR 0x0A])"
  using assms by (cases q) auto

lemma pr_step_time:
  assumes "pr_step now t q m = Some m'" and "t < length (pm_pc m)" and "time_read (pm_pc m' ! t) = Some buf"
  shows "time_read q = Some buf \<or> buf = get_time (now (pm_times m))"
  using assms by (cases q) auto

lemma print_ok_step:
  assumes st: "print_step now t m m'" and ok: "print_ok now m"
  shows "print_ok now m'"
proof -
  have own: "mutex (print_lock m') = Some u \<longleftrightarrow> u < length (pm_pc m') \<and> printing (pm_pc m' ! u)" for u
    by (rule pl.owner_step [OF st]) (use ok in \<open>simp add: print_ok_def\<close>)
  have old: "\<exists>n. buf = get_time (now n)" if "q \<in> set (pm_pc m)" "time_read q = Some buf" for q buf
    using ok that by (auto simp: print_ok_def)
  have "\<exists>n. buf = get_time (now n)" if b: "q \<in> set (pm_pc m')" "time_read q = Some buf" for q buf
    using st
  proof cases
    case pr_proceed
    obtain q' where q': "pm_pc m' = (pm_pc m)[t := q']" using pr_step_pc [OF pr_proceed(2)] by blast
    then have "q = q' \<or> q \<in> set (pm_pc m)" using b(1) set_update_subset_insert by fastforce
    then show ?thesis
      using old [of q buf] old [of "pm_pc m ! t" buf] pr_step_time [OF pr_proceed(2,1), of buf] q' pr_proceed(1) b(2) by auto
  next
    case (pr_call k msg)
    then have "q = P_lock k msg \<or> q \<in> set (pm_pc m)" using b(1) set_update_subset_insert by fastforce
    then show ?thesis using old [of q buf] b(2) by auto
  qed
  then show ?thesis using own by (auto simp: print_ok_def)
qed

lemma log_simulated:
  assumes R: "log_rel now m L" and st: "print_step now t m m'"
  shows "\<exists>L'. log_rel now m' L' \<and> (log_step now)\<^sup>*\<^sup>* L L'"
proof -
  have ok: "print_ok now m" and calls: "lg_calls L = map pending_call (pm_pc m)"
    and out: "out_chars m = lg_out L @ (case mutex (print_lock m) of None \<Rightarrow> '''' | Some u \<Rightarrow> written (pm_pc m ! u))"
    using R by (simp_all add: log_rel_def)
  have ok': "print_ok now m'" using st ok by (rule print_ok_step)
  have own: "\<forall>u. mutex (print_lock m) = Some u \<longleftrightarrow> u < length (pm_pc m) \<and> printing (pm_pc m ! u)"
    using ok by (simp add: print_ok_def)
  obtain q where t: "t < length (pm_pc m)" and pc: "pm_pc m' = (pm_pc m)[t := q]" using pl.protocol [OF st] by blast
  then have q: "pm_pc m' ! t = q" by simp
  have o': "mutex (print_lock m') = (if printing q then Some t else if printing (pm_pc m ! t) then None else mutex (print_lock m))"
    by (rule pl.owner_after [OF st own pc])
  have wt: "out_chars m = lg_out L @ written (pm_pc m ! t)" if "printing (pm_pc m ! t) \<or> printing q"
  proof (cases "printing (pm_pc m ! t)")
    case True
    then show ?thesis using out own t by (simp add: own [rule_format, THEN iffD2, of t])
  next
    case False
    then show ?thesis using out pl.entered_free [OF st pc False] that outside_written by simp
  qed
  have other: "mutex (print_lock m) = Some u \<Longrightarrow> \<not> printing (pm_pc m ! t) \<Longrightarrow> pm_pc m' ! u = pm_pc m ! u" for u
    using own pc by (cases "u = t") auto
  show ?thesis
    using st
  proof cases
    case (pr_call k msg)
    define L' where "L' = L\<lparr>lg_calls := (lg_calls L)[t := Some (k, msg)]\<rparr>"
    have "log_step now L L'" unfolding L'_def by (rule lg_call) (use pr_call calls in simp_all)
    moreover have "log_rel now m' L'"
      using ok' calls out pr_call other by (auto simp: log_rel_def L'_def map_update split: option.splits)
    ultimately show ?thesis by blast
  next
    case pr_proceed
    show ?thesis
      using pr_step_effect [OF pr_proceed(2) refl t] unfolding q
    proof (elim disjE conjE exE)
      fix w assume w: "pending_call q = pending_call (pm_pc m ! t)" "written q = written (pm_pc m ! t) @ w" "out_chars m' = out_chars m @ w"
      have "map pending_call (pm_pc m') = map pending_call (pm_pc m)"
        using w(1) t pc by (simp add: map_update) (metis list_update_id map_update nth_map)
      moreover have "printing (pm_pc m ! t) \<or> printing q" using pr_proceed(2) q t by (cases "pm_pc m ! t") auto
      ultimately have "log_rel now m' L"
        using ok' calls o' w(2,3) wt outside_written [of q] q by (auto simp: log_rel_def)
      then show ?thesis by blast
    next
      fix k msg buf assume w: "pm_pc m ! t = P_newline k msg buf" "q = P_unlock" "out_chars m' = out_chars m @ [CHR 0x0A]"
      obtain n where n: "buf = get_time (now n)" using ok w(1) nth_mem [OF t] by (fastforce simp: print_ok_def)
      define L' where "L' = \<lparr>lg_out = lg_out L @ pr_line k (get_time (now n)) msg, lg_calls = (lg_calls L)[t := None]\<rparr>"
      have "log_step now L L'" unfolding L'_def by (rule lg_print) (use w t calls in simp_all)
      moreover have "log_rel now m' L'"
        using ok' calls o' w wt n q pc by (simp add: log_rel_def L'_def map_update pr_line_def)
      ultimately show ?thesis by blast
    qed
  qed
qed

interpretation lg: simulation "\<lambda>m m'. \<exists>t. print_step now t m m'" "log_step now" "log_rel now" for now
  by unfold_locales (use log_simulated in blast)

text \<open>
  C37: the lines of different threads are never mixed.  Threads call the five print functions
  in any interleaving.  The output is always a sequence of whole lines, each the line of one
  call with a time that was read during it, followed by what the holder of \<open>print_lock\<close> has
  written of its line; while nobody holds the lock, the output is whole lines only.  Every call
  that is not pending any more has its line there, exactly once.
\<close>

theorem log_lines_whole:
  assumes "(\<lambda>m m'. \<exists>t. print_step now t m m')\<^sup>*\<^sup>* (print_start n) m"
  shows "\<exists>L. (log_step now)\<^sup>*\<^sup>* \<lparr>lg_out = [], lg_calls = replicate n None\<rparr> L
    \<and> lg_calls L = map pending_call (pm_pc m)
    \<and> (case mutex (print_lock m) of None \<Rightarrow> out_chars m = lg_out L
       | Some u \<Rightarrow> out_chars m = lg_out L @ written (pm_pc m ! u))"
proof -
  have "log_rel now (print_start n) \<lparr>lg_out = [], lg_calls = replicate n None\<rparr>"
    by (auto simp: log_rel_def print_ok_def print_start_def)
  from lg.run_simulates [OF assms this] obtain L where
    "log_rel now m L" "(log_step now)\<^sup>*\<^sup>* \<lparr>lg_out = [], lg_calls = replicate n None\<rparr> L" by blast
  then show ?thesis by (auto simp: log_rel_def split: option.splits)
qed

text \<open>Witness of C37: a thread has called \<^verbatim>\<open>pr_err\<close>.\<close>

theorem log_lines_whole_witness:
  "\<exists>m (L :: log_state). (\<lambda>m m'. \<exists>t. print_step (\<lambda>_. ''now'') t m m')\<^sup>*\<^sup>* (print_start 1) m
     \<and> pm_pc m = [P_lock Pr_Error ''x''] \<and> lg_calls L = [Some (Pr_Error, ''x'')] \<and> out_chars m = lg_out L"
proof -
  let ?m = "pr_goto 0 (P_lock Pr_Error ''x'') (print_start 1)"
  have "print_step (\<lambda>_. ''now'') 0 (print_start 1) ?m" by (rule pr_call) (simp_all add: print_start_def)
  then have r: "(\<lambda>m m'. \<exists>t. print_step (\<lambda>_. ''now'') t m m')\<^sup>*\<^sup>* (print_start 1) ?m" by blast
  have pc: "pm_pc ?m = [P_lock Pr_Error ''x'']" "mutex (print_lock ?m) = None" by (simp_all add: print_start_def)
  from log_lines_whole [OF r] obtain L :: log_state where "lg_calls L = map pending_call (pm_pc ?m)"
    "case mutex (print_lock ?m) of None \<Rightarrow> out_chars ?m = lg_out L | Some u \<Rightarrow> out_chars ?m = lg_out L @ written (pm_pc ?m ! u)"
    by blast
  with r pc show ?thesis by (intro exI [of _ ?m] exI [of _ L]) simp
qed

end
