(* ===== verification/Spec2Isabelle.thy ===== *)
theory Spec2Isabelle
  imports Allocator Link Program Srv_Atomic Print
begin

text \<open>
  TeaVPN2, a virtual private network over UDP: a verification library for the sources under
  \<^verbatim>\<open>src/src/teavpn2\<close> and the INI parser under \<^verbatim>\<open>src/src/ext/inih\<close>.

  \<^bold>\<open>The program.\<close>  One binary runs as a server or as a client.  Both read a configuration (defaults,
  command line, INI file), open a UDP socket and TUN devices, start worker threads that wait
  with \<^verbatim>\<open>epoll\<close> and handle one descriptor event at a time, and shut the threads down when a
  flag \<open>stop\<close> is set.  A client says hello (handshake), authenticates, configures its interface
  as the server tells it and then forwards packets between its TUN device and the socket.  The
  server keeps a table of sessions (slots on a free-slot stack, a hash map from addresses to
  slots, a route table from private addresses to slots), answers the clients, forwards packets
  between its TUN device and the sessions, and has a reaper thread that ends silent sessions.

  \<^bold>\<open>Theories and sources.\<close>
  \<^item> \<open>Prelude\<close>: byte memory, byte order, C strings, the collection \<open>frame\<close> of what state
    updates leave alone and the collection \<open>layout\<close> of what can be read from a prepared packet.
    \<open>Libc\<close>, \<open>Getopt\<close>: the functions of the C library that results depend on.  \<open>Kernel\<close>: the operating system.
  \<^item> \<open>Allocator\<close> (\<^verbatim>\<open>allocator.c\<close>), \<open>Bt_Stack\<close> (\<^verbatim>\<open>stack.h\<close>), \<open>Packet\<close> (\<^verbatim>\<open>packet.h\<close> and the
    \<^verbatim>\<open>pprep\<close> functions), \<open>Route_Map\<close>, \<open>Inih\<close> (\<^verbatim>\<open>ext/inih/inih.c\<close>), \<open>Auth\<close> (\<^verbatim>\<open>auth.c\<close>), \<open>Iface\<close>
    (\<^verbatim>\<open>net/linux/iface.c\<close>), \<open>Mutex\<close> (\<^verbatim>\<open>mutex.h\<close>), \<open>Print\<close> (\<^verbatim>\<open>print.c\<close>, \<^verbatim>\<open>print.h\<close>).
  \<^item> Server: \<open>Srv_State\<close> (\<^verbatim>\<open>server/common.h\<close>, \<^verbatim>\<open>server/linux/udp.h\<close>), \<open>Session\<close>
    (\<^verbatim>\<open>udp_session.c\<close>) with \<open>Srv_Locks\<close> and \<open>Srv_Atomic\<close> on its locks, \<open>Srv_Epoll\<close> (the event handlers of \<^verbatim>\<open>udp_epoll.c\<close>) with \<open>Srv_Progress\<close>,
    \<open>Srv_Inv\<close> and \<open>Srv_Routing\<close> on their termination, invariant and routing, \<open>Srv_Reaper\<close> and
    \<open>Srv_Loop\<close> (reaper, set-up and release of the threads), \<open>Srv_Machine\<close> (threads and
    shut-down), \<open>Srv_Init\<close> (\<^verbatim>\<open>server/linux/udp.c\<close>), \<open>Srv_Entry\<close> (\<^verbatim>\<open>server/entry.c\<close>).
  \<^item> Client: \<open>Cli_State\<close> (\<^verbatim>\<open>client/common.h\<close>, \<^verbatim>\<open>client/linux/udp.h\<close>), \<open>Cli_Proto\<close>
    (\<^verbatim>\<open>client/linux/udp.c\<close>), \<open>Cli_Epoll\<close> and \<open>Cli_Machine\<close> (\<^verbatim>\<open>client/linux/udp_epoll.c\<close>),
    \<open>Cli_Run\<close> (properties of the run), \<open>Cli_Entry\<close> (\<^verbatim>\<open>client/entry.c\<close>).
  \<^item> \<open>Threads\<close>: the abstract specification of a pool of workers that both event loops follow.
    \<open>Program\<close>: \<^verbatim>\<open>main.c\<close>.  \<open>Link\<close> and this theory: client and server together.

  \<^bold>\<open>How the code is modelled.\<close>  Structs are records, with \<open>None\<close> for a NULL pointer that the
  code can meet; enums and tagged unions are datatypes; \<^verbatim>\<open>uint8_t\<close>, \<^verbatim>\<open>uint16_t\<close>,
  \<^verbatim>\<open>uint32_t\<close> and \<^verbatim>\<open>size_t\<close> arithmetic is on words of their width; \<^verbatim>\<open>int\<close> results are integers.
  A packet buffer is a function from offsets to bytes, so that a packet that is prepared
  overwrites the packet that was received, as in the unions of the code, and whatever a buffer
  held before is still there.  There is one definition per function, in the order of the code,
  taking and returning the whole state; a prefix \<open>cli_\<close>, \<open>c_\<close> or \<open>ct_\<close> marks the client's version
  of a name that the server has too.  A result \<open>None\<close> of a function means that it does not return:
  a loop that never ends, a read through a NULL pointer or a panic.  Loops are structural
  recursion, \<open>function\<close> with a measure, or \<open>partial_function (option)\<close>; no fuel is used, and
  where a loop depends on the operating system its termination is proved under a named
  hypothesis.

  The operating system is the record \<open>kernel\<close> of answers: the \<open>n\<close>-th call of a run gets the
  \<open>n\<close>-th answer, and the state counts its calls.  A read is cut to the size of its buffer.  The
  effects are the trace \<open>io\<close> (datagrams, writes, descriptors opened and closed, shell commands,
  and the event \<open>Overrun\<close> where the interface functions write past an array on their stack), so every theorem quantifies over all
  answers, errors and partial results included.  What a theorem needs of the system is a named
  hypothesis that states documented behaviour: \<open>prompt\<close> (a full descriptor is eventually
  accepted, failed or timed out), \<open>sendto_errno\<close> (\<^verbatim>\<open>sendto\<close> does not fail with \<^verbatim>\<open>EBADMSG\<close>),
  \<open>sends_ok\<close> (it accepts the datagram), \<open>poll_answers\<close> (\<^verbatim>\<open>poll\<close> is not interrupted for ever).

  Threads are the step relations \<open>mstep\<close> (server) and \<open>cstep\<close> (client).  A step is one access of
  a thread to what it shares with the others during start and stop, and one round of its loop
  while it runs; any thread may move next, and a signal may arrive between any two steps.  In
  these machines a whole round of a worker with all its handlers, and a whole scan of the reaper,
  is one step: what is shown of their reachable states holds between rounds and scans, and says
  nothing of another thread inside of one.  The operations on the session table, which the
  reaper and the workers share, are also modelled statement by statement with the mutexes they
  take (\<open>table_step\<close>), and so are the functions that print (\<open>print_step\<close>).

  \<^bold>\<open>Interfaces.\<close>  Locales state what one component relies on of another: a stack of slots
  (\<open>Bt_Stack\<close>), an aligned allocator (\<open>Allocator\<close>), a route table (\<open>Route_Map\<close>), a session table (\<open>Session\<close>), a retry loop
  (\<open>Cli_Proto\<close>, interpreted for handshake and authentication), a critical section (\<open>Mutex\<close>,
  interpreted for both locks of the session table and for the lock of the log), a simulation
  (\<open>Prelude\<close>, interpreted for the session table and the log) and a worker pool (\<open>Threads\<close>, a
  sublocale of simulation, interpreted for the client's machine).  Each is interpreted on the definitions of the model,
  and the properties use the interpreted facts.

  \<^bold>\<open>What is shown.\<close>
  \<^item> Server: every event keeps the invariant \<open>srv_inv\<close> (table, stack, map, routes and peers agree)
    and touches only its sender; packets from the tunnel go to authenticated sessions only and
    are delivered exactly once; every handler returns when it runs on its own; the session table implements a finite
    map; the reaper ends exactly the silent sessions; the threads keep the invariant and the
    exact count of online threads under every interleaving of their rounds, no thread starts
    early, every round ends, and after the release memory is freed when all have left; start-up from every configuration either
    fails with all descriptors closed or reaches the invariant.
  \<^item> Locks: the critical sections of the session table exclude each other and cannot deadlock, and
    every interleaving of its operations has the effect of single steps, as long as no two
    threads delete the same session; when the reaper and a worker do, the server can hang, which
    is shown too.  The lines that threads print are never mixed.
  \<^item> Client: handshake and authentication end after a bounded number of packets; the run never
    gets stuck before its event loop and leaves its socket closed and the close packet sent;
    its threads refine the abstract pool (a failed creation of a thread can free memory too
    early, which is shown too); the timer stops it when the server is silent.
  \<^item> Shared parts: last-in-first-out of the stack, alignment and recovery of the allocator,
    parsing what was printed (INI files, user files, configuration files), quoting for the
    shell, the commands that configure the interface, well-formed configurations.
  \<^item> Together: handshake and authentication from end to end, packets of up to 4092 bytes unchanged
    through the tunnel in both directions (and what becomes of longer ones), and the whole program
    from its command line on.

  \<^bold>\<open>Not modelled.\<close>  The contents of messages and help texts (output only); the graphical interface (calls of GTK;
  its stop button is a step of the client); the emergency handler, liburing and the system call
  wrappers (third-party code and inline assembly, which the record \<open>kernel\<close> stands for); the
  directory \<^verbatim>\<open>linux.old.dont_use\<close>, which is not built; the interleaving of other threads
  inside a round or scan, outside of the session table and the log; what happens after a write
  past an array (the event \<open>Overrun\<close>) and after a read behind a packet buffer, where the model's
  memory simply continues.
\<close>

section \<open>Client and server together\<close>

text \<open>
  C8: the handshake works from end to end.  The packet that the client's handshake sends,
  received by a server that does not know the sender and has a free slot, opens a session for
  the sender and is answered by exactly one datagram; and the client, receiving that datagram,
  accepts it.
\<close>

theorem handshake_end_to_end:
  assumes "do_handshake_once Kc c = Some (ret, c')" and "sent_last c' bs"
    and "srv_inv s" and "sends_ok K" and "srv_receives K s saddr bs" and "srv_lookup s saddr = None"
    and "fst (create_udp_sess K (ntohl (sin_addr saddr)) (ntohs (sin_port saddr)) (s\<lparr>tick := tick s + 1\<rparr>)) = Some i"
  shows "\<exists>pkt' s' reply r. handle_event_from_udp K pkt s = Some (0, pkt', s') \<and> srv_inv s'
    \<and> srv_lookup s' saddr = Some i \<and> io s' = io s @ [Sendto saddr reply r]
    \<and> (\<forall>Kw cw. arrives Kw cw reply \<longrightarrow> (\<exists>cw'. wait_for_handshake_response Kw cw = Some (0, cw')))"
proof -
  obtain y where y: "bs = mem_read (fst (cli_pprep_handshake y)) 0 (snd (cli_pprep_handshake y))"
    using send_pkt_last assms(1,2) unfolding do_handshake_once_def by blast
  then have bs: "bs = mem_read (fst (cli_pprep_handshake y)) 0 100" using handshake_roundtrip [of y] by simp
  then have l: "length bs = 100" by simp
  then have ne: "bs \<noteq> []" by auto
  obtain err s1 where c: "create_udp_sess K (ntohl (sin_addr saddr)) (ntohs (sin_port saddr)) (s\<lparr>tick := tick s + 1\<rparr>) = (Some i, err, s1)"
    using assms(7) by (metis prod.collapse)
  obtain pkt' s' x r where h: "handle_event_from_udp K pkt s = Some (0, pkt', s')" "srv_inv s'" "srv_lookup s' saddr = Some i"
      "io s' = io s @ [Sendto saddr (mem_read (fst (srv_pprep_handshake x)) 0 100) r]"
    using new_client_handshake [OF _ assms(4) _ c, of "pkt\<lparr>pkt_len := 100, raw := mem_write (raw pkt) 0 bs\<rparr>" "raw pkt" y]
      assms(3,6) bs srv_receives_datagram [OF assms(5) ne] l by auto
  have "\<exists>cw'. wait_for_handshake_response Kw cw = Some (0, cw')"
    if "arrives Kw cw (mem_read (fst (srv_pprep_handshake x)) 0 100)" for Kw cw
    using wait_reply_arrives [OF that _, of server_handshake_chk] handshake_accepted [OF refl]
    by (auto simp: wait_for_handshake_response_def)
  then show ?thesis using h by blast
qed

text \<open>Witness of C8: a new client of a fresh server.\<close>

theorem handshake_end_to_end_witness:
  "\<exists>pkt' s'. handle_event_from_udp client_kernel \<lparr>pkt_len = 0, raw = (\<lambda>_. 0)\<rparr> (fresh_table 2) = Some (0, pkt', s')
     \<and> srv_lookup s' sample_peer = Some 0"
proof -
  define bs where "bs = mem_read (fst (cli_pprep_handshake (\<lambda>_. 0))) 0 100"
  have snd: "snd (cli_pprep_handshake (\<lambda>_. 0)) = 100" using handshake_roundtrip [of "\<lambda>_. 0"] by simp
  obtain ret c' where c: "do_handshake_once silent_kernel sample_cli = Some (ret, c')" "sent_last c' bs"
    using snd by (auto simp: do_handshake_once_def cli_send_pkt_def sample_cli_def simple_do_send_to_def Let_def
        split_def sent_last_def bs_def frame)
  have K: "sends_ok client_kernel" "srv_receives client_kernel (fresh_table 2) sample_peer bs"
    by (simp_all add: sends_ok_def client_kernel_def srv_receives_def bs_def sample_peer_def)
  have "fst (create_udp_sess client_kernel a p ((fresh_table 2)\<lparr>tick := n\<rparr>)) = Some 0" for a p n
    using fresh_create_any [of client_kernel a p n] by auto
  from handshake_end_to_end [OF c fresh_srv_inv K fresh_lookup this] show ?thesis by blast
qed

text \<open>
  C5: authentication works from end to end.  A server that has an unauthenticated session for
  the sender of an authentication packet checks exactly the credentials of the client's
  configuration.  If the user file grants them, the session becomes authenticated, the address
  of the user is routed to it, and the client that receives the reply configures its interface
  with the description of the user file, under its own device name, and succeeds exactly if
  the interface comes up.  If not, the session is closed and the client that receives the reply
  fails with \<^verbatim>\<open>EBADMSG\<close>.
\<close>

theorem auth_end_to_end:
  assumes "do_auth_once Kc c = Some (ret, c')" and "sent_last c' bs"
    and "no_nul (c_username (c_auth (c_cfg c)))" and "length (c_username (c_auth (c_cfg c))) < 256"
    and "no_nul (c_password (c_auth (c_cfg c)))" and "length (c_password (c_auth (c_cfg c))) < 256"
    and "srv_inv s" and "sends_ok K" and "srv_receives K s saddr bs" and "srv_lookup s saddr = Some i"
    and "\<not> is_authenticated (sess_arr s ! i)"
  shows "\<exists>pkt' s' reply r l. handle_event_from_udp K pkt s = Some (0, pkt', s') \<and> srv_inv s'
    \<and> io s' = io s @ Sendto saddr reply r # l
    \<and> (case teavpn2_auth (k_fopen K (tick s + 1)) (data_dir (cfg_sys (cfg s)))
             (c_username (c_auth (c_cfg c))) (c_password (c_auth (c_cfg c))) of
         Some ifi \<Rightarrow> srv_lookup s' saddr = Some i \<and> is_authenticated (sess_arr s' ! i)
           \<and> get_ipv4_route_map (ipv4_map s') (ntohl (inet_addr (ipv4 ifi))) = int i
           \<and> (\<forall>Kw cw. arrives Kw cw reply \<and> no_nul (c_iface_dev (c_iface (c_cfg cw))) \<longrightarrow>
                (\<exists>ret cw'. wait_for_auth_response Kw cw = Some (ret, cw')
                   \<and> c_iff (c_iface (c_cfg cw')) = adopted_iff (c_cfg cw) ifi
                   \<and> (ret = 0 \<longleftrightarrow> fst (teavpn_iface_up Kw (adopted_iff (c_cfg cw) ifi) (c_tick cw + 2)))))
       | None \<Rightarrow> srv_lookup s' saddr = None
           \<and> (\<forall>Kw cw. arrives Kw cw reply \<longrightarrow> (\<exists>cw'. wait_for_auth_response Kw cw = Some (- EBADMSG, cw'))))"
proof -
  let ?u = "c_username (c_auth (c_cfg c))" and ?p = "c_password (c_auth (c_cfg c))"
  obtain y where y: "bs = mem_read (fst (cli_pprep_auth y ?u ?p)) 0 (snd (cli_pprep_auth y ?u ?p))"
    using send_pkt_last [of Kc "\<lambda>m. cli_pprep_auth m ?u ?p" c ret c' bs] assms(1,2) by (auto simp: do_auth_once_def Let_def)
  note a = auth_packet_roundtrip [OF assms(3,5), of y]
  have bs: "bs = mem_read (fst (cli_pprep_auth y ?u ?p)) 0 516" using y a by simp
  then have l: "length bs = 516" by simp
  then have ne: "bs \<noteq> []" by auto
  define q where "q = pkt\<lparr>pkt_len := length bs, raw := mem_write (raw pkt) 0 bs\<rparr>"
  define s0 where "s0 = s\<lparr>tick := tick s + 1\<rparr>"
  have h: "handle_event_from_udp K pkt s = handle_datagram K saddr q s0"
    using srv_receives_datagram [OF assms(9) ne] l by (simp add: q_def s0_def)
  have q: "pkt_type (raw q) = TCLI_PKT_AUTH" "get_pkt_auth (raw q) = \<lparr>auth_username = ?u, auth_password = ?p\<rparr>"
    using a assms(4,6) by (simp_all add: q_def bs recv_header recv_auth)
  have s0: "srv_inv s0" "srv_lookup s0 saddr = Some i" "\<not> is_authenticated (sess_arr s0 ! i)" "io s0 = io s"
    using assms(7,10,11) by (simp_all add: s0_def)
  show ?thesis
  proof (cases "teavpn2_auth (k_fopen K (tick s + 1)) (data_dir (cfg_sys (cfg s))) ?u ?p")
    case None
    then have "auth_result K q s0 = None" by (simp add: q(2)) (simp add: s0_def)
    from server_rejects_auth [OF s0(1) assms(8) s0(2,3) q(1) this] obtain pkt' s' x r l where
      d: "handle_datagram K saddr q s0 = Some (0, pkt', s')" "srv_inv s'" "srv_lookup s' saddr = None"
        "io s' = io s @ Sendto saddr (mem_read (fst (srv_pprep x TSRV_PKT_AUTH_REJECT 0 0)) 0 4) r # l"
      using s0(4) by auto
    have "\<exists>cw'. wait_for_auth_response Kw cw = Some (- EBADMSG, cw')"
      if "arrives Kw cw (mem_read (fst (srv_pprep x TSRV_PKT_AUTH_REJECT 0 0)) 0 4)" for Kw cw
      using wait_reply_arrives [OF that _, of server_auth_res_chk] auth_reject_refused
      by (auto simp: wait_for_auth_response_def)
    then show ?thesis using None d h by fastforce
  next
    case (Some ifi)
    then have "auth_result K q s0 = Some ifi" by (simp add: q(2)) (simp add: s0_def)
    from server_answers_auth [OF s0(1) assms(8) s0(2,3) q(1) this] obtain pkt' s' x r l where
      d: "handle_datagram K saddr q s0 = Some (0, pkt', s')" "srv_inv s'" "srv_lookup s' saddr = Some i"
        "is_authenticated (sess_arr s' ! i)" "get_ipv4_route_map (ipv4_map s') (ntohl (inet_addr (ipv4 ifi))) = int i"
        "io s' = io s @ Sendto saddr (mem_read (fst (srv_pprep (put_if_info x 6 ifi) TSRV_PKT_AUTH_OK 84 0)) 0 88) r # l"
      using s0(4) by auto
    have "\<exists>ret cw'. wait_for_auth_response Kw cw = Some (ret, cw') \<and> c_iff (c_iface (c_cfg cw')) = adopted_iff (c_cfg cw) ifi
        \<and> (ret = 0 \<longleftrightarrow> fst (teavpn_iface_up Kw (adopted_iff (c_cfg cw) ifi) (c_tick cw + 2)))"
      if "arrives Kw cw (mem_read (fst (srv_pprep (put_if_info x 6 ifi) TSRV_PKT_AUTH_OK 84 0)) 0 88)"
        "no_nul (c_iface_dev (c_iface (c_cfg cw)))" for Kw cw
      by (rule client_adopts [OF that(1) _ that(2)], simp) (use auth_reply_accepted [OF refl auth_fits [OF Some]] in simp)
    then show ?thesis using Some d h by fastforce
  qed
qed

text \<open>Witness of C5: the sample user of a server with one client.\<close>

theorem auth_end_to_end_witness:
  "\<exists>K s pkt' s'. srv_lookup s sample_peer = Some 0 \<and> \<not> is_authenticated (sess_arr s ! 0)
     \<and> handle_event_from_udp K \<lparr>pkt_len = 0, raw = (\<lambda>_. 0)\<rparr> s = Some (0, pkt', s') \<and> is_authenticated (sess_arr s' ! 0)"
proof -
  define m where "m = cli_pprep_auth (\<lambda>_. 0) ''ammar'' ''pw''"
  define bs where "bs = mem_read (fst m) 0 (snd m)"
  have auth: "c_auth (c_cfg sample_user_cli) = \<lparr>c_username = ''ammar'', c_password = ''pw''\<rparr>"
    by (simp add: sample_user_cli_def)
  obtain ret c' where c: "do_auth_once silent_kernel sample_user_cli = Some (ret, c')" "sent_last c' bs"
    by (simp add: do_auth_once_def auth cli_send_pkt_def sample_user_cli_def sample_cli_def simple_do_send_to_def Let_def
        split_def sent_last_def bs_def m_def frame)
  obtain s where s: "srv_inv s" "srv_lookup s sample_peer = Some 0" "\<not> is_authenticated (sess_arr s ! 0)"
      "data_dir (cfg_sys (cfg s)) = []"
    using one_client by blast
  let ?u = "c_username (c_auth (c_cfg sample_user_cli))" and ?p = "c_password (c_auth (c_cfg sample_user_cli))"
  have u: "no_nul ?u" "length ?u < 256" "no_nul ?p" "length ?p < 256" by (simp_all add: auth no_nul_def)
  have g: "teavpn2_auth (k_fopen (sample_srv_kernel bs) (tick s + 1)) (data_dir (cfg_sys (cfg s))) ?u ?p = Some sample_iff"
    using sample_account by (simp add: auth sample_srv_kernel_ok(4) s(4))
  show ?thesis
    using auth_end_to_end [OF c u s(1) sample_srv_kernel_ok(1,2) s(2,3), of "\<lparr>pkt_len = 0, raw = (\<lambda>_. 0)\<rparr>"] s(2,3)
    unfolding g option.case by blast
qed

text \<open>
  C6: packets travel up the tunnel.  What the client reads from its TUN device, it sends as one
  datagram; a server that has a session for the sender, and whose TUN device accepts the write,
  writes to it exactly the bytes that the client read, when there are at most 4092 of them.  Of a
  longer packet (the client reads up to 4096 bytes) the server receives 4096 bytes with the
  header, and writes in the place of the last bytes what its buffer held there before.
\<close>

theorem tunnel_up:
  assumes "k_read Kc (c_tick c) = (int (length p), p)" and "p \<noteq> []" and "length p \<le> 4096"
    and "sent_last (snd (snd (handle_event_tun Kc cpkt c))) bs"
    and "srv_lookup s saddr = Some i" and "srv_receives K s saddr bs" and "sends_ok K" and "\<forall>n. 0 < k_write K n"
  shows "\<exists>pkt' s' r l. handle_event_from_udp K pkt s = Some (0, pkt', s')
    \<and> io s' = io s @ Write (tun_fds s ! 0)
        (if length p \<le> 4092 then p else take 4092 p @ mem_read (raw pkt) 4096 (length p - 4092)) r # l"
proof -
  have bs: "bs = tun_packet p" using client_tun_sends [OF assms(1,3), of cpkt] assms(4) by (auto simp: sent_last_def)
  then have ne: "bs \<noteq> []" by (simp add: tun_packet_def)
  show ?thesis unfolding tun_received_eq [symmetric]
    using server_tun_writes [of "s\<lparr>tick := tick s + 1\<rparr>" saddr i K, OF _ assms(7) _ _ assms(3,2)]
      srv_receives_datagram [OF assms(6) ne, of pkt] assms(5,8) bs by simp
qed

text \<open>Witness of C6.\<close>

theorem tunnel_up_witness:
  "\<exists>K s pkt' s' r l. handle_event_from_udp K \<lparr>pkt_len = 0, raw = (\<lambda>_. 0)\<rparr> s = Some (0, pkt', s')
     \<and> io s' = Write (tun_fds s ! 0) sample_ip r # l"
proof -
  have r: "k_read (sample_srv_kernel bs) (c_tick sample_cli) = (int (length sample_ip), sample_ip)" for bs
    by (rule sample_srv_kernel_ok)
  have ip: "sample_ip \<noteq> []" "length sample_ip \<le> 4096" "length sample_ip \<le> 4092" by (simp_all add: sample_ip_def)
  have b: "sent_last (snd (snd (handle_event_tun (sample_srv_kernel []) \<lparr>pkt_len = 0, raw = (\<lambda>_. 0)\<rparr> sample_cli))) (tun_packet sample_ip)"
    using client_tun_sends [OF r [of "[]"], of "\<lparr>pkt_len = 0, raw = (\<lambda>_. 0)\<rparr>"] ip(2) by (auto simp: sent_last_def)
  obtain s where s: "srv_lookup s sample_peer = Some 0" "io s = []" using one_client by blast
  have w: "\<forall>n. 0 < k_write (sample_srv_kernel bs) n" for bs using sample_srv_kernel_ok(3) by blast
  from tunnel_up [OF r ip(1,2) b s(1) sample_srv_kernel_ok(2,1) w] s(2) ip(3) show ?thesis by fastforce
qed

text \<open>
  C7: packets travel down the tunnel.  An IPv4 packet that the server reads from its TUN device
  and whose destination is routed to a session is sent, when the socket accepts it, as exactly
  one datagram, to the peer of that session; the client that receives it writes to its own TUN
  device exactly the bytes that the server read, when there are at most 4092 of them.  Of a longer
  packet the client receives 4096 bytes with the header, and writes in the place of the last
  bytes what its buffer held there before.
\<close>

theorem tunnel_down:
  assumes "k_read K (tick s) = (int (length p), p)" and "length p \<le> 4096" and "sends_ok K"
    and "iphdr_version (mem_write (raw pkt) 4 p) = 4"
    and "get_ipv4_route_map (ipv4_map s) (iphdr_daddr (mem_write (raw pkt) 4 p)) = int i"
  shows "\<exists>pkt' s' bs r. handle_event_from_tun K pkt s = Some (0, pkt', s') \<and> io s' = io s @ [Sendto (addr (sess_arr s ! i)) bs r]
    \<and> (\<forall>Kc c cpkt a. k_recvfrom Kc (c_tick c) = (int (length bs), bs, a) \<longrightarrow>
         (\<exists>w. c_io (snd (snd (handle_event_udp Kc cpkt c))) = c_io c @ [Write (c_tun_fds c ! 0)
            (if length p \<le> 4092 then p else take 4092 p @ mem_read (raw cpkt) 4096 (length p - 4092)) w]))"
proof -
  obtain pkt' s' log where h: "handle_event_from_tun K pkt s = Some (0, pkt', s')" "io s' = io s @ log"
      "map sent_to log = map (\<lambda>i. Some (addr (sess_arr s ! i), tun_packet p)) (receivers s (mem_write (raw pkt) 4 p))"
    using tun_delivers [OF assms(3,1,2)] by blast
  have "receivers s (mem_write (raw pkt) 4 p) = [i]" using assms(4,5) by (simp add: receivers_def)
  then obtain r where "io s' = io s @ [Sendto (addr (sess_arr s ! i)) (tun_packet p) r]"
    using h(2,3) by (auto simp: sent_to_def split: io.splits)
  then show ?thesis unfolding tun_received_eq [symmetric] using h(1) client_tun_writes [OF _ assms(2)] by blast
qed

text \<open>Witness of C7: the address of the packet is routed to the first slot.\<close>

theorem tunnel_down_witness:
  "\<exists>pkt' s' bs r. handle_event_from_tun (tun_kernel sample_ip) \<lparr>pkt_len = 0, raw = (\<lambda>_. 0)\<rparr>
       ((fresh_table 2)\<lparr>ipv4_map := add_ipv4_route_map (\<lambda>_ _. 0) 0x0a050509 0\<rparr>) = Some (0, pkt', s')
     \<and> io s' = [Sendto (addr (sess_arr (fresh_table 2) ! 0)) bs r]"
proof -
  let ?s = "(fresh_table 2)\<lparr>ipv4_map := add_ipv4_route_map (\<lambda>_ _. 0) 0x0a050509 0\<rparr>" and ?pkt = "\<lparr>pkt_len = 0, raw = (\<lambda>_. 0)\<rparr>"
  have r: "k_read (tun_kernel sample_ip) (tick ?s) = (int (length sample_ip), sample_ip)" and K: "sends_ok (tun_kernel sample_ip)"
    by (simp_all add: tun_kernel_def sends_ok_def)
  have l: "length sample_ip \<le> 4096" by (simp add: sample_ip_def)
  have v: "iphdr_version (mem_write (raw ?pkt) 4 sample_ip) = 4" by (simp only: sample_ip_hdr)
  have g: "get_ipv4_route_map (ipv4_map ?s) (iphdr_daddr (mem_write (raw ?pkt) 4 sample_ip)) = int 0"
    by (simp add: sample_ip_hdr rt.get_add_cases)
  have io: "io ?s = []" by (simp add: fresh_table_def)
  show ?thesis using tunnel_down [OF r l K v g] io by fastforce
qed

section \<open>The whole program\<close>

text \<open>
  C4: the program from its command line on.  Whatever command line and configuration file it
  is given, if they configure at least one thread, the program returns from its start: it exits
  with status 0 only when no command is given or a text (help or version) was asked for, exits
  with an error, or enters the event loop of the server or the client; it crashes only without any
  argument vector or when the option for encryption is given without a value.  In every state
  that whole worker rounds, whole reaper scans, steps of the main thread and signals of a running
  server can reach its tables agree with each other, and in every state that such steps of a
  running client can reach its thread pool is sound.
\<close>

theorem program_invariant:
  assumes "sendto_errno K" and "poll_answers K"
    and "\<forall>c. load_srv_cfg fopen argv = Argv 0 c \<longrightarrow> 1 \<le> thread_num (cfg_sys c)"
    and "\<forall>c. load_cli_cfg fopen argv = Argv 0 c \<longrightarrow> 1 \<le> c_thread_num (c_sys c)"
  shows "\<exists>p. teavpn2_main fopen K argv = Some p
    \<and> (case p of
         Exited_With n \<Rightarrow> n \<noteq> 0 \<or> text_asked argv
       | Crashed \<Rightarrow> argv = [] \<or> encrypt_given argv
       | Running (Inl m0) \<Rightarrow> (\<forall>m. (mstep K)\<^sup>*\<^sup>* m0 m \<longrightarrow> srv_inv (m_srv m))
       | Running (Inr m0) \<Rightarrow> (\<forall>m. (cstep K)\<^sup>*\<^sup>* m0 m \<longrightarrow> pool_inv (cli_pool m)))"
proof -
  obtain p q where p: "run_server fopen K argv = Some p"
        "comes_out (srv_opts argv) (\<lambda>m0. \<forall>m. (mstep K)\<^sup>*\<^sup>* m0 m \<longrightarrow> srv_inv (m_srv m)) p"
      and q: "run_client fopen K argv = Some q"
        "comes_out (cli_opts argv) (\<lambda>m0. \<forall>m. (cstep K)\<^sup>*\<^sup>* m0 m \<longrightarrow> pool_inv (cli_pool m)) q"
    using run_server_sound [OF assms(1,3)] run_client_sound [OF assms(2,4)] by blast
  show ?thesis
  proof (cases argv rule: remdups_adj.cases)
    case (3 app cmd args)
    consider "cmd = ''server''" | "cmd = ''client''" | "cmd \<noteq> ''server'' \<and> cmd \<noteq> ''client''" by blast
    then show ?thesis
    proof cases
      case 1
      then show ?thesis using 3 p
        by (cases p) (simp_all add: teavpn2_main_def run_teavpn2_def comes_out_def text_asked_def encrypt_given_def)
    next
      case 2
      then show ?thesis using 3 q
        by (cases q) (simp_all add: teavpn2_main_def run_teavpn2_def comes_out_def text_asked_def encrypt_given_def)
    qed (use 3 in \<open>simp add: teavpn2_main_def run_teavpn2_def text_asked_def\<close>)
  qed (simp_all add: teavpn2_main_def text_asked_def)
qed

text \<open>Witness of C4: a server without a configuration file does not crash and does not end quietly.\<close>

theorem program_invariant_witness:
  "\<exists>p. teavpn2_main (\<lambda>_. Inl ENOENT) silent_kernel [''teavpn2'', ''server''] = Some p \<and> p \<noteq> Crashed \<and> p \<noteq> Exited_With 0"
proof -
  let ?argv = "[''teavpn2'', ''server'']"
  have s: "load_srv_cfg (\<lambda>_. Inl ENOENT) ?argv = Argv 0 (set_default_config srv_cfg_zero)"
    by (simp add: load_srv_cfg_def parse_argv_def getopt_long.simps parse_cfg_file_def set_default_config_def)
  have "\<forall>c. load_srv_cfg (\<lambda>_. Inl ENOENT) ?argv = Argv 0 c \<longrightarrow> 1 \<le> thread_num (cfg_sys c)"
    unfolding s by (auto simp: set_default_config_def)
  moreover have "\<forall>c. load_cli_cfg (\<lambda>_. Inl ENOENT) ?argv = Argv 0 c \<longrightarrow> 1 \<le> c_thread_num (c_sys c)"
    by (simp add: load_cli_cfg_def cli_parse_argv_def getopt_long.simps client_parse_cfg_file_def cli_set_default_config_def
        cli_cfg_zero_def)
  moreover have "\<not> encrypt_given ?argv" "\<not> text_asked ?argv"
    by (simp_all add: encrypt_given_def text_asked_def getopt_long.simps)
  ultimately show ?thesis
    using program_invariant [OF three_threads_start(1) silent_poll_answers, of "\<lambda>_. Inl ENOENT" ?argv] by auto
qed

end
